(* ===== verification/Prelude.thy ===== *)
theory Prelude
  imports Main "HOL-Library.Word" "HOL-Library.List_Lexorder" "HOL-Library.Char_ord"
begin

section \<open>Shared vocabulary and automation\<close>

text \<open>
  The types every component uses and the lemma collections the component proofs draw on.
  A Go \<open>string\<close> and a Go \<open>[]byte\<close> are both sequences of bytes, and a HOL \<^typ>\<open>char\<close> is a
  byte, so both are \<^typ>\<open>string\<close> here: \<open>len(s)\<close> is \<^term>\<open>length s\<close> and the conversions
  \<open>[]byte(s)\<close>, \<open>string(b)\<close> are the identity. A \<open>time.Time\<close> is the number of nanoseconds
  since the Unix epoch. A function returning \<open>(T, error)\<close> has type \<open>err + T\<close>, with the
  error on the left.
\<close>

type_synonym bytes = string
type_synonym time = int

named_theorems frame \<open>operations that leave the database as it is\<close>
named_theorems success \<open>what a successful run of an effectful operation implies\<close>
named_theorems names \<open>the string constants of the program\<close>

definition seconds :: "int \<Rightarrow> time" where
  "seconds n = n * 1000000000"

definition byte_nat :: "char \<Rightarrow> nat" where
  "byte_nat c = of_char c"

definition nat_byte :: "nat \<Rightarrow> char" where
  "nat_byte n = char_of n"

lemma byte_nat_less [simp]: "byte_nat c < 256"
  by (simp add: byte_nat_def)

lemma nat_byte_nat [simp]: "nat_byte (byte_nat c) = c"
  by (simp add: byte_nat_def nat_byte_def)

lemma byte_nat_byte [simp]: "n < 256 \<Longrightarrow> byte_nat (nat_byte n) = n"
  by (simp add: byte_nat_def nat_byte_def)

lemma byte_nat_inject [simp]: "byte_nat c = byte_nat d \<longleftrightarrow> c = d"
  by (simp add: byte_nat_def)

lemma nat_byte_inject: "m < 256 \<Longrightarrow> n < 256 \<Longrightarrow> nat_byte m = nat_byte n \<longleftrightarrow> m = n"
  by (metis byte_nat_byte)

subsection \<open>Lists as database tables\<close>

text \<open>
  Tables are lists of rows. A primary key or a unique index is a key function that is
  injective on the rows, stated through \<^const>\<open>distinct\<close>.
\<close>

lemma distinct_map_filter_key: "distinct (map f xs) \<Longrightarrow> distinct (map f (filter P xs))"
  by (induction xs) auto

lemma distinct_key_eq:
  assumes "distinct (map f xs)" and "x \<in> set xs" and "y \<in> set xs" and "f x = f y"
  shows "x = y"
  using assms by (auto simp: distinct_map dest: inj_onD)

lemma map_key_update:
  assumes "\<And>x. f (g x) = f x"
  shows "map f (map (\<lambda>x. if P x then g x else x) xs) = map f xs"
  using assms by (induction xs) auto

lemma filter_map_update:
  assumes "\<And>x. Q (g x) = Q x"
  shows "filter Q (map (\<lambda>x. if P x then g x else x) xs)
    = map (\<lambda>x. if P x then g x else x) (filter Q xs)"
  using assms by (induction xs) auto

lemma find_unique_key:
  assumes "distinct (map f xs)" and "x \<in> set xs"
  shows "find (\<lambda>y. f y = f x) xs = Some x"
  using assms by (induction xs) (auto simp: rev_image_eqI)

lemma find_key_None: "find (\<lambda>y. f y = k) xs = None \<longleftrightarrow> k \<notin> f ` set xs"
  by (auto simp: find_None_iff)

lemma find_SomeD: "find P xs = Some x \<Longrightarrow> x \<in> set xs \<and> P x"
  by (auto simp: find_Some_iff)

lemma length_filter_update_one:
  assumes "distinct (map f xs)" and "x \<in> set xs" and "f x = k" and "\<not> Q x" and "Q (g x)"
  shows "length (filter Q (map (\<lambda>y. if f y = k then g y else y) xs))
    = Suc (length (filter Q xs))"
  using assms
proof (induction xs)
  case Nil
  then show ?case by simp
next
  case (Cons z zs)
  show ?case
  proof (cases "x = z")
    case True
    with Cons.prems have "\<forall>y \<in> set zs. f y \<noteq> k" by (auto simp: rev_image_eqI)
    then have "map (\<lambda>y. if f y = k then g y else y) zs = zs" by (simp add: map_idI)
    with True Cons.prems show ?thesis by simp
  next
    case False
    with Cons.prems have "x \<in> set zs" and "f z \<noteq> k" by (auto simp: rev_image_eqI)
    with Cons show ?thesis by simp
  qed
qed

lemma length_filter_key_le_1:
  assumes "distinct (map f xs)"
  shows "length (filter (\<lambda>x. f x = k \<and> P x) xs) \<le> 1"
  using assms
proof (induction xs)
  case Nil
  then show ?case by simp
next
  case (Cons x xs)
  have "filter (\<lambda>x. f x = k \<and> P x) xs = []" if "f x = k"
    using Cons.prems that by (auto simp: filter_empty_conv rev_image_eqI)
  with Cons show ?case by auto
qed

end
