(* ===== verification/Go_Strings.thy ===== *)
theory Go_Strings
  imports Prelude
begin

section \<open>The parts of Go's standard library on strings the server uses\<close>

text \<open>
  Byte-level models of \<open>strings.Split\<close>, \<open>bytes.TrimSpace\<close>, \<open>utf8.Valid\<close> and of the textual
  UUID form checked by \<open>uuid.Parse\<close> followed by \<open>String\<close>. They are shared by the components and
  carry no program logic of their own.
\<close>

definition has_prefix :: "string \<Rightarrow> string \<Rightarrow> bool" where
  "has_prefix s p \<longleftrightarrow> take (length p) s = p"

definition has_suffix :: "string \<Rightarrow> string \<Rightarrow> bool" where
  "has_suffix s p \<longleftrightarrow> length p \<le> length s \<and> drop (length s - length p) s = p"

fun split_on :: "char \<Rightarrow> string \<Rightarrow> string list" where
  "split_on c [] = [[]]"
| "split_on c (x # xs) =
     (if x = c then [] # split_on c xs
      else case split_on c xs of [] \<Rightarrow> [[x]] | p # ps \<Rightarrow> (x # p) # ps)"

lemma split_on_nonempty [simp]: "split_on c s \<noteq> []"
  by (induction s) (auto split: list.splits)

lemma split_on_none: "c \<notin> set s \<Longrightarrow> split_on c s = [s]"
  by (induction s) auto

lemma split_on_append:
  "c \<notin> set a \<Longrightarrow> split_on c (a @ c # b) = a # split_on c b"
  by (induction a) (auto split: list.splits)

subsection \<open>White space\<close>

text \<open>
  The UTF-8 encodings of the code points with Unicode's \<open>White_Space\<close> property, which is what
  \<open>unicode.IsSpace\<close> accepts.
\<close>

definition white_space :: "bytes list" where
  "white_space = map (map nat_byte)
     ([[9], [10], [11], [12], [13], [32], [194, 133], [194, 160], [225, 154, 128]]
      @ map (\<lambda>n. [226, 128, n]) [128..<139]
      @ [[226, 128, 168], [226, 128, 169], [226, 128, 175], [226, 129, 159], [227, 128, 128]])"

definition leading :: "bytes list \<Rightarrow> bytes \<Rightarrow> bytes option" where
  "leading ws s = find (\<lambda>w. w \<noteq> [] \<and> has_prefix s w) ws"

lemma leading_shorter:
  assumes "leading ws s = Some w"
  shows "length (drop (length w) s) < length s"
proof -
  from assms have w: "w \<noteq> []" "take (length w) s = w"
    by (auto simp: leading_def find_Some_iff has_prefix_def)
  then have "s \<noteq> []" by auto
  with w show ?thesis by simp
qed

function strip :: "bytes list \<Rightarrow> bytes \<Rightarrow> bytes" where
  "strip ws s = (case leading ws s of None \<Rightarrow> s | Some w \<Rightarrow> strip ws (drop (length w) s))"
  by pat_completeness auto
termination
  by (relation "measure (\<lambda>(ws, s). length s)") (auto dest: leading_shorter)

declare strip.simps [simp del]

definition trim_space :: "bytes \<Rightarrow> bytes" where
  "trim_space s = rev (strip (map rev white_space) (rev (strip white_space s)))"

text \<open>A text whose first byte starts no white space keeps that byte.\<close>

lemma strip_fixed: "leading ws s = None \<Longrightarrow> strip ws s = s"
  by (simp add: strip.simps [of ws s])

lemma strip_step: "leading ws s = Some w \<Longrightarrow> strip ws s = strip ws (drop (length w) s)"
  by (simp add: strip.simps [of ws s])

lemma strip_suffix: "\<exists>p. s = p @ strip ws s"
proof (induction ws s rule: strip.induct)
  case (1 ws s)
  show ?case
  proof (cases "leading ws s")
    case None
    then show ?thesis by (simp add: strip_fixed)
  next
    case (Some w)
    with 1 obtain p where "drop (length w) s = p @ strip ws (drop (length w) s)" by blast
    then have "s = (take (length w) s @ p) @ strip ws s"
      by (metis Some append.assoc append_take_drop_id strip_step)
    then show ?thesis by blast
  qed
qed

definition no_space_byte :: "char \<Rightarrow> bool" where
  "no_space_byte c \<longleftrightarrow> list_all (\<lambda>w. \<not> List.member w c) white_space"

lemma leading_set: "leading ws s = Some w \<Longrightarrow> w \<in> set ws \<and> s = w @ drop (length w) s"
  by (auto simp: leading_def has_prefix_def find_Some_iff) (metis append_take_drop_id)

lemma strip_keeps_byte: "c \<in> set s \<Longrightarrow> \<forall>w \<in> set ws. c \<notin> set w \<Longrightarrow> c \<in> set (strip ws s)"
proof (induction ws s rule: strip.induct)
  case (1 ws s)
  show ?case
  proof (cases "leading ws s")
    case None
    with 1 show ?thesis by (simp add: strip_fixed)
  next
    case (Some w)
    then have "w \<in> set ws" "s = w @ drop (length w) s" by (auto dest: leading_set)
    with "1.prems" have "c \<in> set (drop (length w) s)" by (metis UnE set_append)
    with 1 Some show ?thesis by (simp add: strip_step)
  qed
qed

lemma trim_space_not_empty:
  assumes "c \<in> set s" and "no_space_byte c"
  shows "trim_space s \<noteq> []"
proof -
  have ws: "\<forall>w \<in> set white_space. c \<notin> set w"
    using assms(2) by (simp add: no_space_byte_def list_all_iff)
  then have "c \<in> set (strip white_space s)" by (rule strip_keeps_byte [OF assms(1)])
  then have "c \<in> set (strip (map rev white_space) (rev (strip white_space s)))"
    using ws by (intro strip_keeps_byte) auto
  then show ?thesis by (auto simp: trim_space_def)
qed

lemma white_space_bytes:
  "w \<in> set white_space \<Longrightarrow> x \<in> set w \<Longrightarrow> byte_nat x \<le> 32 \<or> 128 \<le> byte_nat x"
proof -
  have "list_all (list_all (\<lambda>x. byte_nat x \<le> 32 \<or> 128 \<le> byte_nat x)) white_space" by code_simp
  then show "w \<in> set white_space \<Longrightarrow> x \<in> set w \<Longrightarrow> ?thesis" by (auto simp: list_all_iff)
qed

lemma no_space_byte_graphic: "32 < byte_nat c \<Longrightarrow> byte_nat c < 128 \<Longrightarrow> no_space_byte c"
  by (force simp: no_space_byte_def list_all_iff dest: white_space_bytes)

lemma strip_graphic: "no_space_byte c \<Longrightarrow> strip white_space (c # s) = c # s"
  "no_space_byte c \<Longrightarrow> strip (map rev white_space) (c # s) = c # s"
proof -
  assume c: "no_space_byte c"
  have "leading ws (c # s) = None" if "\<forall>w \<in> set ws. c \<notin> set w" for ws
  proof (rule ccontr)
    assume "leading ws (c # s) \<noteq> None"
    then obtain w where w: "leading ws (c # s) = Some w" by auto
    then have "w \<noteq> []" by (auto simp: leading_def find_Some_iff)
    with leading_set [OF w] that show False by (cases w) auto
  qed
  then show "strip white_space (c # s) = c # s" "strip (map rev white_space) (c # s) = c # s"
    using c by (auto simp: no_space_byte_def list_all_iff intro!: strip_fixed)
qed

lemma trim_space_graphic:
  assumes "no_space_byte c" and "no_space_byte d"
  shows "trim_space (c # s @ [d]) = c # s @ [d]"
  using strip_graphic(1) [OF assms(1), of "s @ [d]"] strip_graphic(2) [OF assms(2), of "rev (c # s)"]
  by (simp add: trim_space_def)

subsection \<open>UTF-8\<close>

definition is_cont :: "nat \<Rightarrow> bool" where
  "is_cont n \<longleftrightarrow> 128 \<le> n \<and> n \<le> 191"

text \<open>
  The accept ranges of \<open>unicode/utf8\<close>: no overlong forms (\<open>C0\<close>, \<open>C1\<close>, \<open>E0 80\<close>, \<open>F0 80\<close>), no
  surrogates (\<open>ED A0\<close>), nothing above \<open>U+10FFFF\<close>.
\<close>

fun utf8_codes :: "nat list \<Rightarrow> bool" where
  "utf8_codes [] = True"
| "utf8_codes (a # r) =
     (if a < 128 then utf8_codes r
      else if 194 \<le> a \<and> a \<le> 223 then
        (case r of b # r2 \<Rightarrow> is_cont b \<and> utf8_codes r2 | _ \<Rightarrow> False)
      else if 224 \<le> a \<and> a \<le> 239 then
        (case r of b # c # r2 \<Rightarrow>
             (if a = 224 then 160 \<le> b \<and> b \<le> 191
              else if a = 237 then 128 \<le> b \<and> b \<le> 159 else is_cont b)
             \<and> is_cont c \<and> utf8_codes r2
         | _ \<Rightarrow> False)
      else if 240 \<le> a \<and> a \<le> 244 then
        (case r of b # c # d # r2 \<Rightarrow>
             (if a = 240 then 144 \<le> b \<and> b \<le> 191
              else if a = 244 then 128 \<le> b \<and> b \<le> 143 else is_cont b)
             \<and> is_cont c \<and> is_cont d \<and> utf8_codes r2
         | _ \<Rightarrow> False)
      else False)"

definition utf8_valid :: "bytes \<Rightarrow> bool" where
  "utf8_valid s = utf8_codes (map byte_nat s)"

lemma utf8_codes_ascii: "\<forall>n \<in> set ns. n < 128 \<Longrightarrow> utf8_codes ns"
  by (induction ns) auto

subsection \<open>UUIDs\<close>

text \<open>
  The code only ever uses \<open>uuid.Parse(s)\<close> together with the test \<open>u.String() == s\<close>.
  \<open>String\<close> prints the 16 bytes as lower-case hexadecimal in the groups 8-4-4-4-12, so whatever
  further spellings \<open>Parse\<close> admits, the combined test accepts exactly the canonical form.
\<close>

definition hex_digits :: string where
  "hex_digits = ''0123456789abcdef''"

definition hex_byte :: "char \<Rightarrow> string" where
  "hex_byte c = [hex_digits ! (byte_nat c div 16), hex_digits ! (byte_nat c mod 16)]"

definition hex_encode :: "bytes \<Rightarrow> string" where
  "hex_encode b = concat (map hex_byte b)"

definition uuid_string :: "bytes \<Rightarrow> string" where
  "uuid_string b =
     hex_encode (take 4 b) @ ''-'' @ hex_encode (take 2 (drop 4 b)) @ ''-''
     @ hex_encode (take 2 (drop 6 b)) @ ''-'' @ hex_encode (take 2 (drop 8 b)) @ ''-''
     @ hex_encode (drop 10 b)"

definition hex_value :: "char \<Rightarrow> nat option" where
  "hex_value c =
     (let n = byte_nat c in
      if 48 \<le> n \<and> n \<le> 57 then Some (n - 48)
      else if 97 \<le> n \<and> n \<le> 102 then Some (n - 87)
      else if 65 \<le> n \<and> n \<le> 70 then Some (n - 55)
      else None)"

fun hex_decode :: "string \<Rightarrow> bytes option" where
  "hex_decode [] = Some []"
| "hex_decode [c] = None"
| "hex_decode (c # d # r) =
     (case (hex_value c, hex_value d, hex_decode r) of
        (Some h, Some l, Some b) \<Rightarrow> Some (nat_byte (16 * h + l) # b)
      | _ \<Rightarrow> None)"

definition uuid_parse :: "string \<Rightarrow> bytes option" where
  "uuid_parse s =
     (if length s = 36 \<and> s ! 8 = CHR ''-'' \<and> s ! 13 = CHR ''-'' \<and> s ! 18 = CHR ''-''
         \<and> s ! 23 = CHR ''-''
      then hex_decode (take 8 s @ take 4 (drop 9 s) @ take 4 (drop 14 s)
             @ take 4 (drop 19 s) @ drop 24 s)
      else None)"

definition uuid_canonical :: "string \<Rightarrow> bool" where
  "uuid_canonical s =
     (case uuid_parse s of None \<Rightarrow> False | Some u \<Rightarrow> uuid_string u = s)"

lemma hex_digits_le: "n < 16 \<Longrightarrow> hex_value (hex_digits ! n) = Some n"
proof -
  have "\<forall>n \<in> set [0..<16]. hex_value (hex_digits ! n) = Some n"
    by code_simp
  then show "n < 16 \<Longrightarrow> ?thesis" by simp
qed

lemma hex_decode_encode [simp]: "hex_decode (hex_encode b) = Some b"
proof (induction b)
  case Nil
  then show ?case by (simp add: hex_encode_def)
next
  case (Cons c b)
  have "byte_nat c div 16 < 16" "byte_nat c mod 16 < 16"
    using byte_nat_less [of c] by (auto simp: less_mult_imp_div_less)
  with Cons show ?case by (simp add: hex_encode_def hex_byte_def hex_digits_le)
qed

lemma byte_halves: "byte_nat c div 16 < 16" "byte_nat c mod 16 < 16"
  "nat_byte (16 * (byte_nat c div 16) + byte_nat c mod 16) = c"
  using byte_nat_less [of c] by (simp_all add: less_mult_imp_div_less)

lemma hex_encode_bytes: "set (hex_encode b) \<subseteq> set hex_digits"
proof -
  have "hex_digits ! n \<in> set hex_digits" if "n < 16" for n
    using that by (intro nth_mem) (simp add: hex_digits_def)
  then show ?thesis
    by (auto simp: hex_encode_def hex_byte_def byte_halves)
qed

lemma length_hex_encode [simp]: "length (hex_encode b) = 2 * length b"
  by (induction b) (auto simp: hex_encode_def hex_byte_def)

lemma hex_encode_append: "hex_encode (a @ b) = hex_encode a @ hex_encode b"
  by (simp add: hex_encode_def)

lemma uuid_parse_groups:
  assumes "length A = 8" "length B = 4" "length C = 4" "length D = 4" "length F = 12"
  shows "uuid_parse (A @ ''-'' @ B @ ''-'' @ C @ ''-'' @ D @ ''-'' @ F)
    = hex_decode (A @ B @ C @ D @ F)"
  using assms by (simp add: uuid_parse_def nth_append)

lemma uuid_parse_string:
  assumes "length b = 16"
  shows "uuid_parse (uuid_string b) = Some b"
proof -
  let ?a = "take 4 b" and ?b = "take 2 (drop 4 b)" and ?c = "take 2 (drop 6 b)"
  let ?d = "take 2 (drop 8 b)" and ?e = "drop 10 b"
  have "drop 4 b = ?b @ drop 6 b" "drop 6 b = ?c @ drop 8 b" "drop 8 b = ?d @ ?e"
    using append_take_drop_id [of 2 "drop 4 b"] append_take_drop_id [of 2 "drop 6 b"]
      append_take_drop_id [of 2 "drop 8 b"] by simp_all
  then have groups: "?a @ ?b @ ?c @ ?d @ ?e = b"
    by (metis append_take_drop_id)
  have "uuid_parse (uuid_string b)
      = hex_decode (hex_encode ?a @ hex_encode ?b @ hex_encode ?c @ hex_encode ?d @ hex_encode ?e)"
    unfolding uuid_string_def by (rule uuid_parse_groups) (use assms in simp_all)
  also have "\<dots> = hex_decode (hex_encode (?a @ ?b @ ?c @ ?d @ ?e))"
    by (simp only: hex_encode_append)
  also have "\<dots> = Some b"
    by (simp only: groups hex_decode_encode)
  finally show ?thesis .
qed

lemma uuid_canonical_string: "length b = 16 \<Longrightarrow> uuid_canonical (uuid_string b)"
  by (simp add: uuid_canonical_def uuid_parse_string)

lemma uuid_canonical_length: "uuid_canonical s \<Longrightarrow> length s = 36"
  by (auto simp: uuid_canonical_def uuid_parse_def split: if_splits option.splits)

end
