(* ===== verification/Go_Base64.thy ===== *)
theory Go_Base64
  imports Go_Strings
begin

section \<open>base64.RawURLEncoding and its Strict decoder\<close>

text \<open>
  Unpadded base64url as \<open>encoding/base64\<close> implements it. Encoding works on the byte codes;
  decoding first drops CR and LF, which Go's decoder ignores even in strict mode, then maps each
  character to its sextet and reads groups of four. In strict mode the unused low bits of the
  last group must be zero.
\<close>

definition b64_char :: "nat \<Rightarrow> char" where
  "b64_char n = nat_byte
     (if n < 26 then n + 65 else if n < 52 then n + 71 else if n < 62 then n - 4
      else if n = 62 then 45 else 95)"

fun sextets :: "nat list \<Rightarrow> nat list" where
  "sextets [] = []"
| "sextets [a] = [a div 4, a mod 4 * 16]"
| "sextets [a, b] = [a div 4, a mod 4 * 16 + b div 16, b mod 16 * 4]"
| "sextets (a # b # c # r) =
     a div 4 # (a mod 4 * 16 + b div 16) # (b mod 16 * 4 + c div 64) # c mod 64 # sextets r"

definition b64_encode :: "bytes \<Rightarrow> string" where
  "b64_encode b = map b64_char (sextets (map byte_nat b))"

definition b64_value :: "char \<Rightarrow> nat option" where
  "b64_value c =
     (let n = byte_nat c in
      if 65 \<le> n \<and> n \<le> 90 then Some (n - 65)
      else if 97 \<le> n \<and> n \<le> 122 then Some (n - 71)
      else if 48 \<le> n \<and> n \<le> 57 then Some (n + 4)
      else if n = 45 then Some 62
      else if n = 95 then Some 63
      else None)"

fun unsextets :: "nat list \<Rightarrow> nat list option" where
  "unsextets [] = Some []"
| "unsextets [x] = None"
| "unsextets [x, y] = (if y mod 16 = 0 then Some [x * 4 + y div 16] else None)"
| "unsextets [x, y, z] =
     (if z mod 4 = 0 then Some [x * 4 + y div 16, y mod 16 * 16 + z div 4] else None)"
| "unsextets (x # y # z # u # r) =
     map_option (\<lambda>bs. (x * 4 + y div 16) # (y mod 16 * 16 + z div 4) # (z mod 4 * 64 + u) # bs)
       (unsextets r)"

fun b64_values :: "string \<Rightarrow> nat list option" where
  "b64_values [] = Some []"
| "b64_values (c # r) =
     (case b64_value c of None \<Rightarrow> None | Some v \<Rightarrow> map_option (\<lambda>vs. v # vs) (b64_values r))"

definition newline :: "char \<Rightarrow> bool" where
  "newline c \<longleftrightarrow> byte_nat c = 10 \<or> byte_nat c = 13"

definition b64_decode :: "string \<Rightarrow> bytes option" where
  "b64_decode s =
     (case b64_values (filter (\<lambda>c. \<not> newline c) s) of
        None \<Rightarrow> None
      | Some vs \<Rightarrow> map_option (map nat_byte) (unsextets vs))"

subsection \<open>Sextets are below 64 and the alphabet is a bijection\<close>

lemma sextets_less: "\<forall>n \<in> set ns. n < 256 \<Longrightarrow> \<forall>v \<in> set (sextets ns). v < 64"
  by (induction ns rule: sextets.induct) auto

lemma b64_char_value: "n < 64 \<Longrightarrow> b64_value (b64_char n) = Some n"
  by (auto simp: b64_value_def b64_char_def Let_def)

lemma b64_value_char:
  assumes "b64_value c = Some n"
  shows "n < 64 \<and> b64_char n = c"
proof -
  from assms have "n < 64 \<and> byte_nat (b64_char n) = byte_nat c"
    by (auto simp: b64_value_def b64_char_def Let_def simp del: byte_nat_inject split: if_splits)
  then show ?thesis by simp
qed

lemma newline_not_alphabet: "b64_value c = Some v \<Longrightarrow> \<not> newline c"
  by (auto simp: b64_value_def newline_def Let_def)

lemma b64_values_encode:
  "\<forall>v \<in> set vs. v < 64 \<Longrightarrow> b64_values (map b64_char vs) = Some vs"
  by (induction vs) (auto simp: b64_char_value)

lemma b64_values_decode:
  "b64_values s = Some vs \<Longrightarrow> map b64_char vs = s \<and> (\<forall>v \<in> set vs. v < 64)"
  by (induction s arbitrary: vs) (auto split: option.splits dest: b64_value_char)

lemma b64_values_newline: "b64_values s = Some vs \<Longrightarrow> filter (\<lambda>c. \<not> newline c) s = s"
  by (induction s arbitrary: vs) (auto split: option.splits dest: newline_not_alphabet)

subsection \<open>Grouping and ungrouping\<close>

lemma unsextets_sextets: "\<forall>n \<in> set ns. n < 256 \<Longrightarrow> unsextets (sextets ns) = Some ns"
proof (induction ns rule: sextets.induct)
  case (4 a b c r)
  have "a div 4 * 4 + (a mod 4 * 16 + b div 16) div 16 = a"
    "(a mod 4 * 16 + b div 16) mod 16 * 16 + (b mod 16 * 4 + c div 64) div 4 = b"
    "(b mod 16 * 4 + c div 64) mod 4 * 64 + c mod 64 = c"
    using 4(2) by auto
  with 4 show ?case by simp
qed auto

lemma sextets_unsextets:
  "\<forall>v \<in> set vs. v < 64 \<Longrightarrow> unsextets vs = Some ns \<Longrightarrow>
    sextets ns = vs \<and> (\<forall>n \<in> set ns. n < 256)"
proof (induction vs arbitrary: ns rule: unsextets.induct)
  case (5 x y z u r)
  from 5(3) obtain ms where ms: "unsextets r = Some ms"
    and ns: "ns = (x * 4 + y div 16) # (y mod 16 * 16 + z div 4) # (z mod 4 * 64 + u) # ms"
    by auto
  have b: "x < 64" "y < 64" "z < 64" "u < 64" using 5(2) by auto
  then have q: "y div 16 < 4" "z div 4 < 16" "y mod 16 < 16" "z mod 4 < 4" by auto
  from b q have "(x * 4 + y div 16) div 4 = x"
    "(x * 4 + y div 16) mod 4 * 16 + (y mod 16 * 16 + z div 4) div 16 = y"
    "(y mod 16 * 16 + z div 4) mod 16 * 4 + (z mod 4 * 64 + u) div 64 = z"
    "(z mod 4 * 64 + u) mod 64 = u"
    "x * 4 + y div 16 < 256" "y mod 16 * 16 + z div 4 < 256" "z mod 4 * 64 + u < 256"
    by simp_all
  with 5(1) 5(2) ms ns show ?case by simp
next
  case (3 x y)
  then have "x < 64" "y < 64" "y mod 16 = 0" "ns = [x * 4 + y div 16]" by (auto split: if_splits)
  moreover from this have "y div 16 < 4" "y div 16 * 16 = y" by auto
  ultimately show ?case by simp
next
  case (4 x y z)
  then have "x < 64" "y < 64" "z < 64" "z mod 4 = 0"
    "ns = [x * 4 + y div 16, y mod 16 * 16 + z div 4]" by (auto split: if_splits)
  moreover from this have "y div 16 < 4" "y mod 16 < 16" "z div 4 < 16" "z div 4 * 4 = z" by auto
  ultimately show ?case by simp
qed auto

subsection \<open>Round trips\<close>

lemma sextets_bytes_less: "\<forall>v \<in> set (sextets (map byte_nat b)). v < 64"
  by (rule sextets_less) simp

lemma b64_decode_encode [simp]: "b64_decode (b64_encode b) = Some b"
proof -
  have "b64_values (b64_encode b) = Some (sextets (map byte_nat b))"
    unfolding b64_encode_def by (rule b64_values_encode [OF sextets_bytes_less])
  then show ?thesis
    by (simp add: b64_decode_def b64_values_newline unsextets_sextets comp_def)
qed

lemma b64_encode_decode:
  assumes "b64_decode s = Some b"
  shows "b64_encode b = filter (\<lambda>c. \<not> newline c) s"
proof -
  let ?t = "filter (\<lambda>c. \<not> newline c) s"
  from assms obtain vs ns where vs: "b64_values ?t = Some vs" and ns: "unsextets vs = Some ns"
    and b: "b = map nat_byte ns"
    by (auto simp: b64_decode_def split: option.splits)
  from b64_values_decode [OF vs] have t: "map b64_char vs = ?t"
    and lt: "\<forall>v \<in> set vs. v < 64" by auto
  from sextets_unsextets [OF lt ns] have s: "sextets ns = vs" and "\<forall>n \<in> set ns. n < 256" by auto
  then have "map byte_nat b = ns" using b by (simp add: map_idI)
  with s t show ?thesis by (simp add: b64_encode_def)
qed

lemma length_sextets: "length (sextets ns) = (4 * length ns + 2) div 3"
  by (induction ns rule: sextets.induct) auto

lemma length_b64_encode: "length (b64_encode b) = (4 * length b + 2) div 3"
  by (simp add: b64_encode_def length_sextets)

end
