(* ===== verification/Passkey_Domain.thy ===== *)
theory Passkey_Domain
  imports Go_Base64
begin

section \<open>Domain types and rules: passkeys/ceremony.go, passkeys/application.go\<close>

text \<open>
  The error values, ceremony kinds, ceremonies, credentials and applications, with the rules on
  them that need neither the database nor the WebAuthn library. A result of type \<open>err option\<close>
  is Go's \<open>error\<close>, with \<^const>\<open>None\<close> for \<open>nil\<close>. SHA-256 is the parameter \<open>sha\<close> of the definitions
  that hash: what is proved here holds for every function in its place.
\<close>

subsection \<open>Errors\<close>

text \<open>
  \<open>Code\<close> is a \<open>passkeys.Error\<close>, \<open>Diagnostic\<close> a \<open>*DiagnosticError\<close>, \<open>Wrapped\<close> the result of
  \<open>fmt.Errorf("text: %w", err)\<close>, \<open>Plain\<close> any other error (a driver, codec or library error), and
  \<open>Panic\<close> a run-time panic, which no \<open>errors.Is\<close> or \<open>errors.As\<close> matches.
\<close>

datatype err =
    Code string
  | Diagnostic string "err option"
  | Wrapped string err
  | Plain string
  | Panic string

fun err_text :: "err \<Rightarrow> string" where
  "err_text (Code c) = c"
| "err_text (Diagnostic c _) = c"
| "err_text (Wrapped t e) = t @ '': '' @ err_text e"
| "err_text (Plain t) = t"
| "err_text (Panic t) = t"

fun unwrap :: "err \<Rightarrow> err option" where
  "unwrap (Diagnostic c _) = Some (Code c)"
| "unwrap (Wrapped _ e) = Some e"
| "unwrap _ = None"

fun error_is :: "err \<Rightarrow> string \<Rightarrow> bool" where
  "error_is (Code c) target = (c = target)"
| "error_is (Diagnostic c _) target = error_is (Code c) target"
| "error_is (Wrapped _ e) target = error_is e target"
| "error_is _ target = False"

fun as_code :: "err \<Rightarrow> string option" where
  "as_code (Code c) = Some c"
| "as_code (Diagnostic c _) = as_code (Code c)"
| "as_code (Wrapped _ e) = as_code e"
| "as_code _ = None"

fun as_diagnostic :: "err \<Rightarrow> (string \<times> err option) option" where
  "as_diagnostic (Diagnostic c cause) = Some (c, cause)"
| "as_diagnostic (Wrapped _ e) = as_diagnostic e"
| "as_diagnostic _ = None"

lemma error_is_as_code: "error_is e t \<longleftrightarrow> as_code e = Some t"
  by (induction e t rule: error_is.induct) auto

definition InvalidRequest :: string where [names]: "InvalidRequest = ''invalid_request''"
definition Forbidden :: string where [names]: "Forbidden = ''forbidden''"
definition ApplicationNotFound :: string where
  [names]: "ApplicationNotFound = ''application_not_found''"
definition CredentialNotFound :: string where
  [names]: "CredentialNotFound = ''credential_not_found''"
definition Conflict :: string where [names]: "Conflict = ''conflict''"
definition InternalError :: string where [names]: "InternalError = ''internal_error''"

subsection \<open>Ceremony kinds\<close>

type_synonym kind = string

definition Registration :: kind where [names]: "Registration = ''registration''"
definition Authentication :: kind where [names]: "Authentication = ''authentication''"

definition CeremonyTTL :: time where
  "CeremonyTTL = seconds (5 * 60)"

definition kind_valid :: "kind \<Rightarrow> bool" where
  "kind_valid k \<longleftrightarrow> k = Registration \<or> k = Authentication"

definition kind_not_found :: "kind \<Rightarrow> string" where
  "kind_not_found k = k @ ''_not_found''"

definition kind_expired :: "kind \<Rightarrow> string" where
  "kind_expired k = k @ ''_expired''"

definition kind_invalid :: "kind \<Rightarrow> string" where
  "kind_invalid k = (if k = Registration then ''registration_invalid'' else ''authentication_failed'')"

lemma kinds_differ [simp]: "Registration \<noteq> Authentication" "Authentication \<noteq> Registration"
  by (simp_all add: names)

lemma kind_valid_simps [simp]: "kind_valid Registration" "kind_valid Authentication"
  by (simp_all add: kind_valid_def)

lemma CeremonyTTL_pos: "0 < CeremonyTTL"
  by (simp add: CeremonyTTL_def seconds_def)

text \<open>The code an expired ceremony yields is never the one a failed verification yields.\<close>

lemma expired_not_invalid: "kind_expired k \<noteq> kind_invalid k"
proof (cases "k = Registration")
  case False
  have "last (kind_expired k) = CHR ''d'' \<and> kind_expired k ! (length (kind_expired k) - 2) = CHR ''e''"
    "kind_expired k ! (length (kind_expired k) - 3) = CHR ''r''"
    by (simp_all add: kind_expired_def nth_append)
  then show ?thesis using False by (auto simp: kind_invalid_def)
qed (simp add: kind_expired_def kind_invalid_def names)

subsection \<open>Ceremonies and credentials\<close>

record ceremony =
  cer_id :: string
  cer_application :: string
  cer_subject :: string
  cer_rpid :: string
  cer_token_hash :: bytes
  cer_webauthn :: bytes
  cer_state :: string
  cer_created_at :: time
  cer_expires_at :: time

definition pending :: string where [names]: "pending = ''pending''"
definition succeeded :: string where [names]: "succeeded = ''succeeded''"
definition failed :: string where [names]: "failed = ''failed''"
definition expired :: string where [names]: "expired = ''expired''"

definition ceremony_check :: "'a ceremony_scheme \<Rightarrow> kind \<Rightarrow> time \<Rightarrow> err option" where
  "ceremony_check c k now =
     (if cer_state c \<noteq> pending then Some (Code Conflict)
      else if \<not> now < cer_expires_at c then Some (Code (kind_expired k))
      else None)"

record credential =
  cred_id :: string
  cred_application :: string
  cred_subject :: string
  cred_rpid :: string
  cred_webauthn_id :: bytes
  cred_public_key :: bytes
  cred_algorithm :: int
  cred_sign_count :: "32 word"
  cred_transports :: "string list"
  cred_aaguid :: bytes
  cred_backup_eligible :: bool
  cred_backup_state :: bool
  cred_webauthn :: bytes
  cred_created_at :: time
  cred_used_at :: "time option"

record start_result =
  sr_token :: string
  sr_options :: bytes
  sr_expires_at :: time

record finish_result =
  fr_application :: string
  fr_subject :: string
  fr_credential :: string

subsection \<open>Applications\<close>

record application =
  app_code :: string
  app_name :: string
  app_rpid :: string
  app_origins :: "string list"
  app_clients :: "string list"

definition application_code_char :: "char \<Rightarrow> bool" where
  "application_code_char c \<longleftrightarrow>
     (let n = byte_nat c in
      65 \<le> n \<and> n \<le> 90 \<or> 97 \<le> n \<and> n \<le> 122 \<or> 48 \<le> n \<and> n \<le> 57
      \<or> c = CHR ''.'' \<or> c = CHR ''_'' \<or> c = CHR ''-'')"

definition valid_application_code :: "string \<Rightarrow> bool" where
  "valid_application_code s \<longleftrightarrow>
     1 \<le> length s \<and> length s \<le> 64 \<and> list_all application_code_char s"

definition nul :: char where
  "nul = nat_byte 0"

definition valid_subject :: "string \<Rightarrow> bool" where
  "valid_subject s \<longleftrightarrow>
     length s > 0 \<and> length s \<le> 256 \<and> utf8_valid s \<and> \<not> List.member s nul"

definition user_handle :: "(bytes \<Rightarrow> bytes) \<Rightarrow> string \<Rightarrow> string \<Rightarrow> bytes" where
  "user_handle sha application subject = sha (application @ [nul] @ subject)"

text \<open>\<open>NewToken\<close> encodes the 32 random bytes \<open>rand.Read\<close> filled its buffer with.\<close>

definition new_token :: "bytes \<Rightarrow> string" where
  "new_token b = b64_encode b"

definition token_hash :: "(bytes \<Rightarrow> bytes) \<Rightarrow> string \<Rightarrow> err + bytes" where
  "token_hash sha token =
     (case b64_decode token of
        None \<Rightarrow> Inl (Code InvalidRequest)
      | Some b \<Rightarrow> if length b \<noteq> 32 then Inl (Code InvalidRequest) else Inr (sha token))"

fun authorize_loop :: "string list \<Rightarrow> string \<Rightarrow> err option" where
  "authorize_loop [] fingerprint = Some (Code Forbidden)"
| "authorize_loop (f # fs) fingerprint =
     (if f = fingerprint \<and> f \<noteq> '''' then None else authorize_loop fs fingerprint)"

definition app_authorize :: "application \<Rightarrow> string \<Rightarrow> err option" where
  "app_authorize a fingerprint = authorize_loop (app_clients a) fingerprint"

lemma authorize_loop_None:
  "authorize_loop fs fp = None \<longleftrightarrow> fp \<in> set fs \<and> fp \<noteq> ''''"
  by (induction fs) auto

lemma authorize_loop_Some: "authorize_loop fs fp = Some e \<Longrightarrow> e = Code Forbidden"
  by (induction fs) (auto split: if_splits)

lemma app_authorize_None:
  "app_authorize a fp = None \<longleftrightarrow> fp \<in> set (app_clients a) \<and> fp \<noteq> ''''"
  by (simp add: app_authorize_def authorize_loop_None)

lemma nul_not_code_char: "\<not> application_code_char nul"
  by (simp add: application_code_char_def nul_def Let_def) code_simp

lemma nul_not_in_code: "valid_application_code s \<Longrightarrow> nul \<notin> set s"
  by (auto simp: valid_application_code_def list_all_iff nul_not_code_char)

lemma token_hash_new: "length b = 32 \<Longrightarrow> token_hash sha (new_token b) = Inr (sha (new_token b))"
  by (simp add: token_hash_def new_token_def)

lemma token_hash_Inr:
  "token_hash sha t = Inr h \<Longrightarrow> h = sha t \<and> (\<exists>b. length b = 32 \<and> b64_decode t = Some b)"
  by (auto simp: token_hash_def split: option.splits if_splits)

lemma token_hash_Inl: "token_hash sha t = Inl e \<Longrightarrow> e = Code InvalidRequest"
  by (auto simp: token_hash_def split: option.splits if_splits)

end
