(* ===== verification/Schema.thy ===== *)
theory Schema
  imports Passkey_Domain
begin

section \<open>The database: assets/migrations/001\_core.sql and the statements on it\<close>

text \<open>
  The four tables as lists of rows, and one function per SQL statement of the repository with the
  statement's documented meaning on them: the constraints of the migration (primary keys, unique
  indexes, CHECKs) are evaluated where PostgreSQL evaluates them, a violation is an error and
  leaves the tables as they were, and statements the code asks for \<open>RowsAffected\<close> return the count.
  The \<open>authentication\<close> table is \<open>LIKE registration\<close> with one more column, \<open>row_credential\<close>; rows of
  \<open>registration\<close> keep it at \<^const>\<open>None\<close>. A \<open>jsonb\<close> value is the list of the object's members.
  The table \<open>migration\<close> of \<open>app/database.go\<close> is there or not; its rows are versions with checksums.
\<close>

record ceremony_row = ceremony +
  row_credential :: "string option"

record event =
  ev_id :: string
  ev_application :: string
  ev_subject :: string
  ev_credential :: "string option"
  ev_kind :: string
  ev_result :: string
  ev_error :: "string option"
  ev_details :: "(string \<times> string) list"
  ev_occurred_at :: time

record db =
  db_credential :: "credential list"
  db_registration :: "ceremony_row list"
  db_authentication :: "ceremony_row list"
  db_history :: "event list"
  db_migration :: "(int \<times> string) list option"

definition empty_db :: db where
  "empty_db = \<lparr>db_credential = [], db_registration = [], db_authentication = [], db_history = [],
     db_migration = None\<rparr>"

subsection \<open>Constraints\<close>

definition credential_check :: "credential \<Rightarrow> bool" where
  "credential_check c \<longleftrightarrow>
     cred_algorithm c \<in> {-8, -7, -257}
     \<and> 0 \<le> uint (cred_sign_count c) \<and> uint (cred_sign_count c) \<le> 4294967295
     \<and> (\<not> cred_backup_state c \<or> cred_backup_eligible c)"

definition ceremony_states :: "string list" where
  "ceremony_states = [pending, succeeded, failed, expired]"

definition ceremony_row_check :: "ceremony_row \<Rightarrow> bool" where
  "ceremony_row_check r \<longleftrightarrow>
     length (cer_token_hash r) = 32 \<and> cer_state r \<in> set ceremony_states
     \<and> cer_created_at r < cer_expires_at r"

definition rp_key :: "credential \<Rightarrow> string \<times> bytes" where
  "rp_key c = (cred_rpid c, cred_webauthn_id c)"

definition violation :: "string \<Rightarrow> err" where
  "violation c = Plain (''violates constraint '' @ c)"

subsection \<open>Ceremony tables\<close>

definition table_rows :: "string \<Rightarrow> db \<Rightarrow> ceremony_row list" where
  "table_rows t d = (if t = Registration then db_registration d else db_authentication d)"

definition set_table :: "string \<Rightarrow> ceremony_row list \<Rightarrow> db \<Rightarrow> db" where
  "set_table t rs d =
     (if t = Registration then d\<lparr>db_registration := rs\<rparr> else d\<lparr>db_authentication := rs\<rparr>)"

definition insert_ceremony :: "string \<Rightarrow> ceremony \<Rightarrow> db \<Rightarrow> err + unit \<times> db" where
  "insert_ceremony t c d =
     (let r = ceremony.extend c (ceremony_row.fields None); rs = table_rows t d in
      if \<not> ceremony_row_check r then Inl (violation ''check'')
      else if cer_id c \<in> cer_id ` set rs then Inl (violation ''pkey'')
      else if cer_token_hash c \<in> cer_token_hash ` set rs then Inl (violation ''token_hash_key'')
      else Inr ((), set_table t (rs @ [r]) d))"

definition select_by_token :: "string \<Rightarrow> bytes \<Rightarrow> db \<Rightarrow> ceremony option" where
  "select_by_token t h d =
     map_option ceremony.truncate (find (\<lambda>r. cer_token_hash r = h) (table_rows t d))"

definition update_state :: "string \<Rightarrow> string \<Rightarrow> string \<Rightarrow> db \<Rightarrow> err + unit \<times> db" where
  "update_state t st i d =
     (if st \<notin> set ceremony_states \<and> i \<in> cer_id ` set (table_rows t d)
      then Inl (violation ''state_check'')
      else Inr ((), set_table t
        (map (\<lambda>r. if cer_id r = i then r\<lparr>cer_state := st\<rparr> else r) (table_rows t d)) d))"

definition update_auth_credential :: "string \<Rightarrow> string \<Rightarrow> db \<Rightarrow> err + unit \<times> db" where
  "update_auth_credential cid i d =
     Inr ((), d\<lparr>db_authentication :=
       map (\<lambda>r. if cer_id r = i then r\<lparr>row_credential := Some cid\<rparr> else r) (db_authentication d)\<rparr>)"

subsection \<open>Credentials\<close>

definition select_credentials :: "string \<Rightarrow> string \<Rightarrow> db \<Rightarrow> credential list" where
  "select_credentials application subject d =
     sort_key cred_id
       (filter (\<lambda>c. cred_application c = application \<and> cred_subject c = subject)
         (db_credential d))"

definition insert_credential :: "credential \<Rightarrow> db \<Rightarrow> err + nat \<times> db" where
  "insert_credential c d =
     (if \<not> credential_check c then Inl (violation ''credential_check'')
      else if rp_key c \<in> rp_key ` set (db_credential d) then Inr (0, d)
      else if cred_id c \<in> cred_id ` set (db_credential d) then Inl (violation ''credential_pkey'')
      else Inr (1, d\<lparr>db_credential := db_credential d @ [c]\<rparr>))"

definition scoped_to :: "string \<Rightarrow> string \<Rightarrow> string \<Rightarrow> string \<Rightarrow> credential \<Rightarrow> bool" where
  "scoped_to i application subject rpid c \<longleftrightarrow>
     cred_id c = i \<and> cred_application c = application \<and> cred_subject c = subject
     \<and> cred_rpid c = rpid"

definition touch :: "32 word \<Rightarrow> bool \<Rightarrow> bytes \<Rightarrow> time \<Rightarrow> credential \<Rightarrow> credential" where
  "touch sc bs wa now c =
     c\<lparr>cred_sign_count := sc, cred_backup_state := bs, cred_webauthn := wa, cred_used_at := Some now\<rparr>"

definition update_credential ::
  "32 word \<Rightarrow> bool \<Rightarrow> bytes \<Rightarrow> time \<Rightarrow> string \<Rightarrow> string \<Rightarrow> string \<Rightarrow> string \<Rightarrow> db \<Rightarrow> err + nat \<times> db"
where
  "update_credential sc bs wa now i application subject rpid d =
     (let hit = scoped_to i application subject rpid;
          rows = map (\<lambda>c. if hit c then touch sc bs wa now c else c) (db_credential d) in
      if list_all credential_check (filter hit rows)
      then Inr (length (filter hit (db_credential d)), d\<lparr>db_credential := rows\<rparr>)
      else Inl (violation ''credential_check''))"

definition delete_credential :: "string \<Rightarrow> string \<Rightarrow> string \<Rightarrow> db \<Rightarrow> err + nat \<times> db" where
  "delete_credential i application subject d =
     (let hit = (\<lambda>c. cred_id c = i \<and> cred_application c = application \<and> cred_subject c = subject) in
      Inr (length (filter hit (db_credential d)),
        d\<lparr>db_credential := filter (\<lambda>c. \<not> hit c) (db_credential d)\<rparr>))"

subsection \<open>History\<close>

definition insert_history :: "event \<Rightarrow> db \<Rightarrow> err + unit \<times> db" where
  "insert_history e d =
     (if ev_id e \<in> ev_id ` set (db_history d) then Inl (violation ''history_pkey'')
      else Inr ((), d\<lparr>db_history := db_history d @ [e]\<rparr>))"

subsection \<open>Well-formed databases\<close>

text \<open>Every constraint of the schema, as an invariant of the tables.\<close>

definition wf_ceremonies :: "ceremony_row list \<Rightarrow> bool" where
  "wf_ceremonies rs \<longleftrightarrow>
     distinct (map cer_id rs) \<and> distinct (map cer_token_hash rs) \<and> list_all ceremony_row_check rs"

definition wf_credentials :: "credential list \<Rightarrow> bool" where
  "wf_credentials cs \<longleftrightarrow>
     distinct (map cred_id cs) \<and> distinct (map rp_key cs) \<and> list_all credential_check cs"

definition wf_db :: "db \<Rightarrow> bool" where
  "wf_db d \<longleftrightarrow>
     wf_credentials (db_credential d) \<and> wf_ceremonies (db_registration d)
     \<and> wf_ceremonies (db_authentication d) \<and> distinct (map ev_id (db_history d))"

lemma wf_empty_db: "wf_db empty_db"
  by (simp add: wf_db_def empty_db_def wf_credentials_def wf_ceremonies_def)

lemma wf_migration [simp]: "wf_db (d\<lparr>db_migration := m\<rparr>) = wf_db d"
  by (simp add: wf_db_def)

lemma wf_db_table: "wf_db d \<Longrightarrow> wf_ceremonies (table_rows t d)"
  by (simp add: wf_db_def table_rows_def)

lemma wf_db_set_table: "wf_db d \<Longrightarrow> wf_ceremonies rs \<Longrightarrow> wf_db (set_table t rs d)"
  by (simp add: wf_db_def set_table_def)

lemma table_rows_set_table [simp]:
  "table_rows t (set_table t rs d) = rs"
  "db_credential (set_table t rs d) = db_credential d"
  "db_history (set_table t rs d) = db_history d"
  by (simp_all add: table_rows_def set_table_def)

lemma table_rows_updates [simp]:
  "table_rows t (d\<lparr>db_credential := cs\<rparr>) = table_rows t d"
  "table_rows t (d\<lparr>db_history := es\<rparr>) = table_rows t d"
  by (simp_all add: table_rows_def)

lemma table_rows_other: "kind_valid t \<Longrightarrow> kind_valid u \<Longrightarrow> t \<noteq> u \<Longrightarrow>
    table_rows u (set_table t rs d) = table_rows u d"
  by (auto simp: table_rows_def set_table_def kind_valid_def)

subsection \<open>Every statement keeps the constraints\<close>

named_theorems wf_statement \<open>statements keep \<open>wf_db\<close>\<close>

lemma insert_ceremony_InrD:
  assumes "insert_ceremony t c d = Inr (u, d')"
  shows "d' = set_table t (table_rows t d @ [ceremony.extend c (ceremony_row.fields None)]) d
    \<and> ceremony_row_check (ceremony.extend c (ceremony_row.fields None))
    \<and> cer_id c \<notin> cer_id ` set (table_rows t d)
    \<and> cer_token_hash c \<notin> cer_token_hash ` set (table_rows t d)"
  using assms by (auto simp: insert_ceremony_def Let_def split: if_splits)

lemma ceremony_extend_simps [simp]:
  "cer_id (ceremony.extend c m) = cer_id c"
  "cer_token_hash (ceremony.extend c m) = cer_token_hash c"
  "cer_state (ceremony.extend c m) = cer_state c"
  "cer_application (ceremony.extend c m) = cer_application c"
  "cer_subject (ceremony.extend c m) = cer_subject c"
  "cer_rpid (ceremony.extend c m) = cer_rpid c"
  "cer_created_at (ceremony.extend c m) = cer_created_at c"
  "cer_expires_at (ceremony.extend c m) = cer_expires_at c"
  "cer_webauthn (ceremony.extend c m) = cer_webauthn c"
  by (simp_all add: ceremony.extend_def)

lemma ceremony_truncate_simps [simp]:
  "cer_id (ceremony.truncate r) = cer_id r"
  "cer_token_hash (ceremony.truncate r) = cer_token_hash r"
  "cer_state (ceremony.truncate r) = cer_state r"
  "cer_application (ceremony.truncate r) = cer_application r"
  "cer_subject (ceremony.truncate r) = cer_subject r"
  "cer_rpid (ceremony.truncate r) = cer_rpid r"
  "cer_created_at (ceremony.truncate r) = cer_created_at r"
  "cer_expires_at (ceremony.truncate r) = cer_expires_at r"
  "cer_webauthn (ceremony.truncate r) = cer_webauthn r"
  by (simp_all add: ceremony.truncate_def)

lemma ceremony_truncate_extend [simp]: "ceremony.truncate (ceremony.extend c m) = c"
  by (simp add: ceremony.truncate_def ceremony.extend_def)

lemma insert_ceremony_wf [wf_statement]:
  assumes "insert_ceremony t c d = Inr (u, d')" and "wf_db d"
  shows "wf_db d'"
proof -
  let ?r = "ceremony.extend c (ceremony_row.fields None)"
  from assms(1) have d': "d' = set_table t (table_rows t d @ [?r]) d"
    and fresh: "ceremony_row_check ?r" "cer_id c \<notin> cer_id ` set (table_rows t d)"
      "cer_token_hash c \<notin> cer_token_hash ` set (table_rows t d)"
    by (auto dest: insert_ceremony_InrD)
  from wf_db_table [OF assms(2), of t] fresh have "wf_ceremonies (table_rows t d @ [?r])"
    by (auto simp: wf_ceremonies_def)
  with assms(2) d' show ?thesis by (simp add: wf_db_set_table)
qed

lemma update_state_InrD:
  assumes "update_state t st i d = Inr (u, d')"
  shows "d' = set_table t
      (map (\<lambda>r. if cer_id r = i then r\<lparr>cer_state := st\<rparr> else r) (table_rows t d)) d
    \<and> (st \<in> set ceremony_states \<or> i \<notin> cer_id ` set (table_rows t d))"
  using assms by (auto simp: update_state_def split: if_splits)

lemma update_state_wf [wf_statement]:
  assumes "update_state t st i d = Inr (u, d')" and "wf_db d"
  shows "wf_db d'"
proof -
  let ?f = "\<lambda>r. if cer_id r = i then r\<lparr>cer_state := st\<rparr> else r"
  from update_state_InrD [OF assms(1)]
  have d': "d' = set_table t (map ?f (table_rows t d)) d"
    and ok: "st \<in> set ceremony_states \<or> i \<notin> cer_id ` set (table_rows t d)" by auto
  have "map cer_id (map ?f rs) = map cer_id rs" "map cer_token_hash (map ?f rs) = map cer_token_hash rs"
    for rs :: "ceremony_row list"
    by (rule map_key_update, simp)+
  with wf_db_table [OF assms(2), of t] ok have "wf_ceremonies (map ?f (table_rows t d))"
    by (auto simp: wf_ceremonies_def list_all_iff ceremony_row_check_def simp del: map_map)
  with assms(2) d' show ?thesis by (simp add: wf_db_set_table)
qed

lemma update_auth_credential_wf [wf_statement]:
  assumes "update_auth_credential cid i d = Inr (u, d')" and "wf_db d"
  shows "wf_db d'"
proof -
  let ?f = "\<lambda>r. if cer_id r = i then r\<lparr>row_credential := Some cid\<rparr> else r"
  have "map cer_id (map ?f rs) = map cer_id rs" "map cer_token_hash (map ?f rs) = map cer_token_hash rs"
    for rs :: "ceremony_row list"
    by (rule map_key_update, simp)+
  with assms show ?thesis
    by (auto simp: update_auth_credential_def wf_db_def wf_ceremonies_def list_all_iff
        ceremony_row_check_def simp del: map_map)
qed

lemma insert_credential_wf [wf_statement]:
  assumes "insert_credential c d = Inr (n, d')" and "wf_db d"
  shows "wf_db d'"
  using assms by (auto simp: insert_credential_def wf_db_def wf_credentials_def split: if_splits)

lemma update_credential_wf [wf_statement]:
  assumes "update_credential sc bs wa now i a s rp d = Inr (n, d')" and "wf_db d"
  shows "wf_db d'"
proof -
  let ?hit = "scoped_to i a s rp" and ?cs = "db_credential d"
  let ?f = "\<lambda>c. if ?hit c then touch sc bs wa now c else c"
  from assms(1) have d': "d' = d\<lparr>db_credential := map ?f ?cs\<rparr>"
    and ok: "list_all credential_check (filter ?hit (map ?f ?cs))"
    by (auto simp: update_credential_def Let_def split: if_splits)
  have keys: "map cred_id (map ?f ?cs) = map cred_id ?cs" "map rp_key (map ?f ?cs) = map rp_key ?cs"
    by (rule map_key_update, simp add: touch_def rp_key_def)+
  have hit: "?hit (touch sc bs wa now c) = ?hit c" for c by (simp add: touch_def scoped_to_def)
  from ok have "\<forall>c \<in> set ?cs. ?hit c \<longrightarrow> credential_check (touch sc bs wa now c)"
    by (auto simp: list_all_iff hit)
  with assms(2) keys have "wf_credentials (map ?f ?cs)"
    by (auto simp: wf_db_def wf_credentials_def list_all_iff simp del: map_map)
  with assms(2) d' show ?thesis by (simp add: wf_db_def)
qed

lemma delete_credential_wf [wf_statement]:
  assumes "delete_credential i a s d = Inr (n, d')" and "wf_db d"
  shows "wf_db d'"
  using assms
  by (auto simp: delete_credential_def wf_db_def wf_credentials_def list_all_iff
      distinct_map_filter_key)

lemma insert_history_wf [wf_statement]:
  assumes "insert_history e d = Inr (u, d')" and "wf_db d"
  shows "wf_db d'"
  using assms by (auto simp: insert_history_def wf_db_def split: if_splits)

subsection \<open>What each statement changes\<close>

lemma insert_history_InrD:
  "insert_history e d = Inr (u, d') \<Longrightarrow>
    d' = d\<lparr>db_history := db_history d @ [e]\<rparr> \<and> ev_id e \<notin> ev_id ` set (db_history d)"
  by (auto simp: insert_history_def split: if_splits)

lemma insert_credential_InrD:
  "insert_credential c d = Inr (n, d') \<Longrightarrow>
    (n = 0 \<and> d' = d \<and> rp_key c \<in> rp_key ` set (db_credential d))
    \<or> (n = 1 \<and> d' = d\<lparr>db_credential := db_credential d @ [c]\<rparr> \<and> credential_check c
        \<and> rp_key c \<notin> rp_key ` set (db_credential d) \<and> cred_id c \<notin> cred_id ` set (db_credential d))"
  by (auto simp: insert_credential_def split: if_splits)

lemma update_credential_InrD:
  "update_credential sc bs wa now i a s rp d = Inr (n, d') \<Longrightarrow>
    d' = d\<lparr>db_credential :=
      map (\<lambda>c. if scoped_to i a s rp c then touch sc bs wa now c else c) (db_credential d)\<rparr>
    \<and> n = length (filter (scoped_to i a s rp) (db_credential d))"
  by (auto simp: update_credential_def Let_def split: if_splits)

lemma update_credential_count:
  assumes "update_credential sc bs wa now i a s rp d = Inr (n, d')" and "wf_db d"
  shows "n \<le> 1"
proof -
  have "filter (scoped_to i a s rp) (db_credential d)
      = filter (\<lambda>c. cred_id c = i \<and> cred_application c = a \<and> cred_subject c = s \<and> cred_rpid c = rp)
          (db_credential d)"
    by (rule filter_cong) (auto simp: scoped_to_def)
  moreover have "distinct (map cred_id (db_credential d))"
    using assms(2) by (simp add: wf_db_def wf_credentials_def)
  ultimately show ?thesis
    using update_credential_InrD [OF assms(1)]
      length_filter_key_le_1 [of cred_id "db_credential d" i
        "\<lambda>c. cred_application c = a \<and> cred_subject c = s \<and> cred_rpid c = rp"]
    by simp
qed

lemma update_credential_missed:
  assumes "update_credential sc bs wa now i a s rp d = Inr (n, d')" and "wf_db d" and "n \<noteq> 1"
  shows "d' = d"
proof -
  from update_credential_count [OF assms(1,2)] assms(3) have "n = 0" by simp
  from update_credential_InrD [OF assms(1)] this
  have "\<forall>c \<in> set (db_credential d). \<not> scoped_to i a s rp c"
    and d': "d' = d\<lparr>db_credential :=
      map (\<lambda>c. if scoped_to i a s rp c then touch sc bs wa now c else c) (db_credential d)\<rparr>"
    by (auto simp: filter_empty_conv)
  then have "map (\<lambda>c. if scoped_to i a s rp c then touch sc bs wa now c else c) (db_credential d)
      = db_credential d" by (simp add: map_idI)
  with d' show ?thesis by simp
qed

lemma select_by_token_Some:
  assumes "select_by_token t h d = Some c"
  obtains r where "r \<in> set (table_rows t d)" "cer_token_hash r = h" "c = ceremony.truncate r"
  using assms by (auto simp: select_by_token_def dest: find_SomeD)

lemma select_by_token_unique:
  assumes "wf_db d" and "r \<in> set (table_rows t d)"
  shows "select_by_token t (cer_token_hash r) d = Some (ceremony.truncate r)"
  using find_unique_key [of cer_token_hash "table_rows t d" r] wf_db_table [OF assms(1), of t] assms(2)
  by (simp add: select_by_token_def wf_ceremonies_def)

lemma select_credentials_set:
  "set (select_credentials a s d)
    = {c \<in> set (db_credential d). cred_application c = a \<and> cred_subject c = s}"
  by (auto simp: select_credentials_def)

lemma select_credentials_sorted: "sorted (map cred_id (select_credentials a s d))"
  by (simp add: select_credentials_def)

end
