(* ===== verification/Effects.thy ===== *)
theory Effects
  imports Schema Complex_Main
begin

section \<open>Effects: the shared database, clocks, randomness and failures\<close>

text \<open>
  The operations run against a \<open>world\<close>: the committed (inside a transaction: the working)
  database, how many database calls, UUIDs, random reads and clock reads have been made, the
  advisory locks the current transaction and the sessions of the pool hold, and the sign-in limiter of the administration UI
  (the fields \<open>tokens\<close> and \<open>refill\<close> of its handler). What those calls return is the environment \<open>env\<close>, an argument of every operation: for the n-th
  database call whether it fails, the n-th UUID, the n-th buffer \<open>rand.Read\<close> fills, the n-th
  time. Nothing is assumed about an environment, so a theorem about all of them covers every
  pattern of infrastructure failures. A call that fails with \<open>Lost\<close> reports an error although
  the server carried it out, which matters for a commit.

  An effectful operation is a function from the world to a result or error and the new world;
  \<open>and_then\<close> stops at the first error, as the \<open>if err != nil\<close> returns of the code do.
\<close>

datatype fault = Failed string | Lost string

fun fault_text :: "fault \<Rightarrow> string" where
  "fault_text (Failed t) = t"
| "fault_text (Lost t) = t"

record env =
  fault :: "nat \<Rightarrow> fault option"
  uuid_v7 :: "nat \<Rightarrow> string"
  rand_bytes :: "nat \<Rightarrow> bytes"
  clock :: "nat \<Rightarrow> time"
  sha256 :: "bytes \<Rightarrow> bytes"

record limiter =
  lim_tokens :: rat
  lim_refill :: time

record world =
  store :: db
  calls :: nat
  uuids :: nat
  rands :: nat
  ticks :: nat
  locks :: "int list"
  sessions :: "int list"
  limiter :: limiter

type_synonym 'a eff = "world \<Rightarrow> (err + 'a) \<times> world"

definition ret :: "'a \<Rightarrow> 'a eff" where
  "ret x w = (Inr x, w)"

definition fail :: "err \<Rightarrow> 'a eff" where
  "fail e w = (Inl e, w)"

definition and_then :: "'a eff \<Rightarrow> ('a \<Rightarrow> 'b eff) \<Rightarrow> 'b eff" where
  "and_then m f w = (case m w of (Inl e, w1) \<Rightarrow> (Inl e, w1) | (Inr x, w1) \<Rightarrow> f x w1)"

text \<open>\<open>attempt\<close> keeps an error as a value, for the code that inspects it.\<close>

definition attempt :: "'a eff \<Rightarrow> (err + 'a) eff" where
  "attempt m w = (case m w of (r, w1) \<Rightarrow> (Inr r, w1))"

text \<open>\<open>if err != nil { return fmt.Errorf("text: %w", err) }\<close>\<close>

definition wrapping :: "string \<Rightarrow> 'a eff \<Rightarrow> 'a eff" where
  "wrapping t m w = (case m w of (Inl e, w1) \<Rightarrow> (Inl (Wrapped t e), w1) | (Inr x, w1) \<Rightarrow> (Inr x, w1))"

definition guard :: "err option \<Rightarrow> unit eff" where
  "guard e = (case e of None \<Rightarrow> ret () | Some e' \<Rightarrow> fail e')"

definition of_result :: "err + 'a \<Rightarrow> 'a eff" where
  "of_result r w = (r, w)"

definition new_uuid :: "env \<Rightarrow> string eff" where
  "new_uuid E w = (Inr (uuid_v7 E (uuids w)), w\<lparr>uuids := Suc (uuids w)\<rparr>)"

definition read_random :: "env \<Rightarrow> bytes eff" where
  "read_random E w = (Inr (rand_bytes E (rands w)), w\<lparr>rands := Suc (rands w)\<rparr>)"

definition read_clock :: "env \<Rightarrow> time eff" where
  "read_clock E w = (Inr (clock E (ticks w)), w\<lparr>ticks := Suc (ticks w)\<rparr>)"

definition exec :: "env \<Rightarrow> (db \<Rightarrow> err + 'a \<times> db) \<Rightarrow> 'a eff" where
  "exec E stmt w =
     (let w1 = w\<lparr>calls := Suc (calls w)\<rparr> in
      case fault E (calls w) of
        Some f \<Rightarrow> (Inl (Plain (fault_text f)), w1)
      | None \<Rightarrow>
          (case stmt (store w) of
             Inl e \<Rightarrow> (Inl e, w1)
           | Inr (x, d) \<Rightarrow> (Inr x, w1\<lparr>store := d\<rparr>)))"

definition no_op :: "db \<Rightarrow> err + unit \<times> db" where
  "no_op d = Inr ((), d)"

definition query :: "(db \<Rightarrow> 'a) \<Rightarrow> db \<Rightarrow> err + 'a \<times> db" where
  "query f d = Inr (f d, d)"

text \<open>\<open>pg_advisory_xact_lock\<close>: held until the transaction ends.\<close>

definition hold :: "int \<Rightarrow> unit eff" where
  "hold key w = (Inr (), w\<lparr>locks := key # locks w\<rparr>)"

text \<open>
  \<open>Begin\<close>, the statements of \<open>body\<close> on the working copy, \<open>Commit\<close>, with the deferred \<open>rollback\<close>
  on every other way out. Either end releases the advisory locks.
\<close>

definition transaction :: "env \<Rightarrow> 'a eff \<Rightarrow> 'a eff" where
  "transaction E body w =
     (case exec E no_op w of
        (Inl e, w1) \<Rightarrow> (Inl e, w1)
      | (Inr _, w1) \<Rightarrow>
          (case body w1 of
             (Inl e, w2) \<Rightarrow> (Inl e, w2\<lparr>store := store w, locks := []\<rparr>)
           | (Inr x, w2) \<Rightarrow>
               (let w3 = w2\<lparr>calls := Suc (calls w2), locks := []\<rparr> in
                case fault E (calls w2) of
                  None \<Rightarrow> (Inr x, w3)
                | Some (Failed t) \<Rightarrow> (Inl (Plain t), w3\<lparr>store := store w\<rparr>)
                | Some (Lost t) \<Rightarrow> (Inl (Plain t), w3))))"

subsection \<open>Operations that leave the database alone\<close>

definition keeps_store :: "'a eff \<Rightarrow> bool" where
  "keeps_store m \<longleftrightarrow> (\<forall>w. store (snd (m w)) = store w)"

lemma keeps_storeD: "keeps_store m \<Longrightarrow> m w = (r, w') \<Longrightarrow> store w' = store w"
  by (metis keeps_store_def snd_conv)

lemma keeps_storeI: "(\<And>w r w'. m w = (r, w') \<Longrightarrow> store w' = store w) \<Longrightarrow> keeps_store m"
  by (metis keeps_store_def surjective_pairing)

lemma keeps_store_basic [frame]:
  "keeps_store (ret x)" "keeps_store (fail e)" "keeps_store (guard c)" "keeps_store (of_result r)"
  "keeps_store (new_uuid E)" "keeps_store (read_random E)" "keeps_store (read_clock E)"
  "keeps_store (hold key)"
  by (simp_all add: keeps_store_def ret_def fail_def guard_def of_result_def new_uuid_def
      read_random_def read_clock_def hold_def split: option.splits)

lemma keeps_store_and_then [frame]:
  "keeps_store m \<Longrightarrow> (\<And>x. keeps_store (f x)) \<Longrightarrow> keeps_store (and_then m f)"
  by (auto simp: keeps_store_def and_then_def split: prod.splits sum.splits) (metis snd_conv)+

lemma keeps_store_attempt [frame]: "keeps_store m \<Longrightarrow> keeps_store (attempt m)"
  by (auto simp: keeps_store_def attempt_def split: prod.splits) (metis snd_conv)

lemma keeps_store_exec [frame]:
  "(\<And>d x d'. stmt d = Inr (x, d') \<Longrightarrow> d' = d) \<Longrightarrow> keeps_store (exec E stmt)"
  by (auto simp: keeps_store_def exec_def Let_def split: option.splits sum.splits)

lemma keeps_store_query [frame]: "keeps_store (exec E (query f))" "keeps_store (exec E no_op)"
  by (auto intro!: frame simp: query_def no_op_def)

subsection \<open>Successful runs\<close>

lemma ret_Inr [success]: "ret x w = (Inr y, w') \<longleftrightarrow> y = x \<and> w' = w"
  by (auto simp: ret_def)

lemma fail_Inr [success]: "fail e w = (Inr y, w') \<longleftrightarrow> False"
  by (simp add: fail_def)

lemma guard_Inr [success]: "guard c w = (Inr y, w') \<longleftrightarrow> c = None \<and> w' = w"
  by (auto simp: guard_def ret_def fail_def split: option.splits)

lemma of_result_Inr [success]: "of_result r w = (Inr y, w') \<longleftrightarrow> r = Inr y \<and> w' = w"
  by (auto simp: of_result_def)

lemma and_then_Inr [success]:
  "and_then m f w = (Inr y, w') \<longleftrightarrow> (\<exists>x w1. m w = (Inr x, w1) \<and> f x w1 = (Inr y, w'))"
  by (auto simp: and_then_def split: prod.splits sum.splits)

lemma attempt_Inr [success]: "attempt m w = (Inr r, w') \<longleftrightarrow> m w = (r, w')"
  by (auto simp: attempt_def split: prod.splits)

lemma wrapping_Inr [success]: "wrapping t m w = (Inr r, w') \<longleftrightarrow> m w = (Inr r, w')"
  by (auto simp: wrapping_def split: prod.splits sum.splits)

lemma new_uuid_Inr [success]:
  "new_uuid E w = (Inr u, w') \<longleftrightarrow> u = uuid_v7 E (uuids w) \<and> w' = w\<lparr>uuids := Suc (uuids w)\<rparr>"
  by (auto simp: new_uuid_def)

lemma read_random_Inr [success]:
  "read_random E w = (Inr u, w') \<longleftrightarrow> u = rand_bytes E (rands w) \<and> w' = w\<lparr>rands := Suc (rands w)\<rparr>"
  by (auto simp: read_random_def)

lemma read_clock_Inr [success]:
  "read_clock E w = (Inr u, w') \<longleftrightarrow> u = clock E (ticks w) \<and> w' = w\<lparr>ticks := Suc (ticks w)\<rparr>"
  by (auto simp: read_clock_def)

lemma hold_Inr [success]:
  "hold key w = (Inr u, w') \<longleftrightarrow> w' = w\<lparr>locks := key # locks w\<rparr>"
  by (auto simp: hold_def)

lemma exec_Inr [success]:
  "exec E stmt w = (Inr x, w') \<longleftrightarrow>
     fault E (calls w) = None
     \<and> (\<exists>d. stmt (store w) = Inr (x, d) \<and> w' = w\<lparr>calls := Suc (calls w), store := d\<rparr>)"
  by (auto simp: exec_def Let_def split: option.splits sum.splits)

lemma exec_store: "exec E stmt w = (Inr x, w') \<Longrightarrow> stmt (store w) = Inr (x, store w')"
  by (auto simp: exec_Inr)

lemma transaction_cases:
  assumes "transaction E body w = (r, w')"
  obtains (rolled_back) e where "r = Inl e" "store w' = store w"
  | (committed) x w2 where "body (w\<lparr>calls := Suc (calls w)\<rparr>) = (Inr x, w2)"
      "store w' = store w2" "r = Inr x"
  | (reply_lost) x w2 t where "body (w\<lparr>calls := Suc (calls w)\<rparr>) = (Inr x, w2)"
      "store w' = store w2" "r = Inl (Plain t)"
proof -
  have no_op: "exec E no_op w = (case fault E (calls w) of
      Some f \<Rightarrow> (Inl (Plain (fault_text f)), w\<lparr>calls := Suc (calls w)\<rparr>)
    | None \<Rightarrow> (Inr (), w\<lparr>calls := Suc (calls w)\<rparr>))"
    by (simp add: exec_def no_op_def split: option.splits)
  show ?thesis
    using assms that
    by (auto simp: transaction_def no_op Let_def
        split: option.splits prod.splits sum.splits fault.splits)
qed

lemma transaction_run:
  assumes "\<And>n. fault E n = None" and "body (w\<lparr>calls := Suc (calls w)\<rparr>) = (Inr x, w2)"
  shows "transaction E body w = (Inr x, w2\<lparr>calls := Suc (calls w2), locks := []\<rparr>)"
  using assms by (simp add: transaction_def exec_def no_op_def)

subsection \<open>Runs in which no call fails\<close>

definition no_faults :: "env \<Rightarrow> bool" where
  "no_faults E \<longleftrightarrow> (\<forall>n. fault E n = None)"

lemma exec_run: "no_faults E \<Longrightarrow> stmt (store w) = Inr (x, d) \<Longrightarrow>
    exec E stmt w = (Inr x, w\<lparr>calls := Suc (calls w), store := d\<rparr>)"
  by (simp add: exec_def no_faults_def)

lemma exec_query_run: "no_faults E \<Longrightarrow>
    exec E (query f) w = (Inr (f (store w)), w\<lparr>calls := Suc (calls w)\<rparr>)"
  by (simp add: exec_run [where d = "store w"] query_def)

lemma exec_no_op_run: "no_faults E \<Longrightarrow> exec E no_op w = (Inr (), w\<lparr>calls := Suc (calls w)\<rparr>)"
  by (simp add: exec_run [where d = "store w"] no_op_def)

lemma and_then_run: "m w = (Inr x, w1) \<Longrightarrow> and_then m f w = f x w1"
  by (simp add: and_then_def)

lemma exec_read_run:
  assumes "no_faults E" and "stmt (store w) = Inr (x, store w)"
  shows "exec E stmt w = (Inr x, w\<lparr>calls := Suc (calls w)\<rparr>)"
  using exec_run [of E stmt w x "store w"] assms by simp

end
