(* ===== verification/Contracts.thy ===== *)
theory Contracts
  imports Effects
begin

section \<open>What the service is promised: passkeys.Repository and passkeys.WebAuthn\<close>

text \<open>
  The two interfaces of \<open>passkeys/service.go\<close> as records of operations, the atomic transitions of
  the database that a repository may make, and the contracts as locales. A transition couples
  the credential change, the new ceremony state and the history event: there is no transition
  that makes one without the others.
\<close>

record repository =
  repo_credentials :: "string \<Rightarrow> string \<Rightarrow> credential list eff"
  repo_start :: "kind \<Rightarrow> ceremony \<Rightarrow> unit eff"
  repo_finish :: "kind \<Rightarrow> bytes \<Rightarrow> (ceremony \<Rightarrow> err option)
    \<Rightarrow> (ceremony \<Rightarrow> credential list \<Rightarrow> credential eff) \<Rightarrow> credential eff"
  repo_delete :: "string \<Rightarrow> string \<Rightarrow> string \<Rightarrow> unit eff"

record webauthn =
  wa_begin :: "kind \<Rightarrow> application \<Rightarrow> string \<Rightarrow> string \<Rightarrow> credential list \<Rightarrow> (bytes \<times> bytes) eff"
  wa_verify :: "kind \<Rightarrow> application \<Rightarrow> ceremony \<Rightarrow> credential list \<Rightarrow> bytes \<Rightarrow> credential eff"

subsection \<open>Atomic transitions\<close>

definition start_event :: "kind \<Rightarrow> ceremony \<Rightarrow> event \<Rightarrow> bool" where
  "start_event k c e \<longleftrightarrow>
     ev_application e = cer_application c \<and> ev_subject e = cer_subject c
     \<and> ev_credential e = None \<and> ev_kind e = k @ ''.start'' \<and> ev_result e = succeeded
     \<and> ev_error e = None \<and> ev_details e = []"

definition finish_event :: "kind \<Rightarrow> ceremony \<Rightarrow> string \<Rightarrow> (err + credential) \<Rightarrow> event \<Rightarrow> bool" where
  "finish_event k c st out e \<longleftrightarrow>
     ev_application e = cer_application c \<and> ev_subject e = cer_subject c
     \<and> ev_kind e = k @ ''.finish'' \<and> ev_result e = st
     \<and> (case out of
          Inl er \<Rightarrow> ev_credential e = None \<and> ev_error e = Some (err_text er)
        | Inr cr \<Rightarrow> ev_credential e = (if cred_id cr = '''' then None else Some (cred_id cr))
            \<and> ev_error e = None \<and> ev_details e = [])"

definition delete_event :: "string \<Rightarrow> string \<Rightarrow> string \<Rightarrow> event \<Rightarrow> bool" where
  "delete_event application subject i e \<longleftrightarrow>
     ev_application e = application \<and> ev_subject e = subject
     \<and> ev_credential e = (if i = '''' then None else Some i)
     \<and> ev_kind e = ''credential.delete'' \<and> ev_result e = succeeded \<and> ev_error e = None
     \<and> ev_details e = []"

text \<open>The row a registration stores, and the time stamp the caller's copy receives.\<close>

definition registered_row :: "ceremony \<Rightarrow> time \<Rightarrow> credential \<Rightarrow> credential" where
  "registered_row c now cr =
     cr\<lparr>cred_application := cer_application c, cred_subject := cer_subject c,
        cred_rpid := cer_rpid c, cred_created_at := now, cred_used_at := None\<rparr>"

definition stamped :: "kind \<Rightarrow> time \<Rightarrow> credential \<Rightarrow> credential" where
  "stamped k now cr =
     (if k = Registration then cr\<lparr>cred_created_at := now\<rparr> else cr\<lparr>cred_used_at := Some now\<rparr>)"

inductive started :: "kind \<Rightarrow> ceremony \<Rightarrow> db \<Rightarrow> db \<Rightarrow> bool" where
  started: "kind_valid k \<Longrightarrow> insert_ceremony k c d = Inr ((), d1) \<Longrightarrow>
    insert_history e d1 = Inr ((), d') \<Longrightarrow> start_event k c e \<Longrightarrow> started k c d d'"

inductive finished ::
  "kind \<Rightarrow> bytes \<Rightarrow> ceremony \<Rightarrow> time \<Rightarrow> (err + credential) \<Rightarrow> db \<Rightarrow> db \<Rightarrow> bool" where
  registered:
    "select_by_token Registration h d = Some c \<Longrightarrow> cer_state c = pending \<Longrightarrow>
     now < cer_expires_at c \<Longrightarrow>
     insert_credential (registered_row c now cr) d = Inr (1, d1) \<Longrightarrow>
     update_state Registration succeeded (cer_id c) d1 = Inr ((), d2) \<Longrightarrow>
     insert_history e d2 = Inr ((), d') \<Longrightarrow> finish_event Registration c succeeded (Inr cr) e \<Longrightarrow>
     finished Registration h c now (Inr cr) d d'"
| authenticated:
    "select_by_token Authentication h d = Some c \<Longrightarrow> cer_state c = pending \<Longrightarrow>
     now < cer_expires_at c \<Longrightarrow>
     update_credential (cred_sign_count cr) (cred_backup_state cr) (cred_webauthn cr) now
       (cred_id cr) (cer_application c) (cer_subject c) (cer_rpid c) d = Inr (1, d1) \<Longrightarrow>
     update_state Authentication succeeded (cer_id c) d1 = Inr ((), d2) \<Longrightarrow>
     update_auth_credential (cred_id cr) (cer_id c) d2 = Inr ((), d3) \<Longrightarrow>
     insert_history e d3 = Inr ((), d') \<Longrightarrow> finish_event Authentication c succeeded (Inr cr) e \<Longrightarrow>
     finished Authentication h c now (Inr cr) d d'"
| rejected:
    "kind_valid k \<Longrightarrow> select_by_token k h d = Some c \<Longrightarrow> cer_state c = pending \<Longrightarrow>
     now < cer_expires_at c \<Longrightarrow>
     error_is er (kind_invalid k) \<or> k = Registration \<and> er = Code Conflict \<Longrightarrow>
     update_state k failed (cer_id c) d = Inr ((), d1) \<Longrightarrow>
     insert_history e d1 = Inr ((), d') \<Longrightarrow> finish_event k c failed (Inl er) e \<Longrightarrow>
     finished k h c now (Inl er) d d'"
| expired:
    "kind_valid k \<Longrightarrow> select_by_token k h d = Some c \<Longrightarrow> cer_state c = pending \<Longrightarrow>
     \<not> now < cer_expires_at c \<Longrightarrow>
     update_state k expired (cer_id c) d = Inr ((), d1) \<Longrightarrow>
     insert_history e d1 = Inr ((), d') \<Longrightarrow>
     finish_event k c expired (Inl (Code (kind_expired k))) e \<Longrightarrow>
     finished k h c now (Inl (Code (kind_expired k))) d d'"

inductive deleted :: "string \<Rightarrow> string \<Rightarrow> string \<Rightarrow> db \<Rightarrow> db \<Rightarrow> bool" where
  deleted: "delete_credential i application subject d = Inr (1, d1) \<Longrightarrow>
    insert_history e d1 = Inr ((), d') \<Longrightarrow> delete_event application subject i e \<Longrightarrow>
    deleted application subject i d d'"

inductive_cases startedE: "started k c d d'"
inductive_cases finished_InrE: "finished k h c now (Inr cr) d d'"
inductive_cases finished_InlE: "finished k h c now (Inl er) d d'"
inductive_cases deletedE: "deleted application subject i d d'"

subsection \<open>Operations that make at most one transition\<close>

inductive db_step :: "db \<Rightarrow> db \<Rightarrow> bool" where
  step_started: "started k c d d' \<Longrightarrow> cer_state c = pending \<Longrightarrow> db_step d d'"
| step_finished: "finished k h c now out d d' \<Longrightarrow> db_step d d'"
| step_deleted: "deleted a s i d d' \<Longrightarrow> db_step d d'"

definition at_most_one :: "'a eff \<Rightarrow> bool" where
  "at_most_one m \<longleftrightarrow>
     (\<forall>w r w'. m w = (r, w') \<longrightarrow> wf_db (store w) \<longrightarrow>
        store w' = store w \<or> db_step (store w) (store w'))"

named_theorems one_step \<open>operations that make at most one transition\<close>

lemma at_most_oneI:
  "(\<And>w r w'. m w = (r, w') \<Longrightarrow> wf_db (store w) \<Longrightarrow>
      store w' = store w \<or> db_step (store w) (store w')) \<Longrightarrow> at_most_one m"
  by (simp add: at_most_one_def)

lemma at_most_oneD:
  "at_most_one m \<Longrightarrow> m w = (r, w') \<Longrightarrow> wf_db (store w) \<Longrightarrow>
    store w' = store w \<or> db_step (store w) (store w')"
  by (simp add: at_most_one_def)

lemma at_most_one_keeps: "keeps_store m \<Longrightarrow> at_most_one m"
  by (rule at_most_oneI) (simp add: keeps_storeD)

lemma at_most_one_fail [one_step]: "at_most_one (fail e)"
  by (intro at_most_one_keeps frame)

lemma at_most_one_after [one_step]:
  assumes "keeps_store m" and "\<And>x. at_most_one (f x)"
  shows "at_most_one (and_then m f)"
proof (rule at_most_oneI)
  fix w r w'
  assume run: "and_then m f w = (r, w')" and wf: "wf_db (store w)"
  obtain q w1 where m: "m w = (q, w1)" by (cases "m w")
  with assms(1) have "store w1 = store w" by (rule keeps_storeD)
  with run m wf show "store w' = store w \<or> db_step (store w) (store w')"
    using at_most_oneD [OF assms(2)] by (cases q) (auto simp: and_then_def, metis)
qed

lemma at_most_one_before:
  assumes "at_most_one m" and "\<And>x. keeps_store (f x)"
  shows "at_most_one (and_then m f)"
proof (rule at_most_oneI)
  fix w r w'
  assume run: "and_then m f w = (r, w')" and wf: "wf_db (store w)"
  obtain q w1 where m: "m w = (q, w1)" by (cases "m w")
  with assms(1) wf have "store w1 = store w \<or> db_step (store w) (store w1)"
    by (auto dest: at_most_oneD)
  moreover from run m assms(2) have "store w' = store w1"
    by (auto simp: and_then_def dest: keeps_storeD split: sum.splits)
  ultimately show "store w' = store w \<or> db_step (store w) (store w')" by simp
qed

subsection \<open>The contracts\<close>

locale repository_reads =
  fixes R :: repository
  assumes credentials_law:
    "repo_credentials R a s w = (r, w') \<Longrightarrow>
      store w' = store w \<and> (\<forall>cs. r = Inr cs \<longrightarrow> cs = select_credentials a s (store w))"
begin

lemma credentials_frame: "keeps_store (repo_credentials R a s)"
  by (rule keeps_storeI) (simp add: credentials_law)

lemma credentials_scoped:
  assumes "repo_credentials R a s w = (Inr cs, w')" and "c \<in> set cs"
  shows "cred_application c = a \<and> cred_subject c = s \<and> c \<in> set (db_credential (store w))"
  using credentials_law [OF assms(1)] assms(2) by (simp add: select_credentials_set)

end

text \<open>
  The contract of the writing operations. \<open>finish_law\<close> is the atomicity of a finish;
  the three laws after it say what a caller learns when there is nothing to finish, and that
  authorization comes first.
\<close>

locale repository_contract = repository_reads +
  assumes start_law:
    "repo_start R k c w = (u, w') \<Longrightarrow>
      isl u \<and> store w' = store w
      \<or> started k c (store w) (store w') \<and> (u = Inr () \<or> (\<exists>t. u = Inl (Plain t)))"
  and finish_law:
    "repo_finish R k h auth ver w = (q, w') \<Longrightarrow> wf_db (store w) \<Longrightarrow>
      (\<And>c cs. keeps_store (ver c cs)) \<Longrightarrow>
      isl q \<and> store w' = store w
      \<or> (\<exists>c now out. auth c = None \<and> finished k h c now out (store w) (store w')
          \<and> (q = out \<or> (\<exists>t. q = Inl (Plain t)))
          \<and> (\<forall>cr. out = Inr cr \<longrightarrow>
               (\<exists>w1 w2 cr0. cr = stamped k now cr0 \<and> store w1 = store w
                 \<and> ver c (select_credentials (cer_application c) (cer_subject c) (store w)) w1
                   = (Inr cr0, w2))))"
  and finish_missing:
    "kind_valid k \<Longrightarrow> select_by_token k h (store w) = None \<Longrightarrow>
      repo_finish R k h auth ver w = (q, w') \<Longrightarrow>
      store w' = store w \<and> (q = Inl (Code (kind_not_found k)) \<or> (\<exists>t. q = Inl (Plain t)))"
  and finish_denied:
    "kind_valid k \<Longrightarrow> select_by_token k h (store w) = Some c \<Longrightarrow> auth c = Some er \<Longrightarrow>
      repo_finish R k h auth ver w = (q, w') \<Longrightarrow>
      store w' = store w \<and> (q = Inl er \<or> (\<exists>t. q = Inl (Plain t)))"
  and finish_replayed:
    "kind_valid k \<Longrightarrow> select_by_token k h (store w) = Some c \<Longrightarrow> auth c = None \<Longrightarrow>
      cer_state c \<noteq> pending \<Longrightarrow> repo_finish R k h auth ver w = (q, w') \<Longrightarrow>
      store w' = store w \<and> (q = Inl (Code Conflict) \<or> (\<exists>t. q = Inl (Plain t)))"
  and delete_law:
    "repo_delete R a s i w = (u, w') \<Longrightarrow>
      isl u \<and> store w' = store w
      \<or> deleted a s i (store w) (store w') \<and> (u = Inr () \<or> (\<exists>t. u = Inl t))"
begin

lemma start_one_step: "cer_state c = pending \<Longrightarrow> at_most_one (repo_start R k c)"
  by (rule at_most_oneI) (auto dest: start_law intro: step_started)

lemma finish_one_step: "(\<And>c cs. keeps_store (ver c cs)) \<Longrightarrow> at_most_one (repo_finish R k h auth ver)"
  by (rule at_most_oneI) (blast dest: finish_law intro: step_finished)

lemma delete_one_step: "at_most_one (repo_delete R a s i)"
  by (rule at_most_oneI) (auto dest: delete_law intro: step_deleted)

lemma finish_success:
  assumes "repo_finish R k h auth ver w = (Inr cr, w')" and "wf_db (store w)"
    and "\<And>c cs. keeps_store (ver c cs)"
  obtains c now w1 w2 cr0 where "auth c = None" "finished k h c now (Inr cr) (store w) (store w')"
    "cr = stamped k now cr0" "store w1 = store w"
    "ver c (select_credentials (cer_application c) (cer_subject c) (store w)) w1 = (Inr cr0, w2)"
  using finish_law [OF assms] that by auto

end

locale webauthn_contract =
  fixes A :: webauthn
  assumes begin_frame: "keeps_store (wa_begin A k a s n cs)"
  and verify_frame: "keeps_store (wa_verify A k a c cs resp)"
  and verify_scope:
    "wa_verify A k a c cs resp w = (Inr cr, w') \<Longrightarrow>
      cred_application cr = cer_application c \<and> cred_subject cr = cer_subject c
      \<and> cred_rpid cr = cer_rpid c"
  and verify_known:
    "wa_verify A Authentication a c cs resp w = (Inr cr, w') \<Longrightarrow>
      \<exists>old \<in> set cs. cred_id cr = cred_id old \<and> cred_webauthn_id cr = cred_webauthn_id old
        \<and> cred_rpid old = cer_rpid c"

end
