(* ===== verification/Postgres.thy ===== *)
theory Postgres
  imports Contracts
begin

section \<open>The PostgreSQL repository: passkeys/postgres.go\<close>

text \<open>
  Each method as the sequence of statements it sends, inside the transaction it opens. The three
  stages of \<open>Finish\<close> between the lock and the commit (checking and verifying, changing the
  credential, recording the outcome) are definitions of their own; an outcome is the code's pair
  of \<open>outcome\<close> and \<open>credential\<close>, with the error on the left when \<open>outcome != nil\<close>.
\<close>

definition ceremony_table :: "kind \<Rightarrow> err + string" where
  "ceremony_table k =
     (if k = Registration then Inr ''registration''
      else if k = Authentication then Inr ''authentication''
      else Inl (Code InvalidRequest))"

definition read_credentials :: "env \<Rightarrow> string \<Rightarrow> string \<Rightarrow> credential list eff" where
  "read_credentials E application subject = exec E (query (select_credentials application subject))"

definition pg_credentials :: "env \<Rightarrow> string \<Rightarrow> string \<Rightarrow> credential list eff" where
  "pg_credentials E application subject = read_credentials E application subject"

definition event_details :: "err option \<Rightarrow> (string \<times> string) list" where
  "event_details code =
     (case code of
        None \<Rightarrow> []
      | Some e \<Rightarrow>
          (case as_diagnostic e of
             Some (_, Some cause) \<Rightarrow> [(''cause'', err_text cause)]
           | _ \<Rightarrow> []))"

definition pg_event ::
  "env \<Rightarrow> string \<Rightarrow> string \<Rightarrow> string \<Rightarrow> string \<Rightarrow> string \<Rightarrow> err option \<Rightarrow> unit eff" where
  "pg_event E application subject credential kind result code =
     and_then (new_uuid E) (\<lambda>i.
     and_then (read_clock E) (\<lambda>now.
       exec E (insert_history
         \<lparr>ev_id = i, ev_application = application, ev_subject = subject,
          ev_credential = (if credential \<noteq> '''' then Some credential else None),
          ev_kind = kind, ev_result = result, ev_error = map_option err_text code,
          ev_details = event_details code, ev_occurred_at = now\<rparr>)))"

definition pg_start :: "env \<Rightarrow> kind \<Rightarrow> ceremony \<Rightarrow> unit eff" where
  "pg_start E k c =
     (case ceremony_table k of
        Inl e \<Rightarrow> fail e
      | Inr table \<Rightarrow>
          transaction E
            (and_then (exec E (insert_ceremony table c)) (\<lambda>_.
               pg_event E (cer_application c) (cer_subject c) '''' (k @ ''.start'') succeeded None)))"

text \<open>
  \<open>int64(binary.BigEndian.Uint64(UserHandle(application, subject)))\<close>: the first eight bytes of
  the digest as a signed 64-bit integer.
\<close>

definition be_uint64 :: "bytes \<Rightarrow> 64 word" where
  "be_uint64 b = foldl (\<lambda>a c. push_bit 8 a + of_nat (byte_nat c)) 0 (take 8 b)"

definition lock_key :: "(bytes \<Rightarrow> bytes) \<Rightarrow> string \<Rightarrow> string \<Rightarrow> int" where
  "lock_key sha application subject = sint (be_uint64 (user_handle sha application subject))"

definition lock_subject :: "env \<Rightarrow> string \<Rightarrow> string \<Rightarrow> unit eff" where
  "lock_subject E application subject =
     and_then (exec E no_op) (\<lambda>_. hold (lock_key (sha256 E) application subject))"

definition database_now :: "env \<Rightarrow> time eff" where
  "database_now E = and_then (exec E no_op) (\<lambda>_. read_clock E)"

definition finish_verify ::
  "env \<Rightarrow> kind \<Rightarrow> ceremony \<Rightarrow> time \<Rightarrow> (ceremony \<Rightarrow> credential list \<Rightarrow> credential eff)
    \<Rightarrow> (err + credential) eff"
where
  "finish_verify E k c now verify =
     (case ceremony_check c k now of
        Some e \<Rightarrow> ret (Inl e)
      | None \<Rightarrow>
          and_then (read_credentials E (cer_application c) (cer_subject c)) (\<lambda>credentials.
          and_then (attempt (verify c credentials)) (\<lambda>outcome.
            case outcome of
              Inl e \<Rightarrow> if \<not> error_is e (kind_invalid k) then fail e else ret (Inl e)
            | Inr credential \<Rightarrow> ret (Inr credential))))"

definition finish_apply ::
  "env \<Rightarrow> kind \<Rightarrow> ceremony \<Rightarrow> time \<Rightarrow> err + credential \<Rightarrow> (err + credential) eff"
where
  "finish_apply E k c now outcome =
     (case outcome of
        Inl e \<Rightarrow> ret (Inl e)
      | Inr cr \<Rightarrow>
          if k = Registration then
            (let credential = cr\<lparr>cred_created_at := now\<rparr> in
             and_then (exec E (insert_credential (registered_row c now credential))) (\<lambda>n.
               ret (if n \<noteq> 1 then Inl (Code Conflict) else Inr credential)))
          else
            (let credential = cr\<lparr>cred_used_at := Some now\<rparr> in
             and_then (exec E (update_credential (cred_sign_count credential)
               (cred_backup_state credential) (cred_webauthn credential) now (cred_id credential)
               (cer_application c) (cer_subject c) (cer_rpid c))) (\<lambda>n.
               ret (if n \<noteq> 1 then Inl (Code (kind_invalid k)) else Inr credential))))"

definition final_state :: "kind \<Rightarrow> err + credential \<Rightarrow> string" where
  "final_state k outcome =
     (case outcome of
        Inr _ \<Rightarrow> succeeded
      | Inl e \<Rightarrow> if error_is e (kind_expired k) then expired else failed)"

definition finish_record ::
  "env \<Rightarrow> kind \<Rightarrow> string \<Rightarrow> ceremony \<Rightarrow> err + credential \<Rightarrow> unit eff"
where
  "finish_record E k table c outcome =
     (let state = final_state k outcome;
          credential_id = (case outcome of Inl _ \<Rightarrow> '''' | Inr cr \<Rightarrow> cred_id cr);
          code = (case outcome of Inl e \<Rightarrow> Some e | Inr _ \<Rightarrow> None) in
      and_then (exec E (update_state table state (cer_id c))) (\<lambda>_.
      and_then
        (if k = Authentication \<and> code = None
         then exec E (update_auth_credential credential_id (cer_id c)) else ret ()) (\<lambda>_.
        pg_event E (cer_application c) (cer_subject c) credential_id (k @ ''.finish'') state code)))"

definition finish_body ::
  "env \<Rightarrow> kind \<Rightarrow> string \<Rightarrow> bytes \<Rightarrow> (ceremony \<Rightarrow> err option)
    \<Rightarrow> (ceremony \<Rightarrow> credential list \<Rightarrow> credential eff) \<Rightarrow> (err + credential) eff"
where
  "finish_body E k table hash authorize verify =
     and_then (exec E (query (select_by_token table hash))) (\<lambda>found.
       case found of
         None \<Rightarrow> fail (Code (kind_not_found k))
       | Some c \<Rightarrow>
           and_then (guard (authorize c)) (\<lambda>_.
             if cer_state c \<noteq> pending then fail (Code Conflict)
             else
               and_then (lock_subject E (cer_application c) (cer_subject c)) (\<lambda>_.
               and_then (database_now E) (\<lambda>now.
               and_then (finish_verify E k c now verify) (\<lambda>verified.
               and_then (finish_apply E k c now verified) (\<lambda>outcome.
               and_then (finish_record E k table c outcome) (\<lambda>_.
                 ret outcome)))))))"

definition pg_finish ::
  "env \<Rightarrow> kind \<Rightarrow> bytes \<Rightarrow> (ceremony \<Rightarrow> err option)
    \<Rightarrow> (ceremony \<Rightarrow> credential list \<Rightarrow> credential eff) \<Rightarrow> credential eff"
where
  "pg_finish E k hash authorize verify =
     (case ceremony_table k of
        Inl e \<Rightarrow> fail e
      | Inr table \<Rightarrow>
          and_then (transaction E (finish_body E k table hash authorize verify)) of_result)"

definition pg_delete :: "env \<Rightarrow> string \<Rightarrow> string \<Rightarrow> string \<Rightarrow> unit eff" where
  "pg_delete E application subject i =
     transaction E
       (and_then (lock_subject E application subject) (\<lambda>_.
        and_then (exec E (delete_credential i application subject)) (\<lambda>n.
          if n \<noteq> 1 then fail (Code CredentialNotFound)
          else
            wrapping ''delete history''
              (pg_event E application subject i ''credential.delete'' succeeded None))))"

definition postgres :: "env \<Rightarrow> repository" where
  "postgres E =
     \<lparr>repo_credentials = pg_credentials E, repo_start = pg_start E, repo_finish = pg_finish E,
      repo_delete = pg_delete E\<rparr>"

subsection \<open>What the stages do when they succeed\<close>

lemma ceremony_table_Inr: "ceremony_table k = Inr t \<longleftrightarrow> kind_valid k \<and> t = k"
  by (auto simp: ceremony_table_def kind_valid_def names)

lemma ceremony_table_Inl: "ceremony_table k = Inl e \<Longrightarrow> \<not> kind_valid k \<and> e = Code InvalidRequest"
  by (auto simp: ceremony_table_def kind_valid_def split: if_splits)

lemma pg_event_Inr:
  assumes "pg_event E a s cid kd res code w = (Inr u, w')"
  obtains e where "insert_history e (store w) = Inr ((), store w')" "ev_application e = a"
    "ev_subject e = s" "ev_credential e = (if cid \<noteq> '''' then Some cid else None)" "ev_kind e = kd"
    "ev_result e = res" "ev_error e = map_option err_text code" "ev_details e = event_details code"
  using assms by (auto simp: pg_event_def success)

lemma lock_subject_Inr: "lock_subject E a s w = (Inr u, w') \<Longrightarrow> store w' = store w"
  by (auto simp: lock_subject_def success no_op_def)

lemma database_now_Inr: "database_now E w = (Inr now, w') \<Longrightarrow> store w' = store w"
  by (auto simp: database_now_def success no_op_def)

lemma finish_verify_Inr:
  assumes "finish_verify E k c now ver w = (Inr out, w')" and "cer_state c = pending"
    and "\<And>c cs. keeps_store (ver c cs)"
  shows "store w' = store w \<and>
    ((\<not> now < cer_expires_at c \<and> out = Inl (Code (kind_expired k)))
     \<or> (now < cer_expires_at c \<and> (\<exists>er. out = Inl er \<and> error_is er (kind_invalid k)))
     \<or> (now < cer_expires_at c \<and> (\<exists>cr w1 w2. out = Inr cr \<and> store w1 = store w
          \<and> ver c (select_credentials (cer_application c) (cer_subject c) (store w)) w1
            = (Inr cr, w2))))"
proof (cases "now < cer_expires_at c")
  case False
  with assms show ?thesis by (auto simp: finish_verify_def ceremony_check_def success)
next
  case True
  with assms(1,2) obtain cs w1 r w2
    where cs: "read_credentials E (cer_application c) (cer_subject c) w = (Inr cs, w1)"
      and r: "ver c cs w1 = (r, w2)"
      and rest: "(case r of Inl e \<Rightarrow> if \<not> error_is e (kind_invalid k) then fail e else ret (Inl e)
        | Inr x \<Rightarrow> ret (Inr x)) w2 = (Inr out, w')"
    by (auto simp: finish_verify_def ceremony_check_def success)
  from cs have w1: "store w1 = store w"
    "cs = select_credentials (cer_application c) (cer_subject c) (store w)"
    by (auto simp: read_credentials_def success query_def)
  have "store w2 = store w1" using assms(3) r by (rule keeps_storeD)
  with True rest r w1 show ?thesis
    by (auto simp: success split: sum.splits if_splits)
qed

lemma finish_apply_Inr:
  assumes "finish_apply E k c now v w = (Inr out, w')" and "wf_db (store w)"
  obtains (kept) er where "v = Inl er" "out = Inl er" "store w' = store w"
  | (duplicate) cr where "v = Inr cr" "k = Registration" "out = Inl (Code Conflict)"
      "store w' = store w"
  | (vanished) cr where "v = Inr cr" "k \<noteq> Registration" "out = Inl (Code (kind_invalid k))"
      "store w' = store w"
  | (inserted) cr where "v = Inr cr" "k = Registration" "out = Inr (stamped k now cr)"
      "insert_credential (registered_row c now (stamped k now cr)) (store w) = Inr (1, store w')"
  | (updated) cr where "v = Inr cr" "k \<noteq> Registration" "out = Inr (stamped k now cr)"
      "update_credential (cred_sign_count cr) (cred_backup_state cr) (cred_webauthn cr) now
         (cred_id cr) (cer_application c) (cer_subject c) (cer_rpid c) (store w) = Inr (1, store w')"
proof (cases v)
  case (Inl er)
  with assms kept show ?thesis by (auto simp: finish_apply_def success)
next
  case (Inr cr)
  show ?thesis
  proof (cases "k = Registration")
    case True
    with assms(1) Inr obtain n where
      n: "insert_credential (registered_row c now (stamped k now cr)) (store w) = Inr (n, store w')"
      and out: "out = (if n \<noteq> 1 then Inl (Code Conflict) else Inr (stamped k now cr))"
      by (auto simp: finish_apply_def success stamped_def Let_def)
    show ?thesis
    proof (cases "n = 1")
      case False
      then have "store w' = store w" using insert_credential_InrD [OF n] by auto
      with False out Inr True duplicate show ?thesis by simp
    qed (use n out Inr True inserted in simp)
  next
    case False
    with assms(1) Inr obtain n where
      n: "update_credential (cred_sign_count cr) (cred_backup_state cr) (cred_webauthn cr) now
         (cred_id cr) (cer_application c) (cer_subject c) (cer_rpid c) (store w) = Inr (n, store w')"
      and out: "out = (if n \<noteq> 1 then Inl (Code (kind_invalid k)) else Inr (stamped k now cr))"
      by (auto simp: finish_apply_def success stamped_def Let_def)
    show ?thesis
    proof (cases "n = 1")
      case n1: False
      then have "store w' = store w" using update_credential_missed [OF n assms(2)] by simp
      with n1 out Inr False vanished show ?thesis by simp
    qed (use n out Inr False updated in simp)
  qed
qed

lemma finish_record_rejected:
  assumes "finish_record E k t c (Inl er) w = (Inr u, w')"
  obtains d1 e where "update_state t (final_state k (Inl er)) (cer_id c) (store w) = Inr ((), d1)"
    "insert_history e d1 = Inr ((), store w')" "finish_event k c (final_state k (Inl er)) (Inl er) e"
proof -
  from assms obtain w1 where
    d1: "exec E (update_state t (final_state k (Inl er)) (cer_id c)) w = (Inr (), w1)"
    and ev: "pg_event E (cer_application c) (cer_subject c) '''' (k @ ''.finish'')
      (final_state k (Inl er)) (Some er) w1 = (Inr u, w')"
    by (auto simp: finish_record_def and_then_Inr ret_Inr Let_def)
  from ev obtain e where "insert_history e (store w1) = Inr ((), store w')"
    "finish_event k c (final_state k (Inl er)) (Inl er) e"
    by (rule pg_event_Inr) (auto simp: finish_event_def)
  with exec_store [OF d1] that show ?thesis by blast
qed

lemma finish_record_registered:
  assumes "finish_record E Registration t c (Inr cr) w = (Inr u, w')"
  obtains d1 e where "update_state t succeeded (cer_id c) (store w) = Inr ((), d1)"
    "insert_history e d1 = Inr ((), store w')" "finish_event Registration c succeeded (Inr cr) e"
proof -
  from assms obtain w1 where
    d1: "exec E (update_state t succeeded (cer_id c)) w = (Inr (), w1)"
    and ev: "pg_event E (cer_application c) (cer_subject c) (cred_id cr) (Registration @ ''.finish'')
      succeeded None w1 = (Inr u, w')"
    by (auto simp: finish_record_def final_state_def and_then_Inr ret_Inr Let_def)
  from ev obtain e where "insert_history e (store w1) = Inr ((), store w')"
    "finish_event Registration c succeeded (Inr cr) e"
    by (rule pg_event_Inr) (auto simp: finish_event_def event_details_def)
  with exec_store [OF d1] that show ?thesis by blast
qed

lemma finish_record_authenticated:
  assumes "finish_record E Authentication t c (Inr cr) w = (Inr u, w')"
  obtains d1 d2 e where "update_state t succeeded (cer_id c) (store w) = Inr ((), d1)"
    "update_auth_credential (cred_id cr) (cer_id c) d1 = Inr ((), d2)"
    "insert_history e d2 = Inr ((), store w')" "finish_event Authentication c succeeded (Inr cr) e"
proof -
  from assms obtain w1 w2 where
    d1: "exec E (update_state t succeeded (cer_id c)) w = (Inr (), w1)"
    and d2: "exec E (update_auth_credential (cred_id cr) (cer_id c)) w1 = (Inr (), w2)"
    and ev: "pg_event E (cer_application c) (cer_subject c) (cred_id cr)
      (Authentication @ ''.finish'') succeeded None w2 = (Inr u, w')"
    by (auto simp: finish_record_def final_state_def and_then_Inr ret_Inr Let_def)
  from ev obtain e where "insert_history e (store w2) = Inr ((), store w')"
    "finish_event Authentication c succeeded (Inr cr) e"
    by (rule pg_event_Inr) (auto simp: finish_event_def event_details_def)
  with exec_store [OF d1] exec_store [OF d2] that show ?thesis by blast
qed

lemma finish_body_steps:
  assumes "finish_body E k t h auth ver w = (Inr out, w')"
  obtains c now v w1 w2 w3 where "select_by_token t h (store w) = Some c" "auth c = None"
    "cer_state c = pending" "store w1 = store w" "finish_verify E k c now ver w1 = (Inr v, w2)"
    "finish_apply E k c now v w2 = (Inr out, w3)" "finish_record E k t c out w3 = (Inr (), w')"
proof -
  from assms obtain found w0 where q: "exec E (query (select_by_token t h)) w = (Inr found, w0)"
    and rest: "(case found of
         None \<Rightarrow> fail (Code (kind_not_found k))
       | Some c \<Rightarrow>
           and_then (guard (auth c)) (\<lambda>_.
             if cer_state c \<noteq> pending then fail (Code Conflict)
             else
               and_then (lock_subject E (cer_application c) (cer_subject c)) (\<lambda>_.
               and_then (database_now E) (\<lambda>now.
               and_then (finish_verify E k c now ver) (\<lambda>verified.
               and_then (finish_apply E k c now verified) (\<lambda>outcome.
               and_then (finish_record E k t c outcome) (\<lambda>_.
                 ret outcome))))))) w0 = (Inr out, w')"
    by (auto simp: finish_body_def and_then_Inr)
  from exec_store [OF q] have found: "found = select_by_token t h (store w)" "store w0 = store w"
    by (auto simp: query_def)
  from rest found obtain c wa wb now wc v wd we where c: "select_by_token t h (store w) = Some c"
    "auth c = None" "cer_state c = pending"
    and l: "lock_subject E (cer_application c) (cer_subject c) w0 = (Inr (), wa)"
    and n: "database_now E wa = (Inr now, wb)"
    and v: "finish_verify E k c now ver wb = (Inr v, wc)"
    and a: "finish_apply E k c now v wc = (Inr out, wd)"
    and r: "finish_record E k t c out wd = (Inr (), w')"
    by (auto simp: and_then_Inr guard_Inr ret_Inr fail_Inr split: option.splits if_splits)
  have "store wb = store w" using lock_subject_Inr [OF l] database_now_Inr [OF n] found by simp
  with c v a r that show ?thesis by blast
qed

text \<open>Each kind of recorded outcome is one of the atomic transitions.\<close>

lemma final_state_failed:
  "error_is er (kind_invalid k) \<or> k = Registration \<and> er = Code Conflict \<Longrightarrow>
    final_state k (Inl er) = failed"
  using expired_not_invalid [of k]
  by (auto simp: final_state_def error_is_as_code) (simp add: kind_expired_def names)

lemma rejected_transition:
  assumes "finish_record E k k c (Inl er) w = (Inr u, w')"
    and "kind_valid k" "select_by_token k h (store w) = Some c" "cer_state c = pending"
      "now < cer_expires_at c"
    and reason: "error_is er (kind_invalid k) \<or> k = Registration \<and> er = Code Conflict"
  shows "finished k h c now (Inl er) (store w) (store w')"
proof -
  from assms(1) obtain d1 e where "update_state k failed (cer_id c) (store w) = Inr ((), d1)"
    "insert_history e d1 = Inr ((), store w')" "finish_event k c failed (Inl er) e"
    by (rule finish_record_rejected) (simp add: final_state_failed [OF reason])
  with assms show ?thesis by (blast intro: finished.rejected)
qed

lemma expired_transition:
  assumes "finish_record E k k c (Inl (Code (kind_expired k))) w = (Inr u, w')"
    and "kind_valid k" "select_by_token k h (store w) = Some c" "cer_state c = pending"
      "\<not> now < cer_expires_at c"
  shows "finished k h c now (Inl (Code (kind_expired k))) (store w) (store w')"
proof -
  from assms(1) obtain d1 e where "update_state k expired (cer_id c) (store w) = Inr ((), d1)"
    "insert_history e d1 = Inr ((), store w')"
    "finish_event k c expired (Inl (Code (kind_expired k))) e"
    by (rule finish_record_rejected) (simp add: final_state_def)
  with assms show ?thesis by (blast intro: finished.expired)
qed

lemma registered_transition:
  assumes "finish_record E Registration Registration c (Inr cr) w1 = (Inr u, w')"
    and "insert_credential (registered_row c now cr) (store w) = Inr (1, store w1)"
    and "select_by_token Registration h (store w) = Some c" "cer_state c = pending"
      "now < cer_expires_at c"
  shows "finished Registration h c now (Inr cr) (store w) (store w')"
  using assms by (blast elim: finish_record_registered intro: finished.registered)

lemma authenticated_transition:
  assumes "finish_record E Authentication Authentication c (Inr cr) w1 = (Inr u, w')"
    and "update_credential (cred_sign_count cr) (cred_backup_state cr) (cred_webauthn cr) now
      (cred_id cr) (cer_application c) (cer_subject c) (cer_rpid c) (store w) = Inr (1, store w1)"
    and "select_by_token Authentication h (store w) = Some c" "cer_state c = pending"
      "now < cer_expires_at c"
  shows "finished Authentication h c now (Inr cr) (store w) (store w')"
  using assms by (blast elim: finish_record_authenticated intro: finished.authenticated)

lemma outcome_transition:
  assumes v: "finish_verify E k c now ver w1 = (Inr v, w2)"
    and a: "finish_apply E k c now v w2 = (Inr out, w3)"
    and r: "finish_record E k k c out w3 = (Inr (), w')"
    and c: "kind_valid k" "select_by_token k h (store w1) = Some c" "cer_state c = pending"
    and wf: "wf_db (store w1)" and ver: "\<And>c cs. keeps_store (ver c cs)"
  shows "finished k h c now out (store w1) (store w')"
proof -
  note vc = finish_verify_Inr [OF v c(3) ver]
  with wf c have w2: "store w2 = store w1" "wf_db (store w2)"
    "select_by_token k h (store w2) = Some c" by auto
  from a w2(2) show ?thesis
  proof (cases rule: finish_apply_Inr)
    case (kept er)
    with vc consider "now < cer_expires_at c" "error_is er (kind_invalid k)"
      | "\<not> now < cer_expires_at c" "er = Code (kind_expired k)" by auto
    then show ?thesis
    proof cases
      case 1
      have "finished k h c now (Inl er) (store w3) (store w')"
        by (rule rejected_transition) (use r kept c w2 1 in auto)
      with kept w2 show ?thesis by simp
    next
      case 2
      have "finished k h c now (Inl (Code (kind_expired k))) (store w3) (store w')"
        by (rule expired_transition) (use r kept c w2 2 in auto)
      with kept w2 2 show ?thesis by simp
    qed
  next
    case (duplicate cr)
    have "finished k h c now (Inl (Code Conflict)) (store w3) (store w')"
      by (rule rejected_transition) (use r duplicate c w2 vc in auto)
    with duplicate w2 show ?thesis by simp
  next
    case (vanished cr)
    have "finished k h c now (Inl (Code (kind_invalid k))) (store w3) (store w')"
      by (rule rejected_transition) (use r vanished c w2 vc in auto)
    with vanished w2 show ?thesis by simp
  next
    case (inserted cr)
    have "finished Registration h c now (Inr (stamped k now cr)) (store w2) (store w')"
      by (rule registered_transition) (use r inserted c w2 vc in auto)
    with inserted w2 show ?thesis by simp
  next
    case (updated cr)
    then have k: "k = Authentication" using c by (simp add: kind_valid_def)
    have "finished Authentication h c now (Inr (stamped k now cr)) (store w2) (store w')"
      by (rule authenticated_transition) (use r updated c w2 vc k in \<open>auto simp: stamped_def\<close>)
    with updated w2 k show ?thesis by simp
  qed
qed

lemma finish_body_Inr:
  assumes body: "finish_body E k k h auth ver w = (Inr out, w')" and k: "kind_valid k"
    and wf: "wf_db (store w)" and ver: "\<And>c cs. keeps_store (ver c cs)"
  obtains c now where "auth c = None" "finished k h c now out (store w) (store w')"
    "\<And>cr. out = Inr cr \<Longrightarrow> \<exists>w1 w2 cr0. cr = stamped k now cr0 \<and> store w1 = store w
      \<and> ver c (select_credentials (cer_application c) (cer_subject c) (store w)) w1 = (Inr cr0, w2)"
proof -
  from body obtain c now v w1 w2 w3 where c: "select_by_token k h (store w) = Some c" "auth c = None"
    "cer_state c = pending" and w1: "store w1 = store w"
    and v: "finish_verify E k c now ver w1 = (Inr v, w2)"
    and a: "finish_apply E k c now v w2 = (Inr out, w3)"
    and r: "finish_record E k k c out w3 = (Inr (), w')"
    by (rule finish_body_steps)
  note vc = finish_verify_Inr [OF v c(3) ver]
  show ?thesis
  proof (rule that [OF c(2)])
    show "finished k h c now out (store w) (store w')"
      using outcome_transition [OF v a r k _ c(3) _ ver, of h] c(1) w1 wf by simp
  next
    fix cr
    assume out: "out = Inr cr"
    from vc w1 wf have wf2: "wf_db (store w2)" by auto
    from a wf2 out obtain cr0 where "v = Inr cr0" "cr = stamped k now cr0"
      by (cases rule: finish_apply_Inr) auto
    with vc w1 show "\<exists>w1 w2 cr0. cr = stamped k now cr0 \<and> store w1 = store w
      \<and> ver c (select_credentials (cer_application c) (cer_subject c) (store w)) w1 = (Inr cr0, w2)"
      by auto
  qed
qed

subsection \<open>The repository keeps its contract\<close>

lemma pg_finish_cases:
  assumes "pg_finish E k h auth ver w = (q, w')"
  obtains (refused) "\<not> kind_valid k" "q = Inl (Code InvalidRequest)" "w' = w"
  | (ended) r where "kind_valid k" "transaction E (finish_body E k k h auth ver) w = (r, w')"
      "q = (case r of Inl e \<Rightarrow> Inl e | Inr out \<Rightarrow> out)"
proof (cases "ceremony_table k")
  case (Inl e)
  with assms refused show ?thesis
    by (auto simp: pg_finish_def fail_def dest: ceremony_table_Inl)
next
  case (Inr t)
  obtain r w1 where r: "transaction E (finish_body E k t h auth ver) w = (r, w1)"
    by (cases "transaction E (finish_body E k t h auth ver) w")
  with assms Inr have "w' = w1" "q = (case r of Inl e \<Rightarrow> Inl e | Inr out \<Rightarrow> out)"
    by (auto simp: pg_finish_def and_then_def of_result_def split: sum.splits)
  with r Inr ended show ?thesis by (auto simp: ceremony_table_Inr)
qed

lemma pg_start_law:
  assumes "pg_start E k c w = (r, w')"
  shows "isl r \<and> store w' = store w
    \<or> started k c (store w) (store w') \<and> (r = Inr () \<or> (\<exists>t. r = Inl (Plain t)))"
proof (cases "ceremony_table k")
  case (Inl e)
  with assms show ?thesis by (auto simp: pg_start_def fail_def)
next
  case (Inr t)
  let ?body = "and_then (exec E (insert_ceremony t c)) (\<lambda>_. pg_event E (cer_application c)
    (cer_subject c) '''' (k @ ''.start'') succeeded None)"
  have trans: "started k c (store w) (store w2)"
    if "?body (w\<lparr>calls := Suc (calls w)\<rparr>) = (Inr x, w2)" for x w2
  proof -
    from that obtain w1 where ins: "exec E (insert_ceremony t c) (w\<lparr>calls := Suc (calls w)\<rparr>) = (Inr (), w1)"
      and ev: "pg_event E (cer_application c) (cer_subject c) '''' (k @ ''.start'') succeeded None w1
        = (Inr x, w2)" by (auto simp: and_then_Inr)
    from ev obtain e where "insert_history e (store w1) = Inr ((), store w2)" "start_event k c e"
      by (rule pg_event_Inr) (auto simp: start_event_def event_details_def)
    with exec_store [OF ins] Inr show ?thesis
      by (auto simp: ceremony_table_Inr intro: started.started)
  qed
  from assms Inr have "transaction E ?body w = (r, w')" by (simp add: pg_start_def)
  then show ?thesis by (cases rule: transaction_cases) (auto dest: trans)
qed

lemma pg_finish_law:
  assumes fin: "pg_finish E k h auth ver w = (q, w')" and wf: "wf_db (store w)"
    and ver: "\<And>c cs. keeps_store (ver c cs)"
  shows "isl q \<and> store w' = store w
    \<or> (\<exists>c now out. auth c = None \<and> finished k h c now out (store w) (store w')
        \<and> (q = out \<or> (\<exists>t. q = Inl (Plain t)))
        \<and> (\<forall>cr. out = Inr cr \<longrightarrow>
             (\<exists>w1 w2 cr0. cr = stamped k now cr0 \<and> store w1 = store w
               \<and> ver c (select_credentials (cer_application c) (cer_subject c) (store w)) w1
                 = (Inr cr0, w2))))"
  using fin
proof (cases rule: pg_finish_cases)
  case refused
  then show ?thesis by simp
next
  case (ended r)
  have commit: "?thesis" if body: "finish_body E k k h auth ver (w\<lparr>calls := Suc (calls w)\<rparr>) = (Inr out, w2)"
    and res: "store w' = store w2" "q = out \<or> (\<exists>t. q = Inl (Plain t))" for out w2
  proof -
    have wf': "wf_db (store (w\<lparr>calls := Suc (calls w)\<rparr>))" using wf by simp
    obtain c now where "auth c = None" "finished k h c now out (store w) (store w')"
      "\<And>cr. out = Inr cr \<Longrightarrow> \<exists>w1 w2 cr0. cr = stamped k now cr0 \<and> store w1 = store w
        \<and> ver c (select_credentials (cer_application c) (cer_subject c) (store w)) w1
          = (Inr cr0, w2)"
      by (rule finish_body_Inr [OF body ended(1) wf' ver]) (auto simp: res(1))
    with res show ?thesis by blast
  qed
  from ended(2) show ?thesis
  proof (cases rule: transaction_cases)
    case (rolled_back e)
    with ended(3) show ?thesis by simp
  next
    case (committed x w2)
    with ended(3) show ?thesis by (intro commit) auto
  next
    case (reply_lost x w2 t)
    with ended(3) show ?thesis by (intro commit) auto
  qed
qed

text \<open>A finish that stops before the lock: no ceremony, no authorization, not pending.\<close>

lemma finish_body_stops:
  assumes "finish_body E k t h auth ver w = (q, w')"
    and "case select_by_token t h (store w) of
        None \<Rightarrow> er = Code (kind_not_found k)
      | Some c \<Rightarrow> auth c = Some er \<or> auth c = None \<and> cer_state c \<noteq> pending \<and> er = Code Conflict"
  shows "q = Inl er \<or> (\<exists>t. q = Inl (Plain t))"
  using assms
  by (auto simp: finish_body_def and_then_def exec_def query_def guard_def fail_def ret_def Let_def
      split: option.splits)

lemma pg_finish_stops:
  assumes fin: "pg_finish E k h auth ver w = (q, w')" and k: "kind_valid k"
    and stop: "case select_by_token k h (store w) of
        None \<Rightarrow> er = Code (kind_not_found k)
      | Some c \<Rightarrow> auth c = Some er \<or> auth c = None \<and> cer_state c \<noteq> pending \<and> er = Code Conflict"
  shows "store w' = store w \<and> (q = Inl er \<or> (\<exists>t. q = Inl (Plain t)))"
proof -
  let ?w = "w\<lparr>calls := Suc (calls w)\<rparr>"
  obtain r w2 where body: "finish_body E k k h auth ver ?w = (r, w2)"
    by (cases "finish_body E k k h auth ver ?w")
  then have r: "r = Inl er \<or> (\<exists>t. r = Inl (Plain t))"
    by (rule finish_body_stops) (use stop in simp)
  from fin k have trans: "and_then (transaction E (finish_body E k k h auth ver)) of_result w = (q, w')"
    using ceremony_table_Inr [of k k] by (simp add: pg_finish_def)
  have "exec E no_op w = (case fault E (calls w) of Some f \<Rightarrow> (Inl (Plain (fault_text f)), ?w)
    | None \<Rightarrow> (Inr (), ?w))"
    by (simp add: exec_def no_op_def split: option.splits)
  with trans body r show ?thesis
    by (auto simp: transaction_def and_then_def split: option.splits)
qed

lemma pg_delete_law:
  assumes "pg_delete E a s i w = (r, w')"
  shows "isl r \<and> store w' = store w
    \<or> deleted a s i (store w) (store w') \<and> (r = Inr () \<or> (\<exists>t. r = Inl t))"
proof -
  let ?body = "and_then (lock_subject E a s) (\<lambda>_. and_then (exec E (delete_credential i a s))
    (\<lambda>n. if n \<noteq> 1 then fail (Code CredentialNotFound)
      else wrapping ''delete history'' (pg_event E a s i ''credential.delete'' succeeded None)))"
  have trans: "deleted a s i (store w) (store w2)"
    if "?body (w\<lparr>calls := Suc (calls w)\<rparr>) = (Inr x, w2)" for x w2
  proof -
    from that obtain w1 wa where l: "lock_subject E a s (w\<lparr>calls := Suc (calls w)\<rparr>) = (Inr (), w1)"
      and d: "exec E (delete_credential i a s) w1 = (Inr 1, wa)"
      and ev: "pg_event E a s i ''credential.delete'' succeeded None wa = (Inr x, w2)"
      by (auto simp: and_then_Inr fail_Inr wrapping_Inr split: if_splits)
    from ev obtain e where "insert_history e (store wa) = Inr ((), store w2)" "delete_event a s i e"
      by (rule pg_event_Inr) (auto simp: delete_event_def event_details_def)
    with exec_store [OF d] lock_subject_Inr [OF l] show ?thesis by (auto intro: deleted.deleted)
  qed
  from assms have "transaction E ?body w = (r, w')" by (simp add: pg_delete_def)
  then show ?thesis
  proof (cases rule: transaction_cases)
    case (committed x w2)
    with trans [OF committed(1)] show ?thesis by simp
  next
    case (reply_lost x w2 t)
    with trans [OF reply_lost(1)] show ?thesis by simp
  qed simp
qed

interpretation pg: repository_contract "postgres E" for E
proof unfold_locales
  fix a s w r w'
  assume "repo_credentials (postgres E) a s w = (r, w')"
  then show "store w' = store w \<and> (\<forall>cs. r = Inr cs \<longrightarrow> cs = select_credentials a s (store w))"
    by (auto simp: postgres_def pg_credentials_def read_credentials_def exec_def query_def Let_def
        split: option.splits)
qed (use pg_start_law pg_finish_law pg_delete_law pg_finish_stops in
  \<open>auto simp: postgres_def split: option.splits\<close>)

end
