(* ===== verification/Webauthn_Adapter.thy ===== *)
theory Webauthn_Adapter
  imports Contracts
begin

section \<open>The WebAuthn adapter: passkeys/webauthn.go\<close>

text \<open>
  The adapter around \<open>github.com/go-webauthn/webauthn\<close>. The library is not part of the
  repository, so its entry points are the fields of the record \<open>wa_lib\<close>, an argument of every
  definition here: no law about them is assumed. Its types for sessions, options and parsed
  responses are type variables, \<open>wa.Credential\<close> is a record of the fields the adapter reads plus
  the rest, and \<open>*wa.WebAuthn\<close> is the configuration it was made from. Library calls that draw
  randomness or read the clock take what they draw as an argument.
\<close>

record wa_credential =
  wc_id :: bytes
  wc_public_key :: bytes
  wc_transport :: "string list"
  wc_backup_eligible :: bool
  wc_backup_state :: bool
  wc_sign_count :: "32 word"
  wc_aaguid :: bytes
  wc_clone_warning :: bool
  wc_rk :: "bool option"
  wc_rest :: bytes

record wa_config =
  cfg_rpid :: string
  cfg_display_name :: string
  cfg_origins :: "string list"
  cfg_attestation :: string
  cfg_resident_key :: string
  cfg_require_resident_key :: "bool option"
  cfg_user_verification :: string
  cfg_registration_timeout :: "bool \<times> time"
  cfg_login_timeout :: "bool \<times> time"

record wa_user =
  usr_handle :: bytes
  usr_name :: string
  usr_credentials :: "wa_credential list"

datatype cose_key = OKPKey int | EC2Key int | RSAKey int | OtherKey

record ('s, 'o, 'c, 'a) wa_lib =
  lib_new :: "wa_config \<Rightarrow> err + wa_config"
  lib_recommended :: "int list"
  lib_descriptor :: "wa_credential \<Rightarrow> bytes"
  lib_decode_credential :: "bytes \<Rightarrow> err + wa_credential"
  lib_encode_credential :: "wa_credential \<Rightarrow> err + bytes"
  lib_decode_session :: "bytes \<Rightarrow> err + 's"
  lib_encode_session :: "'s \<Rightarrow> err + bytes"
  lib_encode_options :: "'o \<Rightarrow> err + bytes"
  lib_begin_registration ::
    "bytes \<Rightarrow> time \<Rightarrow> wa_config \<Rightarrow> wa_user \<Rightarrow> int list \<Rightarrow> bytes list \<Rightarrow> err + 'o \<times> 's"
  lib_begin_login :: "bytes \<Rightarrow> time \<Rightarrow> wa_config \<Rightarrow> wa_user \<Rightarrow> string \<Rightarrow> err + 'o \<times> 's"
  lib_parse_creation :: "bytes \<Rightarrow> err + 'c"
  lib_creation_origin :: "'c \<Rightarrow> string"
  lib_create_credential :: "time \<Rightarrow> wa_config \<Rightarrow> wa_user \<Rightarrow> 's \<Rightarrow> 'c \<Rightarrow> err + wa_credential"
  lib_parse_assertion :: "bytes \<Rightarrow> err + 'a"
  lib_assertion_origin :: "'a \<Rightarrow> string"
  lib_validate_login :: "time \<Rightarrow> wa_config \<Rightarrow> wa_user \<Rightarrow> 's \<Rightarrow> 'a \<Rightarrow> err + wa_credential"
  lib_parse_public_key :: "bytes \<Rightarrow> err + cose_key"

subsection \<open>Configuration\<close>

definition rp_config :: "application \<Rightarrow> wa_config" where
  "rp_config a =
     \<lparr>cfg_rpid = app_rpid a, cfg_display_name = app_name a, cfg_origins = app_origins a,
      cfg_attestation = ''none'', cfg_resident_key = ''required'',
      cfg_require_resident_key = Some True, cfg_user_verification = ''required'',
      cfg_registration_timeout = (True, CeremonyTTL), cfg_login_timeout = (True, CeremonyTTL)\<rparr>"

type_synonym rps = "string \<rightharpoonup> wa_config"

fun new_webauthn_loop ::
  "('s, 'o, 'c, 'a) wa_lib \<Rightarrow> application list \<Rightarrow> rps \<Rightarrow> err + rps" where
  "new_webauthn_loop lib [] rps = Inr rps"
| "new_webauthn_loop lib (a # as) rps =
     (case lib_new lib (rp_config a) of
        Inl e \<Rightarrow> Inl (Wrapped (''application '' @ app_code a @ '' WebAuthn config'') e)
      | Inr rp \<Rightarrow> new_webauthn_loop lib as (rps(app_code a \<mapsto> rp)))"

definition new_webauthn :: "('s, 'o, 'c, 'a) wa_lib \<Rightarrow> application list \<Rightarrow> err + rps" where
  "new_webauthn lib applications = new_webauthn_loop lib applications Map.empty"

subsection \<open>The user handed to the library\<close>

fun add_credentials ::
  "('s, 'o, 'c, 'a) wa_lib \<Rightarrow> application \<Rightarrow> wa_user \<Rightarrow> credential list \<Rightarrow> err + wa_user" where
  "add_credentials lib a u [] = Inr u"
| "add_credentials lib a u (c # cs) =
     (if cred_rpid c \<noteq> app_rpid a then add_credentials lib a u cs
      else
        (case lib_decode_credential lib (cred_webauthn c) of
           Inl e \<Rightarrow> Inl (Wrapped ''decode stored credential'' e)
         | Inr value \<Rightarrow>
             add_credentials lib a (u\<lparr>usr_credentials := usr_credentials u @ [value]\<rparr>) cs))"

definition make_webauthn_user ::
  "env \<Rightarrow> ('s, 'o, 'c, 'a) wa_lib \<Rightarrow> application \<Rightarrow> string \<Rightarrow> string \<Rightarrow> credential list
    \<Rightarrow> err + wa_user"
where
  "make_webauthn_user E lib a subject name credentials =
     add_credentials lib a
       \<lparr>usr_handle = user_handle (sha256 E) (app_code a) subject, usr_name = name,
        usr_credentials = []\<rparr> credentials"

subsection \<open>Begin\<close>

definition adapter_begin ::
  "env \<Rightarrow> ('s, 'o, 'c, 'a) wa_lib \<Rightarrow> rps \<Rightarrow> kind \<Rightarrow> application \<Rightarrow> string \<Rightarrow> string
    \<Rightarrow> credential list \<Rightarrow> (bytes \<times> bytes) eff"
where
  "adapter_begin E lib rps k a subject name credentials =
     (case rps (app_code a) of
        None \<Rightarrow> fail (Code ApplicationNotFound)
      | Some rp \<Rightarrow>
          and_then (of_result (make_webauthn_user E lib a subject name credentials)) (\<lambda>u.
          and_then (read_random E) (\<lambda>entropy.
          and_then (read_clock E) (\<lambda>now.
          and_then
            (wrapping ''begin WebAuthn''
              (of_result
                (if k = Registration
                 then lib_begin_registration lib entropy now rp u (lib_recommended lib)
                   (map (lib_descriptor lib) (usr_credentials u))
                 else lib_begin_login lib entropy now rp u ''required''))) (\<lambda>(options, session).
          and_then (of_result (lib_encode_options lib options)) (\<lambda>encoded.
          and_then (of_result (lib_encode_session lib session)) (\<lambda>state.
            ret (encoded, state))))))))"

subsection \<open>Verify\<close>

definition invalid :: "kind \<Rightarrow> err \<Rightarrow> err" where
  "invalid k cause = Diagnostic (kind_invalid k) (Some cause)"

definition registration_value ::
  "('s, 'o, 'c, 'a) wa_lib \<Rightarrow> application \<Rightarrow> wa_config \<Rightarrow> wa_user \<Rightarrow> 's \<Rightarrow> bytes \<Rightarrow> time
    \<Rightarrow> err + wa_credential"
where
  "registration_value lib a rp u session response now =
     (case lib_parse_creation lib response of
        Inl e \<Rightarrow> Inl (invalid Registration e)
      | Inr parsed \<Rightarrow>
          if \<not> List.member (app_origins a) (lib_creation_origin lib parsed)
          then Inl (invalid Registration (Plain ''origin mismatch''))
          else
            (case lib_create_credential lib now rp u session parsed of
               Inl e \<Rightarrow> Inl (invalid Registration e)
             | Inr value \<Rightarrow>
                 if wc_rk value = Some False
                 then Inl (invalid Registration (Plain ''credential is not discoverable''))
                 else Inr value))"

definition authentication_value ::
  "('s, 'o, 'c, 'a) wa_lib \<Rightarrow> kind \<Rightarrow> application \<Rightarrow> wa_config \<Rightarrow> wa_user \<Rightarrow> 's \<Rightarrow> bytes \<Rightarrow> time
    \<Rightarrow> err + wa_credential"
where
  "authentication_value lib k a rp u session response now =
     (case lib_parse_assertion lib response of
        Inl e \<Rightarrow> Inl (invalid k e)
      | Inr parsed \<Rightarrow>
          if \<not> List.member (app_origins a) (lib_assertion_origin lib parsed)
          then Inl (invalid k (Plain ''origin mismatch''))
          else
            (case lib_validate_login lib now rp u session parsed of
               Inl e \<Rightarrow> Inl (invalid k e)
             | Inr value \<Rightarrow> Inr value))"

definition key_algorithm :: "cose_key \<Rightarrow> int" where
  "key_algorithm key =
     (case key of OKPKey n \<Rightarrow> n | EC2Key n \<Rightarrow> n | RSAKey n \<Rightarrow> n | OtherKey \<Rightarrow> 0)"

definition zero_time :: time where
  "zero_time = seconds (-62135596800)"

definition map_credential ::
  "('s, 'o, 'c, 'a) wa_lib \<Rightarrow> wa_credential \<Rightarrow> err + credential" where
  "map_credential lib c =
     (case lib_parse_public_key lib (wc_public_key c) of
        Inl e \<Rightarrow> Inl e
      | Inr key \<Rightarrow>
          let alg = key_algorithm key in
          if \<not> List.member (lib_recommended lib) alg
          then Inl (Code (kind_invalid Registration))
          else
            (case lib_encode_credential lib c of
               Inl e \<Rightarrow> Inl e
             | Inr data \<Rightarrow>
                 Inr \<lparr>cred_id = '''', cred_application = '''', cred_subject = '''', cred_rpid = '''',
                   cred_webauthn_id = wc_id c, cred_public_key = wc_public_key c,
                   cred_algorithm = alg, cred_sign_count = wc_sign_count c,
                   cred_transports = wc_transport c, cred_aaguid = wc_aaguid c,
                   cred_backup_eligible = wc_backup_eligible c,
                   cred_backup_state = wc_backup_state c, cred_webauthn = data,
                   cred_created_at = zero_time, cred_used_at = None\<rparr>))"

definition known_credential :: "ceremony \<Rightarrow> credential list \<Rightarrow> credential \<Rightarrow> credential" where
  "known_credential c credentials mapped =
     (case find (\<lambda>old. cred_webauthn_id old = cred_webauthn_id mapped
               \<and> cred_rpid old = cer_rpid c) credentials of
        None \<Rightarrow> mapped
      | Some old \<Rightarrow> mapped\<lparr>cred_id := cred_id old, cred_created_at := cred_created_at old\<rparr>)"

text \<open>The end of \<open>Verify\<close>, once the library has accepted the response with \<open>value\<close>.\<close>

definition adapter_map ::
  "env \<Rightarrow> ('s, 'o, 'c, 'a) wa_lib \<Rightarrow> kind \<Rightarrow> ceremony \<Rightarrow> credential list \<Rightarrow> wa_credential
    \<Rightarrow> credential eff"
where
  "adapter_map E lib k c credentials value =
     (if wc_clone_warning value
      then fail (invalid k (Plain ''authenticator clone warning''))
      else
        (case map_credential lib value of
           Inl e \<Rightarrow> fail (invalid k e)
         | Inr m \<Rightarrow>
             let mapped = m\<lparr>cred_application := cer_application c,
                   cred_subject := cer_subject c, cred_rpid := cer_rpid c\<rparr> in
             if k = Registration
             then and_then (new_uuid E) (\<lambda>i. ret (mapped\<lparr>cred_id := i\<rparr>))
             else
               (let found = known_credential c credentials mapped in
                if cred_id found = ''''
                then fail (invalid k (Plain ''credential was not found for subject''))
                else ret found)))"

definition adapter_verify ::
  "env \<Rightarrow> ('s, 'o, 'c, 'a) wa_lib \<Rightarrow> rps \<Rightarrow> kind \<Rightarrow> application \<Rightarrow> ceremony \<Rightarrow> credential list
    \<Rightarrow> bytes \<Rightarrow> credential eff"
where
  "adapter_verify E lib rps k a c credentials response =
     (case rps (app_code a) of
        None \<Rightarrow> fail (Code ApplicationNotFound)
      | Some rp \<Rightarrow>
          and_then (of_result
            (make_webauthn_user E lib a (cer_subject c) (cer_subject c) credentials)) (\<lambda>u.
          and_then (wrapping ''decode stored ceremony''
            (of_result (lib_decode_session lib (cer_webauthn c)))) (\<lambda>session.
          and_then (read_clock E) (\<lambda>now.
          and_then (of_result
            (if k = Registration then registration_value lib a rp u session response now
             else authentication_value lib k a rp u session response now)) (\<lambda>value.
            adapter_map E lib k c credentials value)))))"

definition webauthn_adapter ::
  "env \<Rightarrow> ('s, 'o, 'c, 'a) wa_lib \<Rightarrow> rps \<Rightarrow> webauthn" where
  "webauthn_adapter E lib rps =
     \<lparr>wa_begin = adapter_begin E lib rps, wa_verify = adapter_verify E lib rps\<rparr>"

subsection \<open>What a successful verification implies\<close>

definition client_value ::
  "('s, 'o, 'c, 'a) wa_lib \<Rightarrow> kind \<Rightarrow> application \<Rightarrow> wa_config \<Rightarrow> wa_user \<Rightarrow> 's \<Rightarrow> bytes \<Rightarrow> time
    \<Rightarrow> err + wa_credential"
where
  "client_value lib k a rp u session response now =
     (if k = Registration then registration_value lib a rp u session response now
      else authentication_value lib k a rp u session response now)"

text \<open>What the adapter checks of a response before it maps the library's credential \<open>v\<close>.\<close>

definition response_accepted ::
  "('s, 'o, 'c, 'a) wa_lib \<Rightarrow> kind \<Rightarrow> application \<Rightarrow> wa_config \<Rightarrow> wa_user \<Rightarrow> 's \<Rightarrow> bytes \<Rightarrow> time
    \<Rightarrow> wa_credential \<Rightarrow> bool"
where
  "response_accepted lib k a rp u session response now v \<longleftrightarrow>
     (if k = Registration
      then wc_rk v \<noteq> Some False
        \<and> (\<exists>p. lib_parse_creation lib response = Inr p
            \<and> lib_creation_origin lib p \<in> set (app_origins a)
            \<and> lib_create_credential lib now rp u session p = Inr v)
      else
        (\<exists>p. lib_parse_assertion lib response = Inr p
           \<and> lib_assertion_origin lib p \<in> set (app_origins a)
           \<and> lib_validate_login lib now rp u session p = Inr v))"

lemma client_value_Inr:
  "client_value lib k a rp u session response now = Inr v \<longleftrightarrow>
     response_accepted lib k a rp u session response now v"
  by (auto simp: client_value_def response_accepted_def registration_value_def
      authentication_value_def split: sum.splits)

lemma adapter_map_Inr:
  assumes "adapter_map E lib k c cs v w = (Inr cr, w')"
  obtains m i where "\<not> wc_clone_warning v" "map_credential lib v = Inr m"
    "cr = (let mapped = m\<lparr>cred_application := cer_application c, cred_subject := cer_subject c,
        cred_rpid := cer_rpid c\<rparr> in
      if k = Registration then mapped\<lparr>cred_id := i\<rparr> else known_credential c cs mapped)"
    "k = Registration \<or> cred_id cr \<noteq> ''''"
proof (cases "map_credential lib v")
  case (Inr m)
  with assms that show ?thesis
    by (cases "k = Registration")
       (auto simp: adapter_map_def success Let_def split: if_splits)
qed (use assms in \<open>auto simp: adapter_map_def success split: if_splits\<close>)

lemma adapter_verify_Inr:
  assumes "adapter_verify E lib rps k a c cs resp w = (Inr cr, w')"
  obtains rp u session now v w1 where "rps (app_code a) = Some rp"
    "make_webauthn_user E lib a (cer_subject c) (cer_subject c) cs = Inr u"
    "lib_decode_session lib (cer_webauthn c) = Inr session"
    "client_value lib k a rp u session resp now = Inr v"
    "adapter_map E lib k c cs v w1 = (Inr cr, w')"
  using assms unfolding adapter_verify_def
  by (auto simp: success client_value_def split: option.splits)

lemma map_credential_Inr:
  assumes "map_credential lib v = Inr m"
  shows "cred_algorithm m \<in> set (lib_recommended lib) \<and> cred_webauthn_id m = wc_id v
    \<and> cred_public_key m = wc_public_key v \<and> cred_sign_count m = wc_sign_count v
    \<and> cred_id m = '''' \<and> lib_encode_credential lib v = Inr (cred_webauthn m)"
  using assms by (auto simp: map_credential_def Let_def split: sum.splits if_splits)

lemma known_credential_scope [simp]:
  "cred_application (known_credential c cs m) = cred_application m"
  "cred_subject (known_credential c cs m) = cred_subject m"
  "cred_rpid (known_credential c cs m) = cred_rpid m"
  "cred_webauthn_id (known_credential c cs m) = cred_webauthn_id m"
  "cred_algorithm (known_credential c cs m) = cred_algorithm m"
  "cred_sign_count (known_credential c cs m) = cred_sign_count m"
  by (simp_all add: known_credential_def split: option.splits)

lemma known_credential_found:
  assumes "cred_id (known_credential c cs m) \<noteq> cred_id m"
  obtains old where "old \<in> set cs" "cred_webauthn_id old = cred_webauthn_id m"
    "cred_rpid old = cer_rpid c" "cred_id (known_credential c cs m) = cred_id old"
  using assms by (auto simp: known_credential_def dest: find_SomeD split: option.splits)

lemma keeps_store_wrapping [frame]: "keeps_store m \<Longrightarrow> keeps_store (wrapping t m)"
  by (auto simp: keeps_store_def wrapping_def split: prod.splits sum.splits) (metis snd_conv)+

lemma adapter_begin_frame: "keeps_store (adapter_begin E lib rps k a s n cs)"
  unfolding adapter_begin_def
  by (auto intro!: frame split: option.splits prod.splits)

lemma adapter_verify_frame: "keeps_store (adapter_verify E lib rps k a c cs resp)"
  unfolding adapter_verify_def adapter_map_def Let_def
  by (auto intro!: frame split: option.splits sum.splits)

interpretation adapter: webauthn_contract "webauthn_adapter E lib rps" for E lib rps
proof unfold_locales
  fix k a c cs resp w cr w'
  assume "wa_verify (webauthn_adapter E lib rps) k a c cs resp w = (Inr cr, w')"
  then have "adapter_verify E lib rps k a c cs resp w = (Inr cr, w')"
    by (simp add: webauthn_adapter_def)
  then show "cred_application cr = cer_application c \<and> cred_subject cr = cer_subject c
      \<and> cred_rpid cr = cer_rpid c"
    by (elim adapter_verify_Inr adapter_map_Inr) (auto simp: Let_def)
next
  fix a c cs resp w cr w'
  assume "wa_verify (webauthn_adapter E lib rps) Authentication a c cs resp w = (Inr cr, w')"
  then have "adapter_verify E lib rps Authentication a c cs resp w = (Inr cr, w')"
    by (simp add: webauthn_adapter_def)
  then obtain m where cr: "cr = known_credential c cs m" and m: "cred_id m = ''''"
    and "cred_id cr \<noteq> ''''"
    by (elim adapter_verify_Inr adapter_map_Inr) (auto dest: map_credential_Inr simp: Let_def)
  then show "\<exists>old \<in> set cs. cred_id cr = cred_id old \<and> cred_webauthn_id cr = cred_webauthn_id old
      \<and> cred_rpid old = cer_rpid c"
    by (metis known_credential_found known_credential_scope(4))
qed (simp_all add: webauthn_adapter_def adapter_begin_frame adapter_verify_frame)

end
