(* ===== verification/Go_Json.thy ===== *)
theory Go_Json
  imports Go_Strings
begin

section \<open>encoding/json/jsontext: the token decoder\<close>

text \<open>
  The decoder the server reads requests with, as the token machine \<open>jsontext.Decoder\<close> is: a stack
  of open containers and a function that reads one token. Commas and colons belong to the token
  that follows them. The defaults of the package apply: names are unique within an object,
  strings are valid UTF-8, escaped surrogates come in pairs, at most 10000 containers are open at
  once. At top level the decoder accepts a sequence of values.
\<close>

datatype jtoken =
    TNull | TTrue | TFalse
  | TString string
  | TNumber string
  | TBeginObject | TEndObject | TBeginArray | TEndArray

datatype frame =
    FArray bool \<comment> \<open>whether an element has been read\<close>
  | FObject "string list" bool \<comment> \<open>the names read; whether a value is due\<close>

type_synonym jstack = "frame list"

datatype jread = JEof | JError | JToken jtoken jstack string

definition is_json_space :: "char \<Rightarrow> bool" where
  "is_json_space c \<longleftrightarrow> byte_nat c \<in> {9, 10, 13, 32}"

fun skip_ws :: "string \<Rightarrow> string" where
  "skip_ws [] = []"
| "skip_ws (c # r) = (if is_json_space c then skip_ws r else c # r)"

lemma length_skip_ws: "length (skip_ws s) \<le> length s"
  by (induction s) auto

lemma skip_ws_Cons: "skip_ws s = c # r \<Longrightarrow> \<not> is_json_space c \<and> length r < length s"
  by (induction s) (auto split: if_splits)

subsection \<open>Strings\<close>

definition utf8_encode :: "nat \<Rightarrow> bytes" where
  "utf8_encode n = map nat_byte
     (if n < 128 then [n]
      else if n < 2048 then [192 + n div 64, 128 + n mod 64]
      else if n < 65536 then [224 + n div 4096, 128 + n div 64 mod 64, 128 + n mod 64]
      else [240 + n div 262144, 128 + n div 4096 mod 64, 128 + n div 64 mod 64, 128 + n mod 64])"

definition hex4 :: "char \<Rightarrow> char \<Rightarrow> char \<Rightarrow> char \<Rightarrow> nat option" where
  "hex4 a b c d =
     (case (hex_value a, hex_value b, hex_value c, hex_value d) of
        (Some w, Some x, Some y, Some z) \<Rightarrow> Some (4096 * w + 256 * x + 16 * y + z)
      | _ \<Rightarrow> None)"

definition simple_escape :: "char \<Rightarrow> char option" where
  "simple_escape e =
     (let n = byte_nat e in
      if n = 34 \<or> n = 92 \<or> n = 47 then Some e
      else if n = 98 then Some (nat_byte 8)
      else if n = 102 then Some (nat_byte 12)
      else if n = 110 then Some (nat_byte 10)
      else if n = 114 then Some (nat_byte 13)
      else if n = 116 then Some (nat_byte 9)
      else None)"

definition prepend :: "string \<Rightarrow> (string \<times> string) option \<Rightarrow> (string \<times> string) option" where
  "prepend p = map_option (\<lambda>(x, r). (p @ x, r))"

text \<open>The body of a string, from after the opening quote to after the closing one.\<close>

fun scan_string :: "string \<Rightarrow> (string \<times> string) option" where
  "scan_string [] = None"
| "scan_string (c # r) =
     (if byte_nat c = 34 then Some ([], r)
      else if byte_nat c = 92 then
        (case r of
           [] \<Rightarrow> None
         | e # r2 \<Rightarrow>
             if byte_nat e = 117 then
               (case r2 of
                  a1 # a2 # a3 # a4 # r3 \<Rightarrow>
                    (case hex4 a1 a2 a3 a4 of
                       None \<Rightarrow> None
                     | Some n \<Rightarrow>
                         if 55296 \<le> n \<and> n < 56320 then
                           (case r3 of
                              s1 # s2 # b1 # b2 # b3 # b4 # r4 \<Rightarrow>
                                (case hex4 b1 b2 b3 b4 of
                                   None \<Rightarrow> None
                                 | Some m \<Rightarrow>
                                     if byte_nat s1 = 92 \<and> byte_nat s2 = 117 \<and> 56320 \<le> m
                                       \<and> m < 57344
                                     then prepend
                                       (utf8_encode (65536 + (n - 55296) * 1024 + (m - 56320)))
                                       (scan_string r4)
                                     else None)
                            | _ \<Rightarrow> None)
                         else if 56320 \<le> n \<and> n < 57344 then None
                         else prepend (utf8_encode n) (scan_string r3))
                | _ \<Rightarrow> None)
             else
               (case simple_escape e of
                  None \<Rightarrow> None
                | Some x \<Rightarrow> prepend [x] (scan_string r2)))
      else if byte_nat c < 32 then None
      else prepend [c] (scan_string r))"

lemma prepend_Some:
  "prepend p x = Some (t, r) \<longleftrightarrow> (\<exists>u. x = Some (u, r) \<and> t = p @ u)"
  by (auto simp: prepend_def)

lemma scan_string_shorter: "scan_string s = Some (t, r) \<Longrightarrow> length r < length s"
proof (induction s arbitrary: t rule: measure_induct_rule [where f = length])
  case (less s)
  then obtain c r' where "s = c # r'" by (cases s) auto
  with less.prems show ?case
    by (auto simp: prepend_Some dest!: less.IH [rotated]
        split: if_splits list.splits option.splits)
qed

subsection \<open>Numbers\<close>

definition is_digit :: "char \<Rightarrow> bool" where
  "is_digit c \<longleftrightarrow> 48 \<le> byte_nat c \<and> byte_nat c \<le> 57"

definition take_digits :: "string \<Rightarrow> (string \<times> string) option" where
  "take_digits s =
     (let d = takeWhile is_digit s in if d = [] then None else Some (d, dropWhile is_digit s))"

definition scan_integer :: "string \<Rightarrow> (string \<times> string) option" where
  "scan_integer s =
     (case s of
        [] \<Rightarrow> None
      | c # r \<Rightarrow> if byte_nat c = 48 then Some ([c], r) else take_digits s)"

definition scan_fraction :: "string \<Rightarrow> (string \<times> string) option" where
  "scan_fraction s =
     (case s of
        [] \<Rightarrow> Some ([], [])
      | c # r \<Rightarrow> if byte_nat c = 46 then prepend [c] (take_digits r) else Some ([], s))"

definition scan_exponent :: "string \<Rightarrow> (string \<times> string) option" where
  "scan_exponent s =
     (case s of
        [] \<Rightarrow> Some ([], [])
      | c # r \<Rightarrow>
          if byte_nat c = 69 \<or> byte_nat c = 101 then
            (case r of
               [] \<Rightarrow> None
             | g # r2 \<Rightarrow>
                 if byte_nat g = 43 \<or> byte_nat g = 45 then prepend [c, g] (take_digits r2)
                 else prepend [c] (take_digits r))
          else Some ([], s))"

definition scan_number :: "string \<Rightarrow> (string \<times> string) option" where
  "scan_number s =
     (let sign = (if s \<noteq> [] \<and> byte_nat (hd s) = 45 then [hd s] else []);
          s1 = drop (length sign) s in
      case scan_integer s1 of
        None \<Rightarrow> None
      | Some (i, s2) \<Rightarrow>
          (case scan_fraction s2 of
             None \<Rightarrow> None
           | Some (f, s3) \<Rightarrow>
               (case scan_exponent s3 of
                  None \<Rightarrow> None
                | Some (e, s4) \<Rightarrow> Some (sign @ i @ f @ e, s4))))"

lemma take_digits_shorter: "take_digits s = Some (d, r) \<Longrightarrow> length r < length s"
proof -
  assume "take_digits s = Some (d, r)"
  then have "takeWhile is_digit s \<noteq> []" "r = dropWhile is_digit s"
    by (auto simp: take_digits_def Let_def split: if_splits)
  moreover have "length s = length (takeWhile is_digit s) + length (dropWhile is_digit s)"
    by (metis length_append takeWhile_dropWhile_id)
  ultimately show ?thesis by simp
qed

lemma scan_integer_shorter: "scan_integer s = Some (i, r) \<Longrightarrow> length r < length s"
  by (auto simp: scan_integer_def dest: take_digits_shorter split: list.splits if_splits)

lemma scan_fraction_le: "scan_fraction s = Some (f, r) \<Longrightarrow> length r \<le> length s"
  by (auto simp: scan_fraction_def prepend_Some dest!: take_digits_shorter
      split: list.splits if_splits)

lemma scan_exponent_le: "scan_exponent s = Some (f, r) \<Longrightarrow> length r \<le> length s"
  by (auto simp: scan_exponent_def prepend_Some dest!: take_digits_shorter
      split: list.splits if_splits)

lemma scan_number_shorter:
  assumes "scan_number s = Some (x, r)"
  shows "length r < length s"
proof -
  let ?sign = "if s \<noteq> [] \<and> byte_nat (hd s) = 45 then [hd s] else []"
  from assms obtain i s2 f s3 e where "scan_integer (drop (length ?sign) s) = Some (i, s2)"
    "scan_fraction s2 = Some (f, s3)" "scan_exponent s3 = Some (e, r)"
    by (auto simp: scan_number_def Let_def split: option.splits)
  then have "length s2 < length (drop (length ?sign) s)" "length s3 \<le> length s2"
    "length r \<le> length s3"
    using scan_integer_shorter scan_fraction_le scan_exponent_le by blast+
  then show ?thesis by (simp split: if_splits)
qed

subsection \<open>Tokens\<close>

definition max_nesting :: nat where
  "max_nesting = 10000"

definition value_done :: "jstack \<Rightarrow> jstack" where
  "value_done st =
     (case st of
        [] \<Rightarrow> []
      | FArray _ # up \<Rightarrow> FArray True # up
      | FObject ns _ # up \<Rightarrow> FObject ns False # up)"

definition literal :: "string \<Rightarrow> jtoken \<Rightarrow> jstack \<Rightarrow> string \<Rightarrow> jread" where
  "literal w t st s =
     (if has_prefix s w then JToken t (value_done st) (drop (length w) s) else JError)"

definition open_container :: "jtoken \<Rightarrow> frame \<Rightarrow> jstack \<Rightarrow> string \<Rightarrow> jread" where
  "open_container t f st r =
     (if length st = max_nesting then JError else JToken t (f # value_done st) r)"

definition read_value :: "jstack \<Rightarrow> string \<Rightarrow> jread" where
  "read_value st s =
     (case s of
        [] \<Rightarrow> JError
      | c # r \<Rightarrow>
          if c = CHR ''{'' then open_container TBeginObject (FObject [] False) st r
          else if c = CHR ''['' then open_container TBeginArray (FArray False) st r
          else if byte_nat c = 34 then
            (case scan_string r of
               None \<Rightarrow> JError
             | Some (t, r2) \<Rightarrow>
                 if utf8_valid t then JToken (TString t) (value_done st) r2 else JError)
          else if c = CHR ''n'' then literal ''null'' TNull st s
          else if c = CHR ''t'' then literal ''true'' TTrue st s
          else if c = CHR ''f'' then literal ''false'' TFalse st s
          else
            (case scan_number s of
               None \<Rightarrow> JError
             | Some (t, r2) \<Rightarrow> JToken (TNumber t) (value_done st) r2))"

definition read_name :: "string list \<Rightarrow> jstack \<Rightarrow> string \<Rightarrow> jread" where
  "read_name ns up s =
     (case s of
        [] \<Rightarrow> JError
      | c # r \<Rightarrow>
          if byte_nat c = 34 then
            (case scan_string r of
               None \<Rightarrow> JError
             | Some (t, r2) \<Rightarrow>
                 if utf8_valid t \<and> t \<notin> set ns then JToken (TString t) (FObject (t # ns) True # up) r2
                 else JError)
          else JError)"

fun read_token :: "jstack \<Rightarrow> string \<Rightarrow> jread" where
  "read_token [] s = (if skip_ws s = [] then JEof else read_value [] (skip_ws s))"
| "read_token (FArray started # up) s =
     (case skip_ws s of
        [] \<Rightarrow> JError
      | c # r \<Rightarrow>
          if c = CHR '']'' then JToken TEndArray up r
          else if \<not> started then read_value (FArray started # up) (c # r)
          else if c = CHR '','' then read_value (FArray started # up) (skip_ws r)
          else JError)"
| "read_token (FObject ns False # up) s =
     (case skip_ws s of
        [] \<Rightarrow> JError
      | c # r \<Rightarrow>
          if c = CHR ''}'' then JToken TEndObject up r
          else if ns = [] then read_name ns up (c # r)
          else if c = CHR '','' then read_name ns up (skip_ws r)
          else JError)"
| "read_token (FObject ns True # up) s =
     (case skip_ws s of
        [] \<Rightarrow> JError
      | c # r \<Rightarrow> if c = CHR '':'' then read_value (FObject ns True # up) (skip_ws r) else JError)"

lemma read_value_shorter: "read_value st s = JToken t st' r \<Longrightarrow> length r < length s"
proof -
  assume tok: "read_value st s = JToken t st' r"
  then obtain c s' where s: "s = c # s'" by (auto simp: read_value_def split: list.splits)
  have "length (drop 4 s) < length s" "length (drop 5 s) < length s" by (auto simp: s)
  with tok s show ?thesis
    by (auto simp: read_value_def open_container_def literal_def
        dest: scan_string_shorter scan_number_shorter split: if_splits option.splits)
qed

lemma read_name_shorter: "read_name ns up s = JToken t st' r \<Longrightarrow> length r < length s"
  by (auto simp: read_name_def dest: scan_string_shorter split: list.splits if_splits option.splits)

lemma read_token_shorter: "read_token st s = JToken t st' r \<Longrightarrow> length r < length s"
proof (induction st s rule: read_token.induct)
  case (1 s)
  then show ?case using length_skip_ws [of s] read_value_shorter
    by (fastforce split: if_splits)
next
  case (2 started up s)
  then obtain c q where q: "skip_ws s = c # q" by (auto split: list.splits)
  have "length q < length s" "length (skip_ws q) < length s"
    using skip_ws_Cons [OF q] length_skip_ws [of q] by auto
  with 2 q show ?case
    by (auto dest!: read_value_shorter split: if_splits)
next
  case (3 ns up s)
  then obtain c q where q: "skip_ws s = c # q" by (auto split: list.splits)
  have "length q < length s" "length (skip_ws q) < length s"
    using skip_ws_Cons [OF q] length_skip_ws [of q] by auto
  with 3 q show ?case
    by (auto dest!: read_name_shorter split: if_splits)
next
  case (4 ns up s)
  then obtain c q where q: "skip_ws s = c # q" by (auto split: list.splits)
  have "length (skip_ws q) < length s"
    using skip_ws_Cons [OF q] length_skip_ws [of q] by auto
  with 4 q show ?case
    by (auto dest!: read_value_shorter split: if_splits)
qed

subsection \<open>Whole values\<close>

text \<open>
  Reads tokens until at most \<open>d\<close> containers are open: one value when the decoder stands before a
  value with \<open>d\<close> containers open. The result is the new stack and the unread text.
\<close>

function skip_value :: "nat \<Rightarrow> jstack \<Rightarrow> string \<Rightarrow> (jstack \<times> string) option" where
  "skip_value d st s =
     (case read_token st s of
        JToken t st' r \<Rightarrow> if length st' \<le> d then Some (st', r) else skip_value d st' r
      | _ \<Rightarrow> None)"
  by pat_completeness auto
termination
  by (relation "measure (\<lambda>(d, st, s). length s)") (auto dest: read_token_shorter)

declare skip_value.simps [simp del]

definition json_valid :: "bytes \<Rightarrow> bool" where
  "json_valid s =
     (case skip_value 0 [] s of None \<Rightarrow> False | Some (st, r) \<Rightarrow> skip_ws r = [])"

lemma skip_value_shorter: "skip_value d st s = Some (st', r) \<Longrightarrow> length r < length s"
proof (induction d st s rule: skip_value.induct)
  case (1 d st s)
  show ?case
  proof (cases "read_token st s")
    case (JToken t st1 r1)
    show ?thesis
    proof (cases "length st1 \<le> d")
      case True
      with 1 JToken show ?thesis
        by (simp add: skip_value.simps [of d st s]) (metis read_token_shorter)
    next
      case False
      with 1 JToken show ?thesis
        by (simp add: skip_value.simps [of d st s]) (metis order.strict_trans read_token_shorter)
    qed
  qed (use 1 in \<open>simp_all add: skip_value.simps [of d st s]\<close>)
qed

subsection \<open>A valid value is not blank\<close>

lemma json_valid_not_blank: "json_valid s \<Longrightarrow> skip_ws s \<noteq> []"
  by (auto simp: json_valid_def skip_value.simps [of 0 "[]" s] split: jread.splits)

end
