(* ===== verification/Service.thy ===== *)
theory Service
  imports Postgres Webauthn_Adapter Go_Json
begin

section \<open>The capability API: passkeys/service.go\<close>

text \<open>
  \<open>Service\<close> over any repository and any WebAuthn implementation, as in the code, and what its
  operations promise when both keep their contracts. The two closures \<open>Finish\<close> hands to the
  repository are definitions of their own. Indexing the trimmed response out of range would
  panic; the model keeps that branch.
\<close>

record service =
  svc_applications :: "string \<rightharpoonup> application"
  svc_repository :: repository
  svc_webauthn :: webauthn

definition new_service :: "application list \<Rightarrow> repository \<Rightarrow> webauthn \<Rightarrow> service" where
  "new_service applications repository webauthn =
     \<lparr>svc_applications = foldl (\<lambda>apps a. apps(app_code a \<mapsto> a)) Map.empty applications,
      svc_repository = repository, svc_webauthn = webauthn\<rparr>"

definition service_authorize :: "service \<Rightarrow> string \<Rightarrow> string \<Rightarrow> err + application" where
  "service_authorize s code fingerprint =
     (case svc_applications s code of
        None \<Rightarrow> Inl (Code ApplicationNotFound)
      | Some a \<Rightarrow>
          (case app_authorize a fingerprint of Some e \<Rightarrow> Inl e | None \<Rightarrow> Inr a))"

subsection \<open>Start\<close>

definition valid_display_name :: "string \<Rightarrow> bool" where
  "valid_display_name s \<longleftrightarrow> length s \<le> 256 \<and> utf8_valid s"

definition new_ceremony ::
  "string \<Rightarrow> string \<Rightarrow> string \<Rightarrow> string \<Rightarrow> bytes \<Rightarrow> bytes \<Rightarrow> time \<Rightarrow> ceremony"
where
  "new_ceremony i application subject rpid hash state now =
     \<lparr>cer_id = i, cer_application = application, cer_subject = subject, cer_rpid = rpid,
      cer_token_hash = hash, cer_webauthn = state, cer_state = pending, cer_created_at = now,
      cer_expires_at = now + CeremonyTTL\<rparr>"

text \<open>The end of \<open>Start\<close>: the token, the ceremony and its insertion.\<close>

definition start_ceremony ::
  "env \<Rightarrow> service \<Rightarrow> kind \<Rightarrow> string \<Rightarrow> string \<Rightarrow> application \<Rightarrow> bytes \<Rightarrow> bytes \<Rightarrow> start_result eff"
where
  "start_ceremony E s k application subject a options state =
     and_then (read_random E) (\<lambda>b.
     let token = new_token b;
         hash = (case token_hash (sha256 E) token of Inl _ \<Rightarrow> [] | Inr h \<Rightarrow> h) in
     and_then (read_clock E) (\<lambda>now.
     and_then (new_uuid E) (\<lambda>i.
     let c = new_ceremony i application subject (app_rpid a) hash state now in
     and_then (repo_start (svc_repository s) k c) (\<lambda>_.
       ret \<lparr>sr_token = token, sr_options = options, sr_expires_at = cer_expires_at c\<rparr>))))"

definition service_start ::
  "env \<Rightarrow> service \<Rightarrow> kind \<Rightarrow> string \<Rightarrow> string \<Rightarrow> string \<Rightarrow> string \<Rightarrow> start_result eff"
where
  "service_start E s k application subject display_name fingerprint =
     (if \<not> kind_valid k \<or> \<not> valid_application_code application \<or> \<not> valid_subject subject
         \<or> \<not> valid_display_name display_name
      then fail (Code InvalidRequest)
      else
        and_then (of_result (service_authorize s application fingerprint)) (\<lambda>a.
        and_then (repo_credentials (svc_repository s) application subject) (\<lambda>credentials.
          if k = Authentication \<and> length credentials = 0 then fail (Code (kind_invalid k))
          else
            (let name = (if display_name = '''' then subject else display_name) in
             and_then (wa_begin (svc_webauthn s) k a subject name credentials) (\<lambda>(options, state).
               start_ceremony E s k application subject a options state)))))"

subsection \<open>Finish\<close>

definition finish_authorize :: "service \<Rightarrow> kind \<Rightarrow> string \<Rightarrow> ceremony \<Rightarrow> err option" where
  "finish_authorize s k fingerprint c =
     (case service_authorize s (cer_application c) fingerprint of
        Inl e \<Rightarrow> Some e
      | Inr a \<Rightarrow> if app_rpid a \<noteq> cer_rpid c then Some (Code (kind_invalid k)) else None)"

definition zero_application :: application where
  "zero_application =
     \<lparr>app_code = '''', app_name = '''', app_rpid = '''', app_origins = [], app_clients = []\<rparr>"

definition finish_verifier ::
  "service \<Rightarrow> kind \<Rightarrow> bytes \<Rightarrow> ceremony \<Rightarrow> credential list \<Rightarrow> credential eff"
where
  "finish_verifier s k response c credentials =
     wa_verify (svc_webauthn s) k
       (case svc_applications s (cer_application c) of None \<Rightarrow> zero_application | Some a \<Rightarrow> a)
       c credentials response"

definition service_finish ::
  "env \<Rightarrow> service \<Rightarrow> kind \<Rightarrow> string \<Rightarrow> bytes \<Rightarrow> string \<Rightarrow> finish_result eff"
where
  "service_finish E s k token response fingerprint =
     (if \<not> kind_valid k \<or> length response = 0 \<or> length response > 64 * 1024 \<or> \<not> json_valid response
      then fail (Code InvalidRequest)
      else
        (case trim_space response of
           [] \<Rightarrow> fail (Panic ''index out of range'')
         | b # _ \<Rightarrow>
             if b \<noteq> CHR ''{'' then fail (Code InvalidRequest)
             else
               and_then (of_result (token_hash (sha256 E) token)) (\<lambda>hash.
               and_then (repo_finish (svc_repository s) k hash (finish_authorize s k fingerprint)
                   (finish_verifier s k response)) (\<lambda>credential.
                 ret \<lparr>fr_application = cred_application credential,
                      fr_subject = cred_subject credential, fr_credential = cred_id credential\<rparr>))))"

subsection \<open>Credentials and Delete\<close>

definition service_credentials ::
  "service \<Rightarrow> string \<Rightarrow> string \<Rightarrow> string \<Rightarrow> credential list eff"
where
  "service_credentials s application subject fingerprint =
     (if \<not> valid_application_code application \<or> \<not> valid_subject subject
      then fail (Code InvalidRequest)
      else
        and_then (of_result (service_authorize s application fingerprint)) (\<lambda>_.
          repo_credentials (svc_repository s) application subject))"

definition service_delete ::
  "service \<Rightarrow> string \<Rightarrow> string \<Rightarrow> string \<Rightarrow> string \<Rightarrow> unit eff"
where
  "service_delete s application subject i fingerprint =
     (if \<not> valid_application_code application \<or> \<not> valid_subject subject
      then fail (Code InvalidRequest)
      else if \<not> uuid_canonical i then fail (Code InvalidRequest)
      else
        and_then (of_result (service_authorize s application fingerprint)) (\<lambda>_.
          repo_delete (svc_repository s) application subject i))"

subsection \<open>Authorization\<close>

definition may_act :: "service \<Rightarrow> string \<Rightarrow> string \<Rightarrow> bool" where
  "may_act s code fingerprint \<longleftrightarrow>
     (\<exists>a. svc_applications s code = Some a \<and> fingerprint \<in> set (app_clients a) \<and> fingerprint \<noteq> '''')"

lemma service_authorize_Inr:
  "service_authorize s code fp = Inr a \<longleftrightarrow>
     svc_applications s code = Some a \<and> fp \<in> set (app_clients a) \<and> fp \<noteq> ''''"
  by (auto simp: service_authorize_def app_authorize_None [symmetric] split: option.splits)

lemma service_authorize_Inl:
  "service_authorize s code fp = Inl e \<Longrightarrow> e = Code ApplicationNotFound \<or> e = Code Forbidden"
  by (auto simp: service_authorize_def app_authorize_def dest: authorize_loop_Some split: option.splits)

lemma finish_authorize_None:
  assumes "finish_authorize s k fp c = None"
  shows "\<exists>a. service_authorize s (cer_application c) fp = Inr a \<and> app_rpid a = cer_rpid c"
  using assms by (auto simp: finish_authorize_def split: sum.splits if_splits)

lemma finish_authorize_may_act:
  "finish_authorize s k fp c = None \<Longrightarrow> may_act s (cer_application c) fp"
  by (auto dest!: finish_authorize_None simp: service_authorize_Inr may_act_def)

subsection \<open>The trimmed response is never empty\<close>

lemma scan_number_head: "scan_number (c # r) = Some x \<Longrightarrow> is_digit c \<or> byte_nat c = 45"
  by (auto simp: scan_number_def scan_integer_def take_digits_def is_digit_def Let_def
      split: if_splits option.splits)

lemma read_value_head:
  assumes "read_value st (c # r) = JToken t st' r'"
  shows "32 < byte_nat c \<and> byte_nat c < 128"
proof -
  have letters: "byte_nat CHR ''{'' = 123" "byte_nat CHR ''['' = 91" "byte_nat CHR ''n'' = 110"
    "byte_nat CHR ''t'' = 116" "byte_nat CHR ''f'' = 102" by code_simp+
  show ?thesis
    using assms
    by (auto simp: read_value_def letters is_digit_def dest!: scan_number_head
        split: if_splits option.splits)
qed

lemma json_valid_head:
  assumes "json_valid s"
  obtains c where "c \<in> set s" "no_space_byte c"
proof -
  have suffix: "set (skip_ws u) \<subseteq> set u" for u by (induction u) auto
  from assms obtain c r where s: "skip_ws s = c # r"
    using json_valid_not_blank by (cases "skip_ws s") auto
  from assms s obtain t st' r' where "read_value [] (c # r) = JToken t st' r'"
    by (auto simp: json_valid_def skip_value.simps [of 0 "[]" s] split: jread.splits)
  then have "no_space_byte c" using read_value_head no_space_byte_graphic by blast
  moreover have "c \<in> set s" using suffix [of s] s by auto
  ultimately show ?thesis using that by blast
qed

lemma json_valid_trim: "json_valid s \<Longrightarrow> trim_space s \<noteq> []"
  by (auto elim: json_valid_head dest: trim_space_not_empty)

subsection \<open>Successful runs of the service\<close>

lemma service_start_Inr:
  assumes "service_start E s k a sub name fp w = (Inr r, w')"
  obtains ap cs w1 opts state w2 b now i where
    "kind_valid k" "valid_application_code a" "valid_subject sub" "valid_display_name name"
    "service_authorize s a fp = Inr ap" "repo_credentials (svc_repository s) a sub w = (Inr cs, w1)"
    "k = Authentication \<longrightarrow> cs \<noteq> []"
    "wa_begin (svc_webauthn s) k ap sub (if name = '''' then sub else name) cs w1
      = (Inr (opts, state), w2)"
    "b = rand_bytes E (rands w2)" "now = clock E (ticks w2)"
    "repo_start (svc_repository s) k (new_ceremony i a sub (app_rpid ap)
        (case token_hash (sha256 E) (new_token b) of Inl _ \<Rightarrow> [] | Inr h \<Rightarrow> h) state now)
      (w2\<lparr>rands := Suc (rands w2), ticks := Suc (ticks w2), uuids := Suc (uuids w2)\<rparr>) = (Inr (), w')"
    "r = \<lparr>sr_token = new_token b, sr_options = opts, sr_expires_at = now + CeremonyTTL\<rparr>"
proof -
  from assms obtain ap cs w1 opts state w2 where
    "kind_valid k" "valid_application_code a" "valid_subject sub" "valid_display_name name"
    "service_authorize s a fp = Inr ap" "repo_credentials (svc_repository s) a sub w = (Inr cs, w1)"
    "k = Authentication \<longrightarrow> cs \<noteq> []"
    and b: "wa_begin (svc_webauthn s) k ap sub (if name = '''' then sub else name) cs w1
      = (Inr (opts, state), w2)"
    and rest: "start_ceremony E s k a sub ap opts state w2 = (Inr r, w')"
    by (auto simp: service_start_def and_then_Inr of_result_Inr fail_Inr Let_def split: if_splits)
  with that show ?thesis
    by (auto simp: start_ceremony_def success Let_def new_ceremony_def)
qed

lemma service_finish_Inr:
  assumes "service_finish E s k token resp fp w = (Inr r, w')"
  obtains h cr where "kind_valid k" "json_valid resp" "token_hash (sha256 E) token = Inr h"
    "repo_finish (svc_repository s) k h (finish_authorize s k fp) (finish_verifier s k resp) w
      = (Inr cr, w')"
    "r = \<lparr>fr_application = cred_application cr, fr_subject = cred_subject cr,
      fr_credential = cred_id cr\<rparr>"
  using assms
  by (auto simp: service_finish_def success split: if_splits list.splits)

lemma service_credentials_Inr:
  assumes "service_credentials s a sub fp w = (Inr cs, w')"
  shows "valid_application_code a \<and> valid_subject sub \<and> may_act s a fp
    \<and> repo_credentials (svc_repository s) a sub w = (Inr cs, w')"
  using assms by (auto simp: service_credentials_def success service_authorize_Inr may_act_def
      split: if_splits)

lemma service_delete_Inr:
  assumes "service_delete s a sub i fp w = (Inr u, w')"
  shows "valid_application_code a \<and> valid_subject sub \<and> uuid_canonical i \<and> may_act s a fp
    \<and> repo_delete (svc_repository s) a sub i w = (Inr (), w')"
  using assms by (auto simp: service_delete_def success service_authorize_Inr may_act_def
      split: if_splits)

subsection \<open>What the operations do to the database over any repository\<close>

locale passkey_service = repository_contract R + webauthn_contract A for R A +
  fixes s :: service
  assumes repository: "svc_repository s = R"
    and webauthn: "svc_webauthn s = A"
begin

lemma verifier_frame: "keeps_store (finish_verifier s k response c cs)"
  by (simp add: finish_verifier_def webauthn verify_frame)

lemma start_transition:
  assumes "service_start E s k a sub name fp w = (Inr r, w')"
  obtains c b where "kind_valid k" "may_act s a fp" "started k c (store w) (store w')"
    "cer_application c = a" "cer_subject c = sub" "cer_state c = pending"
    "sr_token r = new_token b"
    "cer_token_hash c = (case token_hash (sha256 E) (sr_token r) of Inl _ \<Rightarrow> [] | Inr h \<Rightarrow> h)"
    "cer_expires_at c = sr_expires_at r" "sr_expires_at r = cer_created_at c + CeremonyTTL"
    "k = Authentication \<longrightarrow> select_credentials a sub (store w) \<noteq> []"
  using assms
proof (rule service_start_Inr)
  fix ap :: application and w1 w2 :: world and cs opts state b now i
  let ?h = "case token_hash (sha256 E) (new_token b) of Inl _ \<Rightarrow> [] | Inr h \<Rightarrow> h"
  let ?c = "new_ceremony i a sub (app_rpid ap) ?h state now"
  let ?w = "w2\<lparr>rands := Suc (rands w2), ticks := Suc (ticks w2), uuids := Suc (uuids w2)\<rparr>"
  assume *: "kind_valid k" "service_authorize s a fp = Inr ap"
    "repo_credentials (svc_repository s) a sub w = (Inr cs, w1)" "k = Authentication \<longrightarrow> cs \<noteq> []"
    "wa_begin (svc_webauthn s) k ap sub (if name = '''' then sub else name) cs w1
      = (Inr (opts, state), w2)"
    "repo_start (svc_repository s) k ?c ?w = (Inr (), w')"
    "r = \<lparr>sr_token = new_token b, sr_options = opts, sr_expires_at = now + CeremonyTTL\<rparr>"
  have w1: "store w1 = store w" "cs = select_credentials a sub (store w)"
    using credentials_law [of a sub w "Inr cs" w1] *(3) by (simp_all add: repository)
  moreover have "store w2 = store w1"
    using begin_frame *(5) by (simp add: webauthn) (rule keeps_storeD)
  ultimately have "started k ?c (store w) (store w')"
    using start_law [of k ?c ?w "Inr ()" w'] *(6) by (simp add: repository)
  moreover have "may_act s a fp" using *(2) by (auto simp: service_authorize_Inr may_act_def)
  ultimately show thesis
    using that [of ?c b] * w1 by (simp add: new_ceremony_def)
qed

lemma finish_transition:
  assumes "service_finish E s k token resp fp w = (Inr r, w')" and "wf_db (store w)"
  obtains c now cr where "kind_valid k" "token_hash (sha256 E) token = Inr (sha256 E token)"
    "finished k (sha256 E token) c now (Inr cr) (store w) (store w')"
    "may_act s (cer_application c) fp" "fr_application r = cer_application c"
    "fr_subject r = cer_subject c" "fr_credential r = cred_id cr"
    "k = Authentication \<Longrightarrow> \<exists>old \<in> set (select_credentials (cer_application c) (cer_subject c) (store w)).
      cred_id old = cred_id cr \<and> cred_rpid old = cer_rpid c"
  using assms(1)
proof (rule service_finish_Inr)
  fix h cr
  assume k: "kind_valid k" and h: "token_hash (sha256 E) token = Inr h"
    and fin: "repo_finish (svc_repository s) k h (finish_authorize s k fp)
      (finish_verifier s k resp) w = (Inr cr, w')"
    and r: "r = \<lparr>fr_application = cred_application cr, fr_subject = cred_subject cr,
      fr_credential = cred_id cr\<rparr>"
  from fin [unfolded repository] assms(2) verifier_frame obtain c now w1 w2 cr0 where
    c: "finish_authorize s k fp c = None" "finished k h c now (Inr cr) (store w) (store w')"
    and cr: "cr = stamped k now cr0"
    and ver: "wa_verify A k (case svc_applications s (cer_application c) of
        None \<Rightarrow> zero_application | Some a \<Rightarrow> a) c
      (select_credentials (cer_application c) (cer_subject c) (store w)) resp w1 = (Inr cr0, w2)"
    by (rule finish_success) (simp add: finish_verifier_def webauthn)
  have same: "cred_application cr = cred_application cr0" "cred_subject cr = cred_subject cr0"
    "cred_id cr = cred_id cr0" by (simp_all add: cr stamped_def)
  have "h = sha256 E token" using token_hash_Inr [OF h] by simp
  with c h k r verify_scope [OF ver] same finish_authorize_may_act [OF c(1)] show thesis
    using that [of c now cr] verify_known ver by fastforce
qed

text \<open>Whatever the outcome, an operation makes at most one transition.\<close>

lemma start_ceremony_one_transition:
  "at_most_one (start_ceremony E s k a sub ap opts state)"
proof -
  have last: "at_most_one (and_then (repo_start R k c) (\<lambda>_. ret x))"
    if "cer_state c = pending" for c and x :: start_result
    by (rule at_most_one_before [OF start_one_step [OF that]]) (rule frame)
  show ?thesis
    unfolding start_ceremony_def Let_def repository
    by (intro last at_most_one_after frame) (simp add: new_ceremony_def)
qed

lemma start_one_transition: "at_most_one (service_start E s k a sub name fp)"
  unfolding service_start_def Let_def
  by (auto intro!: one_step frame start_ceremony_one_transition
      simp: repository webauthn credentials_frame begin_frame split: prod.splits)

lemma finish_one_transition: "at_most_one (service_finish E s k token resp fp)"
proof -
  have last: "at_most_one (and_then (repo_finish R k h (finish_authorize s k fp)
      (finish_verifier s k resp)) (\<lambda>cr. ret (f cr)))" for h and f :: "credential \<Rightarrow> finish_result"
    by (rule at_most_one_before [OF finish_one_step]) (rule verifier_frame, rule frame)
  have "at_most_one (and_then (of_result t) (\<lambda>h. and_then (repo_finish R k h
      (finish_authorize s k fp) (finish_verifier s k resp)) (\<lambda>cr. ret (f cr))))"
    for t and f :: "credential \<Rightarrow> finish_result"
    by (intro last at_most_one_after frame)
  then show ?thesis
    unfolding service_finish_def repository
    by (auto simp: one_step split: list.splits)
qed

lemma delete_one_transition: "at_most_one (service_delete s a sub i fp)"
  unfolding service_delete_def
  by (auto intro!: frame one_step simp: repository delete_one_step)

lemma credentials_no_transition: "keeps_store (service_credentials s a sub fp)"
  unfolding service_credentials_def by (auto intro!: frame simp: repository credentials_frame)

end

interpretation shellty: passkey_service "postgres E" "webauthn_adapter E lib rps"
  "new_service apps (postgres E) (webauthn_adapter E lib rps)" for E lib rps apps
  by unfold_locales (simp_all add: new_service_def)

end
