(* ===== verification/Transitions.thy ===== *)
theory Transitions
  imports Contracts
begin

section \<open>Invariants of the atomic transitions\<close>

text \<open>
  What every transition keeps, whoever makes it: the schema's constraints, the rows of finished
  ceremonies, and the accounts that tie the history to the tables. Each transition appends one
  history event.
\<close>

subsection \<open>The schema's constraints\<close>

lemma started_wf: "started k c d d' \<Longrightarrow> wf_db d \<Longrightarrow> wf_db d'"
  by (auto elim!: startedE dest: wf_statement)

lemma finished_wf: "finished k h c now out d d' \<Longrightarrow> wf_db d \<Longrightarrow> wf_db d'"
  by (induction rule: finished.induct) (auto dest!: wf_statement)

lemma deleted_wf: "deleted a s i d d' \<Longrightarrow> wf_db d \<Longrightarrow> wf_db d'"
  by (auto elim!: deletedE dest: wf_statement)

lemma db_step_wf: "db_step d d' \<Longrightarrow> wf_db d \<Longrightarrow> wf_db d'"
  by (auto elim!: db_step.cases dest: started_wf finished_wf deleted_wf)

subsection \<open>What a finish does to the ceremony's row\<close>

definition settle :: "string \<Rightarrow> string option \<Rightarrow> ceremony_row \<Rightarrow> ceremony_row" where
  "settle st link r =
     r\<lparr>cer_state := st,
       row_credential := (case link of None \<Rightarrow> row_credential r | Some i \<Rightarrow> Some i)\<rparr>"

lemma settle_simps [simp]:
  "cer_id (settle st link r) = cer_id r" "cer_token_hash (settle st link r) = cer_token_hash r"
  "cer_application (settle st link r) = cer_application r"
  "cer_subject (settle st link r) = cer_subject r" "cer_state (settle st link r) = st"
  by (simp_all add: settle_def)

definition settle_row :: "string \<Rightarrow> string \<Rightarrow> string option \<Rightarrow> ceremony_row list \<Rightarrow> ceremony_row list" where
  "settle_row i st link rs = map (\<lambda>r. if cer_id r = i then settle st link r else r) rs"

lemma settle_None: "settle st None r = r\<lparr>cer_state := st\<rparr>"
  by (simp add: settle_def)

lemma update_state_settle:
  assumes "update_state t st i d = Inr (u, d')"
  shows "table_rows t d' = settle_row i st None (table_rows t d)"
    "kind_valid t \<Longrightarrow> kind_valid j \<Longrightarrow> j \<noteq> t \<Longrightarrow> table_rows j d' = table_rows j d"
    "db_credential d' = db_credential d" "db_history d' = db_history d"
  using update_state_InrD [OF assms] table_rows_other [of t j]
  by (auto simp: settle_row_def settle_None)

lemma update_auth_settle:
  assumes "update_auth_credential cid i d = Inr (u, d')"
    and "table_rows Authentication d = settle_row i st None rs"
  shows "table_rows Authentication d' = settle_row i st (Some cid) rs"
    "table_rows Registration d' = table_rows Registration d"
    "db_credential d' = db_credential d" "db_history d' = db_history d"
  using assms
  by (auto simp: update_auth_credential_def settle_row_def table_rows_def settle_def)

text \<open>
  One finish: exactly the row found by the token is settled, in its own table, and exactly one
  event with the terminal state is appended.
\<close>

definition settles :: "kind \<Rightarrow> ceremony_row \<Rightarrow> string \<Rightarrow> (err + credential) \<Rightarrow> db \<Rightarrow> db \<Rightarrow> bool" where
  "settles k r st out d d' \<longleftrightarrow>
     (\<exists>link. table_rows k d' = settle_row (cer_id r) st link (table_rows k d))
     \<and> (\<forall>j. kind_valid j \<longrightarrow> j \<noteq> k \<longrightarrow> table_rows j d' = table_rows j d)
     \<and> (\<exists>e. db_history d' = db_history d @ [e] \<and> finish_event k (ceremony.truncate r) st out e)"

lemma finished_settles:
  assumes "finished k h c now out d d'"
  obtains r st where "kind_valid k" "r \<in> set (table_rows k d)" "cer_token_hash r = h"
    "c = ceremony.truncate r" "cer_state r = pending" "settles k r st out d d'"
    "st = (case out of Inr _ \<Rightarrow> succeeded | Inl _ \<Rightarrow> if now < cer_expires_at c then failed else expired)"
  using assms
proof (induction rule: finished.induct)
  case (registered h d c now cr d1 d2 e d')
  from registered.hyps(1) obtain r where r: "r \<in> set (table_rows Registration d)"
    "cer_token_hash r = h" "c = ceremony.truncate r" by (rule select_by_token_Some)
  from registered.hyps(4) have d1: "table_rows j d1 = table_rows j d" "db_history d1 = db_history d" for j
    by (auto dest!: insert_credential_InrD)
  have "settles Registration r succeeded (Inr cr) d d'"
    using update_state_settle [OF registered.hyps(5)] insert_history_InrD [OF registered.hyps(6)]
      d1 r registered.hyps(7)
    unfolding settles_def by auto
  with registered r show ?case by simp
next
  case (authenticated h d c now cr d1 d2 d3 e d')
  from authenticated.hyps(1) obtain r where r: "r \<in> set (table_rows Authentication d)"
    "cer_token_hash r = h" "c = ceremony.truncate r" by (rule select_by_token_Some)
  from authenticated.hyps(4) have d1: "table_rows j d1 = table_rows j d" "db_history d1 = db_history d"
    for j by (auto dest!: update_credential_InrD)
  note s = update_state_settle [OF authenticated.hyps(5)]
  note a = update_auth_settle [OF authenticated.hyps(6) s(1)]
  have "settles Authentication r succeeded (Inr cr) d d'"
    using s a insert_history_InrD [OF authenticated.hyps(7)] d1 r authenticated.hyps(8)
    unfolding settles_def by (auto simp: kind_valid_def)
  with authenticated r show ?case by simp
next
  case (rejected k h d c now er d1 e d')
  from rejected.hyps(2) obtain r where r: "r \<in> set (table_rows k d)"
    "cer_token_hash r = h" "c = ceremony.truncate r" by (rule select_by_token_Some)
  have "settles k r failed (Inl er) d d'"
    using update_state_settle [OF rejected.hyps(6)] insert_history_InrD [OF rejected.hyps(7)]
      r rejected.hyps(1,8)
    unfolding settles_def by auto
  with rejected r show ?case by simp
next
  case (expired k h d c now d1 e d')
  from expired.hyps(2) obtain r where r: "r \<in> set (table_rows k d)"
    "cer_token_hash r = h" "c = ceremony.truncate r" by (rule select_by_token_Some)
  have "settles k r expired (Inl (Code (kind_expired k))) d d'"
    using update_state_settle [OF expired.hyps(5)] insert_history_InrD [OF expired.hyps(6)]
      r expired.hyps(1,7)
    unfolding settles_def by auto
  with expired r show ?case by simp
qed

lemma finished_result_state:
  assumes "st = (case out of Inr _ \<Rightarrow> succeeded | Inl _ \<Rightarrow> if now < t then failed else expired)"
  shows "st \<noteq> pending"
  using assms by (auto simp: names split: sum.splits)

subsection \<open>Finished ceremonies never change\<close>

lemma settle_row_keeps:
  assumes "distinct (map cer_id rs)" and "r \<in> set rs" and "cer_state r = pending"
    and "x \<in> set rs" and "cer_state x \<noteq> pending"
  shows "x \<in> set (settle_row (cer_id r) st link rs)"
proof -
  have "cer_id x \<noteq> cer_id r"
    using assms distinct_key_eq [OF assms(1)] by auto
  with assms(4) show ?thesis by (force simp: settle_row_def)
qed

lemma started_rows:
  assumes "started k c d d'"
  shows "table_rows k d' = table_rows k d @ [ceremony.extend c (ceremony_row.fields None)]"
    "kind_valid j \<Longrightarrow> j \<noteq> k \<Longrightarrow> table_rows j d' = table_rows j d"
    "db_credential d' = db_credential d"
    "\<exists>e. db_history d' = db_history d @ [e] \<and> start_event k c e"
  using assms table_rows_other [of k j]
  by (auto elim!: startedE dest!: insert_ceremony_InrD insert_history_InrD)

lemma deleted_rows:
  assumes "deleted a s i d d'"
  shows "table_rows j d' = table_rows j d"
    "db_credential d' = filter (\<lambda>c. \<not> (cred_id c = i \<and> cred_application c = a \<and> cred_subject c = s))
      (db_credential d)"
    "length (filter (\<lambda>c. cred_id c = i \<and> cred_application c = a \<and> cred_subject c = s)
      (db_credential d)) = 1"
    "\<exists>e. db_history d' = db_history d @ [e] \<and> delete_event a s i e"
  using assms
  by (auto elim!: deletedE dest!: insert_history_InrD simp: delete_credential_def)

lemma db_step_terminal_rows:
  assumes step: "db_step d d'" and wf: "wf_db d" and k: "kind_valid k"
    and x: "x \<in> set (table_rows k d)" "cer_state x \<noteq> pending"
  shows "x \<in> set (table_rows k d')"
  using step
proof (cases rule: db_step.cases)
  case (step_started j c)
  with x k show ?thesis by (cases "k = j") (auto simp: started_rows)
next
  case (step_finished j h c now out)
  then obtain r st where r: "kind_valid j" "r \<in> set (table_rows j d)" "cer_state r = pending"
    "settles j r st out d d'" by (rule finished_settles)
  show ?thesis
  proof (cases "k = j")
    case True
    with r x wf_db_table [OF wf, of j] show ?thesis
      by (auto simp: settles_def wf_ceremonies_def intro: settle_row_keeps)
  next
    case False
    with r x k show ?thesis by (auto simp: settles_def)
  qed
next
  case (step_deleted a s i)
  with x show ?thesis by (simp add: deleted_rows)
qed

lemma db_step_history:
  assumes "db_step d d'"
  obtains e where "db_history d' = db_history d @ [e]"
  using assms
  by (cases rule: db_step.cases)
    (auto dest: started_rows(4) deleted_rows(4) elim!: finished_settles simp: settles_def)

subsection \<open>The history accounts for every ceremony and credential\<close>

definition events :: "string \<Rightarrow> db \<Rightarrow> nat" where
  "events kd d = length (filter (\<lambda>e. ev_kind e = kd) (db_history d))"

definition successes :: "kind \<Rightarrow> db \<Rightarrow> nat" where
  "successes k d = length (filter (\<lambda>e. ev_kind e = k @ ''.finish'' \<and> ev_result e = succeeded)
     (db_history d))"

definition rows_in :: "(string \<Rightarrow> bool) \<Rightarrow> kind \<Rightarrow> db \<Rightarrow> nat" where
  "rows_in P k d = length (filter (\<lambda>r. P (cer_state r)) (table_rows k d))"

text \<open>
  The accounts: one start event per ceremony, one finish event per ceremony that is no longer
  pending, one successful finish event per succeeded ceremony, and every successful registration
  is a live credential or a delete event.
\<close>

definition accounts :: "db \<Rightarrow> bool" where
  "accounts d \<longleftrightarrow>
     (\<forall>k \<in> {Registration, Authentication}.
        events (k @ ''.start'') d = length (table_rows k d)
        \<and> events (k @ ''.finish'') d = rows_in (\<lambda>st. st \<noteq> pending) k d
        \<and> successes k d = rows_in (\<lambda>st. st = succeeded) k d)
     \<and> successes Registration d = length (db_credential d) + events ''credential.delete'' d"

lemma events_append: "db_history d' = db_history d @ [e] \<Longrightarrow>
    events kd d' = events kd d + (if ev_kind e = kd then 1 else 0)"
  by (simp add: events_def)

lemma successes_append: "db_history d' = db_history d @ [e] \<Longrightarrow>
    successes k d' = successes k d + (if ev_kind e = k @ ''.finish'' \<and> ev_result e = succeeded then 1 else 0)"
  by (simp add: successes_def)

lemma event_kinds_differ [simp]:
  "j @ ''.start'' \<noteq> k @ ''.finish''" "k @ ''.finish'' \<noteq> j @ ''.start''"
  "''credential.delete'' \<noteq> k @ ''.start''" "''credential.delete'' \<noteq> k @ ''.finish''"
  "k @ ''.start'' \<noteq> ''credential.delete''" "k @ ''.finish'' \<noteq> ''credential.delete''"
  by (auto dest!: arg_cong [where f = last])

lemma settle_row_length: "length (settle_row i st link rs) = length rs"
  by (simp add: settle_row_def)

lemma settle_row_count:
  assumes "distinct (map cer_id rs)" and "r \<in> set rs" and "\<not> P (cer_state r)" and "P st"
  shows "length (filter (\<lambda>x. P (cer_state x)) (settle_row (cer_id r) st link rs))
    = Suc (length (filter (\<lambda>x. P (cer_state x)) rs))"
  using length_filter_update_one
    [of cer_id rs r "cer_id r" "\<lambda>x. P (cer_state x)" "settle st link"] assms
  by (simp add: settle_row_def)

lemma settle_row_count_none:
  assumes "distinct (map cer_id rs)" and "r \<in> set rs" and "\<not> P (cer_state r)" and "\<not> P st"
  shows "length (filter (\<lambda>x. P (cer_state x)) (settle_row (cer_id r) st link rs))
    = length (filter (\<lambda>x. P (cer_state x)) rs)"
proof -
  have "filter (\<lambda>x. P (cer_state x)) (settle_row (cer_id r) st link rs)
      = filter (\<lambda>x. P (cer_state x)) rs"
    using assms
  proof (induction rs)
    case (Cons z zs)
    show ?case
    proof (cases "z = r")
      case True
      with Cons.prems have "\<forall>y \<in> set zs. cer_id y \<noteq> cer_id r" by (auto simp: rev_image_eqI)
      then have "settle_row (cer_id r) st link zs = zs" by (simp add: settle_row_def map_idI)
      with True Cons.prems show ?thesis by (simp add: settle_row_def)
    next
      case False
      with Cons.prems have "r \<in> set zs" "cer_id z \<noteq> cer_id r" by (auto simp: rev_image_eqI)
      with Cons show ?thesis by (simp add: settle_row_def)
    qed
  qed simp
  then show ?thesis by simp
qed

lemma settles_rows_in:
  assumes "settles k r st out d d'" and "wf_db d" and "kind_valid k" and "kind_valid j"
    and "r \<in> set (table_rows k d)" and "\<not> P (cer_state r)"
  shows "rows_in P j d' = rows_in P j d + (if j = k \<and> P st then 1 else 0)"
    "length (table_rows j d') = length (table_rows j d)"
proof -
  have "rows_in P j d' = rows_in P j d + (if j = k \<and> P st then 1 else 0)
    \<and> length (table_rows j d') = length (table_rows j d)"
  proof (cases "j = k")
    case True
    from assms(1) obtain link where "table_rows k d' = settle_row (cer_id r) st link (table_rows k d)"
      by (auto simp: settles_def)
    with True assms wf_db_table [OF assms(2), of k] show ?thesis
      by (cases "P st")
        (simp_all add: rows_in_def settle_row_count settle_row_count_none settle_row_length
          wf_ceremonies_def)
  next
    case False
    with assms show ?thesis by (simp add: settles_def rows_in_def)
  qed
  then show "rows_in P j d' = rows_in P j d + (if j = k \<and> P st then 1 else 0)"
    "length (table_rows j d') = length (table_rows j d)" by auto
qed

lemma finished_credentials:
  assumes "finished k h c now out d d'"
  shows "length (db_credential d') = length (db_credential d)
    + (if k = Registration \<and> \<not> isl out then 1 else 0)"
  using assms
proof (induction rule: finished.induct)
  case (registered h d c now cr d1 d2 e d')
  from update_state_settle(3) [OF registered.hyps(5)] registered.hyps show ?case
    by (auto dest!: insert_credential_InrD insert_history_InrD)
next
  case (authenticated h d c now cr d1 d2 d3 e d')
  then show ?case
    by (auto dest!: update_credential_InrD update_state_InrD insert_history_InrD
        simp: update_auth_credential_def)
qed (auto dest!: update_state_InrD insert_history_InrD)

lemma accounts_empty: "accounts empty_db"
  by (simp add: accounts_def events_def successes_def rows_in_def empty_db_def table_rows_def)

lemma accounts_migration [simp]: "accounts (d\<lparr>db_migration := m\<rparr>) = accounts d"
  by (simp add: accounts_def events_def successes_def rows_in_def table_rows_def)

lemma pending_not_succeeded: "pending \<noteq> succeeded"
  by (simp add: names)

lemma started_accounts:
  assumes "started k c d d'" and "cer_state c = pending" and "accounts d"
  shows "accounts d'"
proof -
  from assms(1) have k: "kind_valid k" by (auto elim: startedE)
  from started_rows(4) [OF assms(1)] obtain e where
    h: "db_history d' = db_history d @ [e]" and e: "ev_kind e = k @ ''.start''"
    by (auto simp: start_event_def)
  have rows: "rows_in P j d' = rows_in P j d" if "\<not> P pending" "kind_valid j" for P j
    using started_rows(1,2) [OF assms(1)] that assms(2)
    by (cases "j = k") (simp_all add: rows_in_def)
  have len: "length (table_rows j d') = length (table_rows j d) + (if j = k then 1 else 0)"
    if "kind_valid j" for j
    using started_rows(1,2) [OF assms(1)] that by (cases "j = k") simp_all
  have cs: "db_credential d' = db_credential d" by (rule started_rows(3) [OF assms(1)])
  show ?thesis
    using assms(3) unfolding accounts_def
    by (simp add: events_append [OF h] successes_append [OF h] e rows len cs pending_not_succeeded)
qed

lemma finished_accounts:
  assumes "finished k h c now out d d'" and "wf_db d" and "accounts d"
  shows "accounts d'"
proof -
  from assms(1) obtain r st where k: "kind_valid k" "r \<in> set (table_rows k d)"
    and pend: "cer_state r = pending" and s: "settles k r st out d d'"
    and st: "st = (case out of Inr _ \<Rightarrow> succeeded | Inl _ \<Rightarrow> if now < cer_expires_at c then failed else expired)"
    by (rule finished_settles)
  from s obtain e where
    h: "db_history d' = db_history d @ [e]" and e: "ev_kind e = k @ ''.finish''" "ev_result e = st"
    by (auto simp: settles_def finish_event_def)
  note rows = settles_rows_in(1) [OF s assms(2) k(1) _ k(2)]
  note len = settles_rows_in(2) [OF s assms(2) k(1) _ k(2), of _ "\<lambda>_. False", simplified]
  have st2: "st \<noteq> pending" "st = succeeded \<longleftrightarrow> \<not> isl out"
    using finished_result_state [OF st] st by (auto simp: names split: sum.splits)
  show ?thesis
    using assms(3) k(1) unfolding accounts_def
    by (auto simp: events_append [OF h] successes_append [OF h] e rows len st2 pend
        pending_not_succeeded
        finished_credentials [OF assms(1)] kind_valid_def)
qed

lemma deleted_accounts:
  assumes "deleted a s i d d'" and "accounts d"
  shows "accounts d'"
proof -
  from deleted_rows(4) [OF assms(1)] obtain e where
    h: "db_history d' = db_history d @ [e]" and e: "ev_kind e = ''credential.delete''"
    by (auto simp: delete_event_def)
  let ?hit = "\<lambda>c. cred_id c = i \<and> cred_application c = a \<and> cred_subject c = s"
  have "length (db_credential d) = length (db_credential d') + 1"
    using sum_length_filter_compl [of ?hit "db_credential d"] deleted_rows(2,3) [OF assms(1)]
    by simp
  then show ?thesis
    using assms(2) unfolding accounts_def
    by (simp add: events_append [OF h] successes_append [OF h] e rows_in_def
        deleted_rows(1) [OF assms(1)])
qed

lemma db_step_accounts: "db_step d d' \<Longrightarrow> wf_db d \<Longrightarrow> accounts d \<Longrightarrow> accounts d'"
  by (auto elim!: db_step.cases dest: started_accounts finished_accounts deleted_accounts)


subsection \<open>What a successful finish leaves\<close>

lemma finished_success_rows:
  assumes "finished k h c now (Inr cr) d d'"
  obtains r x where "kind_valid k" "r \<in> set (table_rows k d)" "cer_token_hash r = h"
    "c = ceremony.truncate r" "cer_state r = pending" "now < cer_expires_at c"
    "x \<in> set (table_rows k d')" "cer_id x = cer_id r" "cer_state x = succeeded"
proof -
  from assms have early: "now < cer_expires_at c" by (auto elim: finished_InrE)
  from assms obtain r st where r: "kind_valid k" "r \<in> set (table_rows k d)" "cer_token_hash r = h"
    "c = ceremony.truncate r" "cer_state r = pending" and s: "settles k r st (Inr cr) d d'"
    and st: "st = (case (Inr cr :: err + credential) of Inr _ \<Rightarrow> succeeded | Inl _ \<Rightarrow>
      if now < cer_expires_at c then failed else expired)"
    by (rule finished_settles)
  from s obtain link where "table_rows k d' = settle_row (cer_id r) st link (table_rows k d)"
    by (auto simp: settles_def)
  with r(2) have "settle st link r \<in> set (table_rows k d')" by (force simp: settle_row_def)
  with r early st that [of r "settle st link r"] show ?thesis by simp
qed

lemma finished_expired_rows:
  assumes "finished k h c now out d d'" and "isl out" and "\<not> now < cer_expires_at c"
  shows "\<exists>x \<in> set (table_rows k d'). cer_id x = cer_id c \<and> cer_state x = expired"
proof -
  from assms(1) obtain r st where r: "r \<in> set (table_rows k d)" "c = ceremony.truncate r"
    and s: "settles k r st out d d'"
    and st: "st = (case out of Inr _ \<Rightarrow> succeeded | Inl _ \<Rightarrow>
      if now < cer_expires_at c then failed else expired)"
    by (rule finished_settles)
  from s obtain link where "table_rows k d' = settle_row (cer_id r) st link (table_rows k d)"
    by (auto simp: settles_def)
  with r(1) have "settle st link r \<in> set (table_rows k d')" by (force simp: settle_row_def)
  with r(2) st assms(2,3) show ?thesis
    by (intro bexI [of _ "settle st link r"]) (auto split: sum.splits)
qed

lemma finished_success_credential:
  assumes "finished k h c now (Inr cr) d d'"
  shows "\<exists>x \<in> set (db_credential d'). scoped_to (cred_id cr) (cer_application c) (cer_subject c)
    (cer_rpid c) x"
  using assms
proof (cases rule: finished_InrE [consumes 1, case_names registered authenticated])
  case (registered d1 d2 e)
  from insert_credential_InrD [OF registered(5)] update_state_settle(3) [OF registered(6)] insert_history_InrD [OF registered(7)]
  show ?thesis by (auto simp: registered_row_def scoped_to_def)
next
  case (authenticated d1 d2 d3 e)
  note upd = update_credential_InrD [OF authenticated(5)]
  then have "filter (scoped_to (cred_id cr) (cer_application c) (cer_subject c) (cer_rpid c))
    (db_credential d) \<noteq> []" by auto
  then obtain x where x: "x \<in> set (db_credential d)"
    "scoped_to (cred_id cr) (cer_application c) (cer_subject c) (cer_rpid c) x"
    by (auto simp: filter_empty_conv)
  have "db_credential d' = db_credential d1"
    using update_state_settle(3) [OF authenticated(6)] insert_history_InrD [OF authenticated(8)] authenticated(7)
    by (auto simp: update_auth_credential_def)
  with upd have "db_credential d' = map (\<lambda>c'. if scoped_to (cred_id cr) (cer_application c)
    (cer_subject c) (cer_rpid c) c' then touch (cred_sign_count cr) (cred_backup_state cr)
      (cred_webauthn cr) now c' else c') (db_credential d)" by simp
  with x show ?thesis
    by (intro bexI [of _ "touch (cred_sign_count cr) (cred_backup_state cr) (cred_webauthn cr) now x"])
      (auto simp: touch_def scoped_to_def)
qed

lemma finished_failure_credentials:
  "finished k h c now (Inl er) d d' \<Longrightarrow> db_credential d' = db_credential d"
  by (auto elim!: finished_InlE dest!: update_state_InrD insert_history_InrD)

lemma scoped_to_id:
  assumes "wf_db d" and "x \<in> set (db_credential d)" and "scoped_to i a s rp x"
    and "y \<in> set (db_credential d)"
  shows "scoped_to i a s rp y \<longleftrightarrow> cred_id y = i"
proof
  assume y: "cred_id y = i"
  have "distinct (map cred_id (db_credential d))"
    using assms(1) by (simp add: wf_db_def wf_credentials_def)
  then have "x = y"
    by (rule distinct_key_eq [OF _ assms(2,4)]) (use assms(3) y in \<open>simp add: scoped_to_def\<close>)
  with assms(3) show "scoped_to i a s rp y" by simp
qed (simp add: scoped_to_def)

text \<open>An authentication rewrites exactly the credential it returns.\<close>

lemma authenticated_credentials:
  assumes "finished Authentication h c now (Inr cr) d d'" and "wf_db d"
  shows "db_credential d' = map (\<lambda>x. if cred_id x = cred_id cr
      then touch (cred_sign_count cr) (cred_backup_state cr) (cred_webauthn cr) now x else x)
      (db_credential d)
    \<and> (\<exists>x \<in> set (db_credential d). scoped_to (cred_id cr) (cer_application c) (cer_subject c)
        (cer_rpid c) x)"
  using assms(1)
proof (cases rule: finished_InrE [consumes 1, case_names registered authenticated])
  case (authenticated d1 d2 d3 e)
  let ?hit = "scoped_to (cred_id cr) (cer_application c) (cer_subject c) (cer_rpid c)"
  note upd = update_credential_InrD [OF authenticated(5)]
  then have "filter ?hit (db_credential d) \<noteq> []" by auto
  then obtain x where x: "x \<in> set (db_credential d)" "?hit x" by (auto simp: filter_empty_conv)
  have "db_credential d' = db_credential d1"
    using update_state_settle(3) [OF authenticated(6)] insert_history_InrD [OF authenticated(8)]
      authenticated(7) by (auto simp: update_auth_credential_def)
  with upd have "db_credential d' = map (\<lambda>y. if ?hit y then touch (cred_sign_count cr)
    (cred_backup_state cr) (cred_webauthn cr) now y else y) (db_credential d)" by simp
  also have "\<dots> = map (\<lambda>y. if cred_id y = cred_id cr then touch (cred_sign_count cr)
    (cred_backup_state cr) (cred_webauthn cr) now y else y) (db_credential d)"
    using scoped_to_id [OF assms(2) x] by simp
  finally show ?thesis using x by blast
qed simp

end
