(* ===== verification/Lifecycle.thy ===== *)
theory Lifecycle
  imports Service Transitions
begin

section \<open>The life of a server: any sequence of service calls\<close>

text \<open>
  The service as \<open>app.Run\<close> wires it, and the worlds that calls to it lead to. A run is any
  sequence of the four operations with any arguments from any clients, successful or not, under
  any pattern of failures: \<open>evolves\<close>. The lemmas here lift the facts about single transitions to
  runs, over any repository and WebAuthn implementation that keep their contracts.
\<close>

definition passkey_server ::
  "env \<Rightarrow> ('s, 'o, 'c, 'a) wa_lib \<Rightarrow> rps \<Rightarrow> application list \<Rightarrow> service" where
  "passkey_server E lib rps apps = new_service apps (postgres E) (webauthn_adapter E lib rps)"

text \<open>\<open>NewWebAuthn\<close> may refuse a configuration; then the server does not start.\<close>

definition wire ::
  "env \<Rightarrow> ('s, 'o, 'c, 'a) wa_lib \<Rightarrow> application list \<Rightarrow> err + service" where
  "wire E lib apps =
     (case new_webauthn lib apps of
        Inl e \<Rightarrow> Inl e
      | Inr rps \<Rightarrow> Inr (passkey_server E lib rps apps))"

lemma new_webauthn_loop_dom:
  "new_webauthn_loop lib apps rps = Inr rps' \<Longrightarrow> dom rps' = dom rps \<union> app_code ` set apps"
  by (induction lib apps rps rule: new_webauthn_loop.induct) (auto split: sum.splits)

lemma new_webauthn_dom: "new_webauthn lib apps = Inr rps \<Longrightarrow> dom rps = app_code ` set apps"
  using new_webauthn_loop_dom [of lib apps Map.empty rps] by (simp add: new_webauthn_def)

lemma dom_applications:
  "dom (foldl (\<lambda>m a. m(app_code a \<mapsto> a)) m apps) = dom m \<union> app_code ` set apps"
  by (induction apps arbitrary: m) auto

lemma dom_new_service: "dom (svc_applications (new_service apps R A)) = app_code ` set apps"
  by (simp add: new_service_def dom_applications)

inductive evolves :: "env \<Rightarrow> service \<Rightarrow> world \<Rightarrow> world \<Rightarrow> bool" for E s where
  idle: "evolves E s w w"
| call_start: "evolves E s w w1 \<Longrightarrow> service_start E s k a sub name fp w1 = (r, w2) \<Longrightarrow>
    evolves E s w w2"
| call_finish: "evolves E s w w1 \<Longrightarrow> service_finish E s k t resp fp w1 = (q, w2) \<Longrightarrow>
    evolves E s w w2"
| call_credentials: "evolves E s w w1 \<Longrightarrow> service_credentials s a sub fp w1 = (cs, w2) \<Longrightarrow>
    evolves E s w w2"
| call_delete: "evolves E s w w1 \<Longrightarrow> service_delete s a sub i fp w1 = (u, w2) \<Longrightarrow>
    evolves E s w w2"

subsection \<open>Sequences of transitions\<close>

lemma steps_wf: "db_step\<^sup>*\<^sup>* d d' \<Longrightarrow> wf_db d \<Longrightarrow> wf_db d'"
  by (induction rule: rtranclp_induct) (auto dest: db_step_wf)

lemma steps_accounts: "db_step\<^sup>*\<^sup>* d d' \<Longrightarrow> wf_db d \<Longrightarrow> accounts d \<Longrightarrow> accounts d'"
  by (induction rule: rtranclp_induct) (auto dest: db_step_accounts steps_wf)

lemma steps_terminal_rows:
  "db_step\<^sup>*\<^sup>* d d' \<Longrightarrow> wf_db d \<Longrightarrow> kind_valid k \<Longrightarrow> x \<in> set (table_rows k d) \<Longrightarrow>
    cer_state x \<noteq> pending \<Longrightarrow> x \<in> set (table_rows k d')"
  by (induction rule: rtranclp_induct) (auto dest: db_step_terminal_rows steps_wf)

lemma steps_history: "db_step\<^sup>*\<^sup>* d d' \<Longrightarrow> \<exists>es. db_history d' = db_history d @ es"
proof (induction rule: rtranclp_induct)
  case (step d1 d2)
  then obtain es e where "db_history d1 = db_history d @ es" "db_history d2 = db_history d1 @ [e]"
    by (blast elim: db_step_history)
  then show ?case by simp
qed simp

subsection \<open>Runs of a service whose parts keep their contracts\<close>

definition finish_reply ::
  "ceremony \<Rightarrow> (err + credential) \<Rightarrow> (err + finish_result) \<Rightarrow> bool" where
  "finish_reply c out q \<longleftrightarrow>
     (\<exists>t. q = Inl (Plain t))
     \<or> q = (case out of
            Inl er \<Rightarrow> Inl er
          | Inr cr \<Rightarrow> Inr \<lparr>fr_application = cer_application c, fr_subject = cer_subject c,
              fr_credential = cred_id cr\<rparr>)"

context passkey_service
begin

lemma finish_acts:
  assumes run: "service_finish E s k t resp fp w = (q, w')" and wf: "wf_db (store w)"
  shows "isl q \<and> store w' = store w
    \<or> (\<exists>c now out. kind_valid k \<and> finish_authorize s k fp c = None
        \<and> finished k (sha256 E t) c now out (store w) (store w') \<and> finish_reply c out q)"
proof (cases "store w' = store w \<and> isl q")
  case False
  let ?f = "\<lambda>cr. \<lparr>fr_application = cred_application cr, fr_subject = cred_subject cr,
    fr_credential = cred_id cr\<rparr>"
  have "kind_valid k \<and> (\<exists>h. token_hash (sha256 E) t = Inr h \<and> and_then (repo_finish R k h (finish_authorize s k fp)
      (finish_verifier s k resp)) (\<lambda>cr. ret (?f cr)) w = (q, w'))"
    using run False
    by (auto simp: service_finish_def repository fail_def and_then_def [of "of_result _"] of_result_def
        split: if_splits list.splits sum.splits)
  then obtain h where k: "kind_valid k" and h: "token_hash (sha256 E) t = Inr h"
    and rest: "and_then (repo_finish R k h (finish_authorize s k fp)
      (finish_verifier s k resp)) (\<lambda>cr. ret (?f cr)) w = (q, w')" by auto
  have ht: "h = sha256 E t" using token_hash_Inr [OF h] by simp
  obtain p w1 where fin: "repo_finish R k h (finish_authorize s k fp) (finish_verifier s k resp) w = (p, w1)"
    by (cases "repo_finish R k h (finish_authorize s k fp) (finish_verifier s k resp) w")
  with rest have q: "w' = w1" "q = (case p of Inl e \<Rightarrow> Inl e | Inr cr \<Rightarrow> Inr (?f cr))"
    by (auto simp: and_then_def ret_def split: sum.splits)
  with False have "\<not> (isl p \<and> store w1 = store w)" by (auto split: sum.splits)
  with finish_law [OF fin wf verifier_frame] obtain c now out where
    c: "finish_authorize s k fp c = None" "finished k h c now out (store w) (store w1)"
    and p: "p = out \<or> (\<exists>t. p = Inl (Plain t))"
    and ver: "\<And>cr. out = Inr cr \<Longrightarrow> \<exists>wa wb cr0. cr = stamped k now cr0 \<and> store wa = store w
      \<and> finish_verifier s k resp c
          (select_credentials (cer_application c) (cer_subject c) (store w)) wa = (Inr cr0, wb)"
    by blast
  have "cred_application cr = cer_application c \<and> cred_subject cr = cer_subject c" if "out = Inr cr" for cr
    using ver [OF that] verify_scope
    by (fastforce simp: finish_verifier_def webauthn stamped_def split: if_splits)
  then have "finish_reply c out q" using p q by (auto simp: finish_reply_def split: sum.splits)
  with c k ht q(1) show ?thesis by blast
qed auto

lemma finish_authenticates:
  assumes "service_finish E s Authentication t resp fp w = (Inr r, w')" and wf: "wf_db (store w)"
  obtains now x sc bs wa where "x \<in> set (db_credential (store w))" "cred_id x = fr_credential r"
    "cred_application x = fr_application r" "cred_subject x = fr_subject r"
    "db_credential (store w') = map (\<lambda>y. if cred_id y = fr_credential r then touch sc bs wa now y else y)
      (db_credential (store w))"
  using assms(1)
proof (rule finish_transition [OF _ wf])
  fix c now cr
  assume fin: "finished Authentication (sha256 E t) c now (Inr cr) (store w) (store w')"
    and r: "fr_application r = cer_application c" "fr_subject r = cer_subject c"
      "fr_credential r = cred_id cr"
  from authenticated_credentials [OF fin wf] obtain x where "x \<in> set (db_credential (store w))"
    "scoped_to (cred_id cr) (cer_application c) (cer_subject c) (cer_rpid c) x" by blast
  then show thesis
    using that [of x "cred_sign_count cr" "cred_backup_state cr" "cred_webauthn cr" now]
      authenticated_credentials [OF fin wf] r by (simp add: scoped_to_def)
qed

lemma finish_spent:
  assumes run: "service_finish E s k t resp fp w = (q, w')" and wf: "wf_db (store w)"
    and r: "r \<in> set (table_rows k (store w))" "cer_token_hash r = sha256 E t" "cer_state r \<noteq> pending"
  shows "isl q \<and> store w' = store w"
proof (rule ccontr)
  assume "\<not> ?thesis"
  with finish_acts [OF run wf] obtain c now out where
    "finished k (sha256 E t) c now out (store w) (store w')" by blast
  then obtain r' where r': "r' \<in> set (table_rows k (store w))" "cer_token_hash r' = sha256 E t"
    "cer_state r' = pending" by (rule finished_settles)
  have "distinct (map cer_token_hash (table_rows k (store w)))"
    using wf_db_table [OF wf] by (simp add: wf_ceremonies_def)
  from distinct_key_eq [OF this r'(1) r(1)] r r' show False by simp
qed

lemma evolves_steps:
  assumes "evolves E s w w'" and "wf_db (store w)"
  shows "db_step\<^sup>*\<^sup>* (store w) (store w')"
  using assms
proof (induction rule: evolves.induct)
  case (call_start w w1 k a sub name fp r w2)
  then show ?case
    using at_most_oneD [OF start_one_transition call_start.hyps(2)] steps_wf by fastforce
next
  case (call_finish w w1 k t resp fp q w2)
  then show ?case
    using at_most_oneD [OF finish_one_transition call_finish.hyps(2)] steps_wf by fastforce
next
  case (call_credentials w w1 a sub fp cs w2)
  then show ?case using keeps_storeD [OF credentials_no_transition] by simp
next
  case (call_delete w w1 a sub i fp u w2)
  then show ?case
    using at_most_oneD [OF delete_one_transition call_delete.hyps(2)] steps_wf by fastforce
qed simp

lemma finish_consumes:
  assumes run: "service_finish E s k t resp fp w = (q, w1)" and wf: "wf_db (store w)"
    and acted: "\<not> isl q \<or> store w1 \<noteq> store w"
    and later: "evolves E s w1 w2"
    and again: "service_finish E s k t resp' fp' w2 = (q', w3)"
  shows "isl q' \<and> store w3 = store w2"
proof -
  from finish_acts [OF run wf] acted obtain c now out where
    fin: "finished k (sha256 E t) c now out (store w) (store w1)" by auto
  have wf1: "wf_db (store w1)" by (rule finished_wf [OF fin wf])
  from fin obtain r st where r: "kind_valid k" "r \<in> set (table_rows k (store w))"
    "cer_token_hash r = sha256 E t" "settles k r st out (store w) (store w1)" and
    st: "st = (case out of Inr _ \<Rightarrow> succeeded | Inl _ \<Rightarrow>
      if now < cer_expires_at c then failed else expired)"
    by (rule finished_settles)
  then obtain link where
    "table_rows k (store w1) = settle_row (cer_id r) st link (table_rows k (store w))"
    by (auto simp: settles_def)
  with r(2) have x: "settle st link r \<in> set (table_rows k (store w1))"
    by (force simp: settle_row_def)
  note steps = evolves_steps [OF later wf1]
  have "settle st link r \<in> set (table_rows k (store w2))"
    by (rule steps_terminal_rows [OF steps wf1 r(1) x]) (simp add: finished_result_state [OF st])
  from finish_spent [OF again steps_wf [OF steps wf1] this] show ?thesis
    by (simp add: r(3) finished_result_state [OF st])
qed

end

subsection \<open>Finishes that find nothing to do\<close>

text \<open>The responses \<open>Finish\<close> hands on: one JSON object of at most 64 KiB.\<close>

definition acceptable_response :: "bytes \<Rightarrow> bool" where
  "acceptable_response resp \<longleftrightarrow>
     resp \<noteq> [] \<and> length resp \<le> 64 * 1024 \<and> json_valid resp
     \<and> (\<exists>r. trim_space resp = CHR ''{'' # r)"

lemma service_finish_run:
  assumes "acceptable_response resp" and "kind_valid k" and "token_hash (sha256 E) t = Inr h"
  shows "service_finish E s k t resp fp w =
    and_then (repo_finish (svc_repository s) k h (finish_authorize s k fp) (finish_verifier s k resp))
      (\<lambda>cr. ret \<lparr>fr_application = cred_application cr, fr_subject = cred_subject cr,
        fr_credential = cred_id cr\<rparr>) w"
  using assms
  by (auto simp: service_finish_def acceptable_response_def and_then_def [of "of_result _"] of_result_def)

context passkey_service
begin

lemma finish_stopped:
  assumes ok: "acceptable_response resp" "kind_valid k" "token_hash (sha256 E) t = Inr h"
    and stop: "case select_by_token k (sha256 E t) (store w) of
        None \<Rightarrow> er = Code (kind_not_found k)
      | Some c \<Rightarrow> finish_authorize s k fp c = Some er
          \<or> finish_authorize s k fp c = None \<and> cer_state c \<noteq> pending \<and> er = Code Conflict"
    and run: "service_finish E s k t resp fp w = (q, w')"
  shows "store w' = store w \<and> (q = Inl er \<or> (\<exists>t. q = Inl (Plain t)))"
proof -
  have h: "h = sha256 E t" using token_hash_Inr [OF ok(3)] by simp
  obtain p w1 where fin: "repo_finish R k h (finish_authorize s k fp) (finish_verifier s k resp) w = (p, w1)"
    by (cases "repo_finish R k h (finish_authorize s k fp) (finish_verifier s k resp) w")
  have "store w1 = store w \<and> (p = Inl er \<or> (\<exists>t. p = Inl (Plain t)))"
    using stop ok(2) finish_missing [OF ok(2) _ fin] finish_denied [OF ok(2) _ _ fin]
      finish_replayed [OF ok(2) _ _ _ fin] h
    by (auto split: option.splits)
  with run fin show ?thesis
    by (auto simp: service_finish_run [OF ok] repository and_then_def ret_def)
qed

end

end
