(* ===== verification/Json_Text.thy ===== *)
theory Json_Text
  imports Go_Json
begin

section \<open>encoding/json: writing strings\<close>

text \<open>
  How \<open>json.Marshal\<close> writes a string: quotes, backslashes and control characters are escaped, all
  other bytes are copied. The decoder reads such a text back.
\<close>

definition quote :: char where
  "quote = nat_byte 34"

definition backslash :: char where
  "backslash = nat_byte 92"

definition escape_char :: "char \<Rightarrow> string" where
  "escape_char c =
     (let n = byte_nat c in
      if n = 34 \<or> n = 92 then [backslash, c]
      else if n = 8 then [backslash, CHR ''b'']
      else if n = 9 then [backslash, CHR ''t'']
      else if n = 10 then [backslash, CHR ''n'']
      else if n = 12 then [backslash, CHR ''f'']
      else if n = 13 then [backslash, CHR ''r'']
      else if n < 32 then backslash # CHR ''u'' # CHR ''0'' # CHR ''0'' # hex_byte c
      else [c])"

definition escape :: "string \<Rightarrow> string" where
  "escape s = concat (map escape_char s)"

lemma escape_simps [simp]: "escape [] = []" "escape (c # s) = escape_char c @ escape s"
  by (simp_all add: escape_def)

lemma quote_nat [simp]: "byte_nat quote = 34"
  by (simp add: quote_def)

lemma backslash_nat [simp]: "byte_nat backslash = 92"
  by (simp add: backslash_def)

lemma escape_letters: "byte_nat CHR ''b'' = 98" "byte_nat CHR ''t'' = 116" "byte_nat CHR ''n'' = 110"
  "byte_nat CHR ''f'' = 102" "byte_nat CHR ''r'' = 114" "byte_nat CHR ''u'' = 117"
  "hex_value CHR ''0'' = Some 0"
  by (simp_all add: byte_nat_def hex_value_def)

lemma nat_byte_eq: "byte_nat c = n \<Longrightarrow> nat_byte n = c"
  by auto

lemma scan_escape_char: "scan_string (escape_char c @ t) = prepend [c] (scan_string t)"
proof -
  let ?n = "byte_nat c"
  consider "?n = 34 \<or> ?n = 92" | "?n \<in> {8, 9, 10, 12, 13}" | "?n < 32" "?n \<notin> {8, 9, 10, 12, 13}"
    | "32 \<le> ?n" "?n \<noteq> 34" "?n \<noteq> 92" by force
  then show ?thesis
  proof cases
    case 1
    then show ?thesis by (auto simp: escape_char_def simple_escape_def Let_def)
  next
    case 2
    then show ?thesis
      by (auto simp: escape_char_def simple_escape_def Let_def escape_letters nat_byte_eq)
  next
    case 3
    then have "hex_value (hex_digits ! (?n div 16)) = Some (?n div 16)"
      "hex_value (hex_digits ! (?n mod 16)) = Some (?n mod 16)"
      by (simp_all add: hex_digits_le)
    moreover have "utf8_encode ?n = [c]" using 3 by (simp add: utf8_encode_def nat_byte_eq)
    ultimately show ?thesis using 3
      by (simp add: escape_char_def Let_def hex_byte_def hex4_def escape_letters)
  next
    case 4
    then show ?thesis by (simp add: escape_char_def Let_def)
  qed
qed

lemma prepend_append: "prepend a (prepend b x) = prepend (a @ b) x"
  by (cases x) (auto simp: prepend_def)

text \<open>What is written is read back.\<close>

lemma scan_escape: "scan_string (escape s @ quote # r) = Some (s, r)"
proof (induction s)
  case (Cons c s)
  have "scan_string (escape (c # s) @ quote # r) = prepend [c] (scan_string (escape s @ quote # r))"
    using scan_escape_char [of c "escape s @ quote # r"] by simp
  with Cons show ?case by (simp add: prepend_def)
qed simp

subsection \<open>UTF-8 of what is written\<close>

lemma utf8_codes_append: "utf8_codes xs \<Longrightarrow> utf8_codes ys \<Longrightarrow> utf8_codes (xs @ ys)"
  by (induction xs rule: utf8_codes.induct) (auto split: if_splits list.splits)

lemma utf8_append: "utf8_valid a \<Longrightarrow> utf8_valid b \<Longrightarrow> utf8_valid (a @ b)"
  by (simp add: utf8_valid_def utf8_codes_append)

lemma utf8_ascii: "\<forall>c \<in> set s. byte_nat c < 128 \<Longrightarrow> utf8_valid s"
  unfolding utf8_valid_def by (rule utf8_codes_ascii) simp

lemma utf8_nil [simp]: "utf8_valid []"
  by (simp add: utf8_valid_def)

lemma utf8_ascii_Cons: "byte_nat c < 128 \<Longrightarrow> utf8_valid (c # s) = utf8_valid s"
  by (simp add: utf8_valid_def)

lemma hex_digit_ascii: "n < 16 \<Longrightarrow> byte_nat (hex_digits ! n) < 128"
proof -
  have "\<forall>n \<in> set [0..<16]. byte_nat (hex_digits ! n) < 128" by code_simp
  then show "n < 16 \<Longrightarrow> byte_nat (hex_digits ! n) < 128" by simp
qed

lemma escape_char_ascii: "byte_nat c < 128 \<Longrightarrow> x \<in> set (escape_char c) \<Longrightarrow> byte_nat x < 128"
  by (auto simp: escape_char_def Let_def hex_byte_def escape_letters hex_digit_ascii byte_nat_def [of "CHR ''0''"]
      split: if_splits)

lemma escape_char_other: "128 \<le> byte_nat c \<Longrightarrow> escape_char c = [c]"
  by (simp add: escape_char_def Let_def)

text \<open>A code point of more than one byte: what follows it decides.\<close>

lemma utf8_wide:
  assumes "utf8_codes (a # r)" and "128 \<le> a"
  obtains m r2 where "r = m @ r2" "m \<noteq> []" "\<forall>n \<in> set m. 128 \<le> n" "utf8_codes r2"
    "\<And>t. utf8_codes (a # m @ t) = utf8_codes t"
proof -
  have cont: "is_cont n \<Longrightarrow> 128 \<le> n" for n by (simp add: is_cont_def)
  consider "194 \<le> a" "a \<le> 223" | "224 \<le> a" "a \<le> 239" | "240 \<le> a" "a \<le> 244"
    using assms by (auto split: if_splits)
  then show ?thesis
  proof cases
    case 1
    with assms(1) obtain b r2 where "r = b # r2" "is_cont b" "utf8_codes r2" by (auto split: list.splits)
    with 1 that [of "[b]" r2] cont show ?thesis by simp
  next
    case 2
    with assms(1) obtain b c r2 where r: "r = b # c # r2" "is_cont c" "utf8_codes r2"
      and b: "if a = 224 then 160 \<le> b \<and> b \<le> 191 else if a = 237 then 128 \<le> b \<and> b \<le> 159 else is_cont b"
      by (auto split: list.splits)
    from b have "128 \<le> b" using cont [of b] by (auto split: if_splits)
    with 2 r b that [of "[b, c]" r2] cont show ?thesis by simp
  next
    case 3
    with assms(1) obtain b c d r2 where r: "r = b # c # d # r2" "is_cont c" "is_cont d" "utf8_codes r2"
      and b: "if a = 240 then 144 \<le> b \<and> b \<le> 191 else if a = 244 then 128 \<le> b \<and> b \<le> 143 else is_cont b"
      by (auto split: list.splits)
    from b have "128 \<le> b" using cont [of b] by (auto split: if_splits)
    with 3 r b that [of "[b, c, d]" r2] cont show ?thesis by simp
  qed
qed

lemma escape_wide: "\<forall>c \<in> set s. 128 \<le> byte_nat c \<Longrightarrow> escape (s @ t) = s @ escape t"
  by (induction s) (auto simp: escape_char_other)

lemma escape_utf8: "utf8_valid s \<Longrightarrow> utf8_valid (escape s)"
proof (induction s rule: measure_induct_rule [where f = length])
  case (less s)
  show ?case
  proof (cases s)
    case (Cons a r)
    show ?thesis
    proof (cases "byte_nat a < 128")
      case True
      with less Cons have "utf8_valid (escape r)" by (simp add: utf8_ascii_Cons)
      with True escape_char_ascii show ?thesis
        unfolding Cons escape_simps by (blast intro: utf8_append utf8_ascii)
    next
      case False
      with less.prems Cons have "utf8_codes (byte_nat a # map byte_nat r)" "128 \<le> byte_nat a"
        by (simp_all add: utf8_valid_def del: utf8_codes.simps)
      then obtain m r2 where m: "map byte_nat r = m @ r2" "m \<noteq> []" "\<forall>n \<in> set m. 128 \<le> n"
        "utf8_codes r2" "\<And>t. utf8_codes (byte_nat a # m @ t) = utf8_codes t"
        by (rule utf8_wide) (metis that)
      let ?k = "length m"
      have r: "r = take ?k r @ drop ?k r" "map byte_nat (take ?k r) = m" "map byte_nat (drop ?k r) = r2"
        using m(1) by (simp_all add: take_map [symmetric] drop_map [symmetric])
      have "utf8_valid (escape (drop ?k r))"
        using less.IH [of "drop ?k r"] Cons r(3) m(4) by (simp add: utf8_valid_def)
      moreover have "escape s = a # take ?k r @ escape (drop ?k r)"
      proof -
        have "\<forall>n \<in> set (map byte_nat (take ?k r)). 128 \<le> n" using m(3) unfolding r(2) .
        then have "\<forall>c \<in> set (take ?k r). 128 \<le> byte_nat c" by simp
        then have "escape r = take ?k r @ escape (drop ?k r)" using escape_wide r(1) by metis
        with False Cons show ?thesis by (simp add: escape_char_other)
      qed
      ultimately show ?thesis using m(5) r(2) by (simp add: utf8_valid_def del: utf8_codes.simps)
    qed
  qed simp
qed

end
