(* ===== verification/Strict_Json.thy ===== *)
theory Strict_Json
  imports Json_Text Passkey_Domain
begin

section \<open>Strict request decoding: app/json.go\<close>

text \<open>
  \<open>strictJSON\<close>: the check for an object, the token pass that keeps the nesting limit, and
  \<open>json.Unmarshal\<close> with \<open>RejectUnknownMembers\<close> into a struct. A struct is the list of its
  member names, each a string or a raw JSON value; decoding gives the value of every member.
\<close>

definition is_end :: "jtoken \<Rightarrow> bool" where
  "is_end t \<longleftrightarrow> t = TEndObject \<or> t = TEndArray"

function token_pass :: "jstack \<Rightarrow> bytes \<Rightarrow> err option" where
  "token_pass st s =
     (case read_token st s of
        JEof \<Rightarrow> None
      | JError \<Rightarrow> Some (Plain ''jsontext: invalid JSON'')
      | JToken t st' r \<Rightarrow>
          if length st > 32 \<and> \<not> is_end t then Some (Plain ''JSON nesting limit exceeded'')
          else token_pass st' r)"
  by pat_completeness auto
termination
  by (relation "measure (\<lambda>(st, s). length s)") (auto dest: read_token_shorter)

declare token_pass.simps [simp del]

subsection \<open>Unmarshal into a struct\<close>

datatype member_type = StringMember | RawMember

type_synonym struct_type = "string \<rightharpoonup> member_type"
type_synonym struct = "string \<Rightarrow> bytes"

definition empty_struct :: struct where
  "empty_struct = (\<lambda>_. [])"

text \<open>The text of the value the decoder stands before, between \<open>s\<close> and the rest \<open>r\<close>.\<close>

definition raw_value :: "bytes \<Rightarrow> bytes \<Rightarrow> bytes" where
  "raw_value s r = (let v = skip_ws (drop 1 (skip_ws s)) in take (length v - length r) v)"

definition decode_member :: "member_type \<Rightarrow> jstack \<Rightarrow> bytes \<Rightarrow> bytes \<Rightarrow> err + bytes" where
  "decode_member ty st s r =
     (case ty of
        RawMember \<Rightarrow> Inr (raw_value s r)
      | StringMember \<Rightarrow>
          (case read_token st s of
             JToken t _ _ \<Rightarrow>
               (case t of
                  TString x \<Rightarrow> Inr x
                | TNull \<Rightarrow> Inr []
                | _ \<Rightarrow> Inl (Plain ''cannot unmarshal into Go string''))
           | _ \<Rightarrow> Inl (Plain ''jsontext: invalid JSON'')))"

function decode_members :: "struct_type \<Rightarrow> jstack \<Rightarrow> bytes \<Rightarrow> struct \<Rightarrow> err + struct \<times> bytes" where
  "decode_members ty st s acc =
     (case read_token st s of
        JToken t st1 r1 \<Rightarrow>
          (case t of
             TEndObject \<Rightarrow> Inr (acc, r1)
           | TString name \<Rightarrow>
               (case ty name of
                  None \<Rightarrow> Inl (Plain ''unknown object member name'')
                | Some m \<Rightarrow>
                    (case skip_value (length st) st1 r1 of
                       None \<Rightarrow> Inl (Plain ''jsontext: invalid JSON'')
                     | Some (st2, r2) \<Rightarrow>
                         (case decode_member m st1 r1 r2 of
                            Inl e \<Rightarrow> Inl e
                          | Inr v \<Rightarrow> decode_members ty st2 r2 (acc(name := v)))))
           | _ \<Rightarrow> Inl (Plain ''jsontext: invalid JSON''))
      | _ \<Rightarrow> Inl (Plain ''jsontext: invalid JSON''))"
  by pat_completeness auto
termination
  by (relation "measure (\<lambda>(ty, st, s, acc). length s)")
    (auto dest!: read_token_shorter skip_value_shorter)

declare decode_members.simps [simp del]

definition unmarshal :: "struct_type \<Rightarrow> bytes \<Rightarrow> err + struct" where
  "unmarshal ty s =
     (case read_token [] s of
        JToken TBeginObject st r \<Rightarrow>
          (case decode_members ty st r empty_struct of
             Inl e \<Rightarrow> Inl e
           | Inr (x, r2) \<Rightarrow>
               if skip_ws r2 = [] then Inr x else Inl (Plain ''invalid character after top-level value''))
      | _ \<Rightarrow> Inl (Plain ''cannot unmarshal into Go struct''))"

text \<open>\<open>strictJSON\<close> with any target: \<open>decode\<close> is \<open>json.Unmarshal\<close> into it.\<close>

definition strict_with :: "(bytes \<Rightarrow> err + 'a) \<Rightarrow> bytes \<Rightarrow> err + 'a" where
  "strict_with decode data =
     (case trim_space data of
        [] \<Rightarrow> Inl (Plain ''expected JSON object'')
      | c # _ \<Rightarrow>
          if c \<noteq> CHR ''{'' then Inl (Plain ''expected JSON object'')
          else
            (case token_pass [] data of
               Some e \<Rightarrow> Inl e
             | None \<Rightarrow> decode data))"

definition strict_json :: "struct_type \<Rightarrow> bytes \<Rightarrow> err + struct" where
  "strict_json ty = strict_with (unmarshal ty)"

subsection \<open>The nesting limit\<close>

lemma length_value_done [simp]: "length (value_done st) = length st"
  by (auto simp: value_done_def split: list.splits frame.splits)

lemma read_value_depth:
  "read_value st s = JToken t st' r \<Longrightarrow>
    length st' = length st + (if t = TBeginObject \<or> t = TBeginArray then 1 else 0) \<and> \<not> is_end t"
  by (auto simp: read_value_def open_container_def literal_def is_end_def
      split: list.splits if_splits option.splits)

lemma read_name_depth:
  "read_name ns up s = JToken t st' r \<Longrightarrow> length st' = Suc (length up) \<and> \<not> is_end t
    \<and> t \<noteq> TBeginObject \<and> t \<noteq> TBeginArray"
  by (auto simp: read_name_def is_end_def split: list.splits if_splits option.splits)

text \<open>An end token closes one container, a begin token opens one, any other keeps the depth.\<close>

lemma read_token_depth:
  assumes "read_token st s = JToken t st' r"
  shows "if is_end t then length st = Suc (length st')
    else length st' = length st + (if t = TBeginObject \<or> t = TBeginArray then 1 else 0)"
  using assms
  by (cases "(st, s)" rule: read_token.cases)
    (auto split: if_splits list.splits dest!: read_value_depth read_name_depth simp: is_end_def)

text \<open>The tokens the pass reads, one by one.\<close>

inductive reads :: "jstack \<Rightarrow> bytes \<Rightarrow> jstack \<Rightarrow> bytes \<Rightarrow> bool" where
  reads_none: "reads st s st s"
| reads_token: "read_token st s = JToken t st1 r1 \<Longrightarrow> reads st1 r1 st' r \<Longrightarrow> reads st s st' r"

lemma token_pass_token:
  assumes "token_pass st s = None" and "read_token st s = JToken t st' r"
  shows "token_pass st' r = None" "length st > 32 \<longrightarrow> is_end t"
  using assms by (auto simp: token_pass.simps [of st s] split: if_splits)

lemma token_pass_depth:
  assumes "reads st s st' r" and "token_pass st s = None" and "length st \<le> 33"
  shows "length st' \<le> 33"
  using assms
proof (induction rule: reads.induct)
  case (reads_token st s t st1 r1 st' r)
  note step = token_pass_token [OF reads_token.prems(1) reads_token.hyps(1)]
  have "length st1 \<le> 33"
    using read_token_depth [OF reads_token.hyps(1)] step(2) reads_token.prems(2)
    by (auto split: if_splits)
  with reads_token.IH step(1) show ?case by simp
qed

subsection \<open>Arrays within arrays\<close>

lemma bracket_tokens:
  "read_token [] (CHR ''['' # r) = (if max_nesting = 0 then JError else JToken TBeginArray [FArray False] r)"
  "read_token (FArray False # up) (CHR ''['' # r) =
    (if Suc (length up) = max_nesting then JError
     else JToken TBeginArray (FArray False # FArray True # up) r)"
  "read_token (FArray b # up) (CHR '']'' # r) = JToken TEndArray up r"
  "read_token [] [] = JEof"
  by (simp_all add: is_json_space_def byte_nat_def read_value_def open_container_def value_done_def)

lemma token_pass_closing:
  "token_pass (map FArray bs) (replicate (length bs) CHR '']'') = None"
proof (induction bs)
  case Nil
  show ?case by (simp add: token_pass.simps [of "[]" "[]"])
next
  case (Cons b bs)
  then show ?case
    by (simp add: token_pass.simps [of "FArray b # map FArray bs"] bracket_tokens is_end_def
        del: read_token.simps)
qed

lemma token_pass_opening:
  "token_pass (map FArray (False # replicate k True))
      (replicate m CHR ''['' @ replicate (Suc k + m) CHR '']'') = None
    \<longleftrightarrow> m = 0 \<or> Suc k + m \<le> 33"
proof (induction m arbitrary: k)
  case 0
  show ?case using token_pass_closing [of "False # replicate k True"] by simp
next
  case (Suc m)
  let ?rest = "replicate m CHR ''['' @ replicate (Suc (Suc k) + m) CHR '']''"
  have len: "replicate (Suc m) CHR ''['' @ replicate (Suc k + Suc m) CHR '']'' = CHR ''['' # ?rest"
    by simp
  have stack: "FArray False # FArray True # map FArray (replicate k True)
    = map FArray (False # replicate (Suc k) True)" by simp
  show ?case
  proof (cases "k < 32")
    case True
    then have "read_token (map FArray (False # replicate k True)) (CHR ''['' # ?rest)
      = JToken TBeginArray (map FArray (False # replicate (Suc k) True)) ?rest"
      by (simp add: bracket_tokens max_nesting_def del: read_token.simps)
    with True have "token_pass (map FArray (False # replicate k True)) (CHR ''['' # ?rest)
      = token_pass (map FArray (False # replicate (Suc k) True)) ?rest"
      by (simp only: token_pass.simps [of _ "CHR ''['' # ?rest"]) (simp add: is_end_def)
    with Suc.IH [of "Suc k"] True show ?thesis unfolding len by auto
  next
    case False
    then have "\<exists>e. token_pass (map FArray (False # replicate k True)) (CHR ''['' # ?rest) = Some e"
      by (simp only: token_pass.simps [of _ "CHR ''['' # ?rest"])
        (simp add: bracket_tokens is_end_def del: read_token.simps)
    with False show ?thesis unfolding len by auto
  qed
qed

lemma nested_arrays_pass:
  "token_pass [] (replicate n CHR ''['' @ replicate n CHR '']'') = None \<longleftrightarrow> n \<le> 33"
proof (cases n)
  case 0
  then show ?thesis by (simp add: token_pass.simps [of "[]" "[]"])
next
  case (Suc m)
  let ?rest = "replicate m CHR ''['' @ replicate (Suc 0 + m) CHR '']''"
  have "token_pass [] (CHR ''['' # ?rest) = token_pass (map FArray (False # replicate 0 True)) ?rest"
    by (simp only: token_pass.simps [of _ "CHR ''['' # ?rest"])
      (simp add: bracket_tokens max_nesting_def is_end_def del: read_token.simps)
  with token_pass_opening [of 0 m] Suc show ?thesis by auto
qed

subsection \<open>What decoding accepts\<close>

text \<open>Every member that was set is declared; the others keep the zero value.\<close>

lemma decode_members_declared:
  "decode_members ty st s acc = Inr (x, r) \<Longrightarrow> ty name = None \<Longrightarrow> x name = acc name"
proof (induction ty st s acc rule: decode_members.induct)
  case (1 ty st s acc)
  show ?case
  proof (cases "read_token st s")
    case (JToken t st1 r1)
    show ?thesis
    proof (cases t)
      case (TString m)
      with JToken "1.prems" obtain mt st2 r2 v where "ty m = Some mt"
        "skip_value (length st) st1 r1 = Some (st2, r2)" "decode_member mt st1 r1 r2 = Inr v"
        "decode_members ty st2 r2 (acc(m := v)) = Inr (x, r)"
        by (auto simp: decode_members.simps [of ty st s] split: option.splits sum.splits)
      with "1.IH" [OF JToken TString this(1,2) _ this(3)] "1.prems"(2) show ?thesis by fastforce
    qed (use "1.prems" JToken in \<open>auto simp: decode_members.simps [of ty st s]\<close>)
  qed (use "1.prems" in \<open>auto simp: decode_members.simps [of ty st s]\<close>)
qed

lemma strict_json_Inr:
  assumes "strict_json ty data = Inr x"
  shows "token_pass [] data = None \<and> unmarshal ty data = Inr x
    \<and> (\<exists>r. trim_space data = CHR ''{'' # r)"
  using assms by (auto simp: strict_json_def strict_with_def split: list.splits if_splits option.splits)

lemma unmarshal_declared: "unmarshal ty s = Inr x \<Longrightarrow> ty name = None \<Longrightarrow> x name = []"
  by (auto simp: unmarshal_def empty_struct_def dest: decode_members_declared
      split: jread.splits jtoken.splits sum.splits if_splits)


subsection \<open>Printed objects decode to their members\<close>

text \<open>
  The body a client writes for members with plain names (printable ASCII without quote and
  backslash, which JSON does not escape) and any UTF-8 text as values.
\<close>

definition plain_char :: "char \<Rightarrow> bool" where
  "plain_char c \<longleftrightarrow> 32 \<le> byte_nat c \<and> byte_nat c < 128 \<and> byte_nat c \<noteq> 34 \<and> byte_nat c \<noteq> 92"

definition plain :: "string \<Rightarrow> bool" where
  "plain s \<longleftrightarrow> list_all plain_char s"

definition member_text :: "string \<times> string \<Rightarrow> string" where
  "member_text m = quote # fst m @ quote # CHR '':'' # quote # escape (snd m) @ [quote]"

fun more_members :: "(string \<times> string) list \<Rightarrow> string" where
  "more_members [] = ''}''"
| "more_members (m # ms) = CHR '','' # member_text m @ more_members ms"

fun object_text :: "(string \<times> string) list \<Rightarrow> string" where
  "object_text [] = ''{}''"
| "object_text (m # ms) = CHR ''{'' # member_text m @ more_members ms"

lemma punctuation_nat:
  "byte_nat CHR '','' = 44" "byte_nat CHR '':'' = 58" "byte_nat CHR ''{'' = 123"
  "byte_nat CHR ''}'' = 125"
  by (simp_all add: byte_nat_def)

lemma quote_not_punctuation [simp]:
  "quote \<noteq> CHR '',''" "quote \<noteq> CHR '':''" "quote \<noteq> CHR ''{''" "quote \<noteq> CHR ''}''" "quote \<noteq> CHR ''[''"
  by code_simp+

lemma not_space [simp]:
  "\<not> is_json_space quote" "\<not> is_json_space CHR '',''" "\<not> is_json_space CHR '':''"
  "\<not> is_json_space CHR ''{''" "\<not> is_json_space CHR ''}''"
  by (simp_all add: is_json_space_def punctuation_nat)

lemma scan_string_plain: "plain s \<Longrightarrow> scan_string (s @ quote # r) = Some (s, r)"
  by (induction s) (auto simp: plain_def plain_char_def prepend_def)

lemma plain_utf8: "plain s \<Longrightarrow> utf8_valid s"
  unfolding utf8_valid_def by (rule utf8_codes_ascii) (auto simp: plain_def plain_char_def list_all_iff)

lemma read_name_plain:
  "plain n \<Longrightarrow> n \<notin> set ns \<Longrightarrow> read_name ns up (quote # n @ quote # r)
    = JToken (TString n) (FObject (n # ns) True # up) r"
  by (simp add: read_name_def scan_string_plain plain_utf8)

lemma read_string_text:
  "utf8_valid v \<Longrightarrow> read_token (FObject ns True # up) (CHR '':'' # quote # escape v @ quote # r)
    = JToken (TString v) (FObject ns False # up) r"
  by (simp add: read_value_def scan_escape value_done_def)

lemma read_next_name:
  "plain n \<Longrightarrow> n \<notin> set ns \<Longrightarrow> ns \<noteq> [] \<Longrightarrow>
    read_token (FObject ns False # up) (CHR '','' # quote # n @ quote # r)
      = JToken (TString n) (FObject (n # ns) True # up) r"
  by (simp add: read_name_plain)

lemma read_first_name:
  "plain n \<Longrightarrow> read_token (FObject [] False # up) (quote # n @ quote # r)
    = JToken (TString n) (FObject [n] True # up) r"
  by (simp add: read_name_plain)

lemma read_close: "read_token (FObject ns False # up) (CHR ''}'' # r) = JToken TEndObject up r"
  by simp

lemma read_open: "read_token [] (CHR ''{'' # r) = JToken TBeginObject [FObject [] False] r"
  by (simp add: read_value_def open_container_def value_done_def max_nesting_def)

lemma raw_value_simps: "decode_member StringMember (FObject ns True # up)
    (CHR '':'' # quote # escape v @ quote # r) r2 = Inr v" if "utf8_valid v"
  using that by (simp add: decode_member_def read_string_text del: read_token.simps)

lemma skip_value_plain:
  "utf8_valid v \<Longrightarrow> skip_value (Suc (length up)) (FObject ns True # up) (CHR '':'' # quote # escape v @ quote # r)
    = Some (FObject ns False # up, r)"
  by (simp add: skip_value.simps [of _ "FObject ns True # up"] read_string_text del: read_token.simps)

fun set_members :: "struct \<Rightarrow> (string \<times> string) list \<Rightarrow> struct" where
  "set_members x [] = x"
| "set_members x (m # ms) = set_members (x(fst m := snd m)) ms"

definition plain_members :: "(string \<times> string) list \<Rightarrow> bool" where
  "plain_members ms \<longleftrightarrow> list_all (\<lambda>m. plain (fst m) \<and> utf8_valid (snd m)) ms \<and> distinct (map fst ms)"

lemma decode_more_members:
  "list_all (\<lambda>m. plain (fst m) \<and> utf8_valid (snd m) \<and> ty (fst m) = Some StringMember \<and> fst m \<notin> set ns) ms \<Longrightarrow>
    distinct (map fst ms) \<Longrightarrow> ns \<noteq> [] \<Longrightarrow>
    decode_members ty [FObject ns False] (more_members ms @ r) acc
      = Inr (set_members acc ms, r)"
proof (induction ms arbitrary: ns acc)
  case Nil
  then show ?case
    by (simp add: decode_members.simps [of _ "[FObject ns False]"] read_close del: read_token.simps)
next
  case (Cons m ms)
  then have IH: "decode_members ty [FObject (fst m # ns) False] (more_members ms @ r) (acc(fst m := snd m))
      = Inr (set_members (acc(fst m := snd m)) ms, r)"
    by (intro Cons.IH) (auto simp: list_all_iff rev_image_eqI)
  from Cons.prems show ?case
    by (simp add: decode_members.simps [of _ "[FObject ns False]"] member_text_def read_next_name
        skip_value_plain [where up = "[]", simplified] raw_value_simps IH del: read_token.simps)
qed

lemma unmarshal_object_before:
  assumes "plain_members ms" and "list_all (\<lambda>m. ty (fst m) = Some StringMember) ms" and "skip_ws r = []"
  shows "unmarshal ty (object_text ms @ r) = Inr (set_members empty_struct ms)"
proof (cases ms)
  case Nil
  with assms(3) show ?thesis
    by (simp add: unmarshal_def read_open decode_members.simps [of _ "[FObject [] False]"] read_close
        del: read_token.simps)
next
  case (Cons m ms')
  have "decode_members ty [FObject [fst m] False] (more_members ms' @ r) (empty_struct(fst m := snd m))
    = Inr (set_members (empty_struct(fst m := snd m)) ms', r)"
    by (rule decode_more_members) (use assms Cons in \<open>auto simp: plain_members_def list_all_iff rev_image_eqI\<close>)
  with assms Cons show ?thesis
    by (simp add: unmarshal_def read_open decode_members.simps [of _ "[FObject [] False]"]
        member_text_def read_first_name skip_value_plain [where up = "[]", simplified]
        raw_value_simps plain_members_def del: read_token.simps)
qed

lemmas unmarshal_object = unmarshal_object_before [where r = "[]", simplified]


lemma pass_string_token:
  "read_token st s = JToken (TString x) st' r \<Longrightarrow> length st \<le> 32 \<Longrightarrow> token_pass st s = token_pass st' r"
  by (simp add: token_pass.simps [of st s])

lemma pass_more_members:
  "list_all (\<lambda>m. plain (fst m) \<and> utf8_valid (snd m) \<and> fst m \<notin> set ns) ms \<Longrightarrow>
    distinct (map fst ms) \<Longrightarrow> ns \<noteq> [] \<Longrightarrow> token_pass [FObject ns False] (more_members ms) = None"
proof (induction ms arbitrary: ns)
  case Nil
  show ?case
    by (simp add: token_pass.simps [of "[FObject ns False]"] token_pass.simps [of "[]" "[]"]
        read_close [of ns "[]" "[]"] is_end_def del: read_token.simps) (simp add: token_pass.simps)
next
  case (Cons m ms)
  then have IH: "token_pass [FObject (fst m # ns) False] (more_members ms) = None"
    by (intro Cons.IH) (auto simp: list_all_iff rev_image_eqI)
  from Cons.prems show ?case
    by (simp add: member_text_def pass_string_token [OF read_next_name]
        pass_string_token [OF read_string_text] IH del: read_token.simps)
qed

lemma pass_object:
  assumes "plain_members ms"
  shows "token_pass [] (object_text ms) = None"
proof (cases ms)
  case Nil
  show ?thesis
    by (simp add: Nil token_pass.simps [of "[]"] token_pass.simps [of "[FObject [] False]"]
        read_open read_close is_end_def del: read_token.simps) (simp add: token_pass.simps)
next
  case (Cons m ms')
  have "token_pass [FObject [fst m] False] (more_members ms') = None"
    by (rule pass_more_members) (use assms Cons in \<open>auto simp: plain_members_def list_all_iff rev_image_eqI\<close>)
  with assms Cons show ?thesis
    by (simp add: token_pass.simps [of "[]"] read_open member_text_def
        pass_string_token [OF read_first_name] pass_string_token [OF read_string_text]
        plain_members_def is_end_def del: read_token.simps)
qed


lemma more_members_end: "\<exists>p. more_members ms = p @ ''}''"
  by (induction ms) auto

lemma object_text_ends:
  obtains s where "object_text ms = CHR ''{'' # s @ ''}''"
proof (cases ms)
  case (Cons m ms')
  from more_members_end [of ms'] obtain p where "more_members ms' = p @ ''}''" ..
  with Cons that [of "member_text m @ p"] show ?thesis by simp
qed (use that [of "[]"] in simp)

lemma strict_object:
  assumes "plain_members ms" and "list_all (\<lambda>m. ty (fst m) = Some StringMember) ms"
  shows "strict_json ty (object_text ms) = Inr (set_members empty_struct ms)"
proof -
  obtain s where s: "object_text ms = CHR ''{'' # s @ ''}''" by (rule object_text_ends)
  have "no_space_byte CHR ''{''" "no_space_byte CHR ''}''"
    by (rule no_space_byte_graphic; simp add: punctuation_nat)+
  then have "trim_space (object_text ms) = CHR ''{'' # s @ ''}''"
    using trim_space_graphic s by simp
  with pass_object [OF assms(1)] unmarshal_object [OF assms] show ?thesis
    by (simp add: strict_json_def strict_with_def)
qed

lemma set_members_other: "name \<notin> fst ` set ms \<Longrightarrow> set_members x ms name = x name"
  by (induction ms arbitrary: x) auto

lemma set_members_value: "distinct (map fst ms) \<Longrightarrow> (n, v) \<in> set ms \<Longrightarrow> set_members x ms n = v"
proof (induction ms arbitrary: x)
  case (Cons m ms)
  then show ?case by (cases "m = (n, v)") (auto simp: set_members_other rev_image_eqI)
qed simp

subsection \<open>Printed objects are UTF-8\<close>

lemma member_text_utf8:
  assumes "plain (fst m)" and "utf8_valid (snd m)"
  shows "utf8_valid (member_text m)"
proof -
  have "utf8_valid (escape (snd m) @ [quote])"
    by (rule utf8_append) (simp_all add: escape_utf8 assms(2) utf8_ascii_Cons)
  then have "utf8_valid (quote # CHR '':'' # quote # escape (snd m) @ [quote])"
    by (simp add: utf8_ascii_Cons punctuation_nat)
  from utf8_append [OF plain_utf8 [OF assms(1)] this]
  show ?thesis by (simp add: member_text_def utf8_ascii_Cons)
qed

lemma more_members_utf8:
  "list_all (\<lambda>m. plain (fst m) \<and> utf8_valid (snd m)) ms \<Longrightarrow> utf8_valid (more_members ms)"
proof (induction ms)
  case (Cons m ms)
  then have "utf8_valid (member_text m)" "utf8_valid (more_members ms)"
    by (simp_all add: member_text_utf8)
  then show ?case by (simp add: utf8_append utf8_ascii_Cons punctuation_nat)
qed (simp add: utf8_ascii_Cons punctuation_nat)

lemma object_text_utf8:
  assumes "plain_members ms"
  shows "utf8_valid (object_text ms)"
proof (cases ms)
  case (Cons m ms')
  with assms have "utf8_valid (member_text m)" "utf8_valid (more_members ms')"
    by (simp_all add: plain_members_def member_text_utf8 more_members_utf8)
  with Cons show ?thesis by (simp add: utf8_append utf8_ascii_Cons punctuation_nat)
qed (simp add: utf8_ascii_Cons punctuation_nat)

end
