(* ===== verification/Api.thy ===== *)
theory Api
  imports Lifecycle Strict_Json
begin

section \<open>The HTTP API: app/api.go\<close>

text \<open>
  A request as \<open>net/http\<close> hands it over: method, the percent-decoded segments of the path (an
  empty last one for a trailing slash), raw query, the media type
  \<open>mime.ParseMediaType\<close> finds in the Content-Type header (\<^const>\<open>None\<close> for an error), the body
  (\<^const>\<open>None\<close> when reading it fails), whether TLS verified a chain, the peer certificates in
  DER, whether it came over TLS, the Host, the values of the Origin header, and the values of the
  cookies named \<open>shellty_admin\<close>. Handlers are functions from the world to the response and the new world. The JSON encoder
  is an argument: \<open>enc\<close> gives the text \<open>json.Marshal\<close> returns, or \<^const>\<open>None\<close> for its error.
  Paths are clean: the redirects \<open>ServeMux\<close> sends to the clean path or to a missing trailing
  slash are an argument. Logging has no effect on the responses and is left out.
\<close>

record http_request =
  rq_method :: string
  rq_path :: "string list"
  rq_query :: string
  rq_media :: "string option"
  rq_body :: "bytes option"
  rq_verified :: bool
  rq_certs :: "bytes list"
  rq_tls :: bool
  rq_host :: string
  rq_origins :: "string list"
  rq_cookies :: "string list"

datatype payload =
    ErrorBody string
  | StatusBody string
  | StartBody start_result
  | FinishBody finish_result
  | CredentialsBody "credential list"

record http_response =
  rs_status :: nat
  rs_headers :: "(string \<times> string) list"
  rs_body :: bytes

type_synonym handler = "world \<Rightarrow> http_response \<times> world"
type_synonym encoder = "payload \<Rightarrow> bytes option"

text \<open>The interface \<open>Passkeys\<close>: the commands and queries of the service.\<close>

record passkeys =
  ps_start :: "kind \<Rightarrow> string \<Rightarrow> string \<Rightarrow> string \<Rightarrow> string \<Rightarrow> start_result eff"
  ps_finish :: "kind \<Rightarrow> string \<Rightarrow> bytes \<Rightarrow> string \<Rightarrow> finish_result eff"
  ps_credentials :: "string \<Rightarrow> string \<Rightarrow> string \<Rightarrow> credential list eff"
  ps_delete :: "string \<Rightarrow> string \<Rightarrow> string \<Rightarrow> string \<Rightarrow> unit eff"

definition service_passkeys :: "env \<Rightarrow> service \<Rightarrow> passkeys" where
  "service_passkeys E s =
     \<lparr>ps_start = service_start E s, ps_finish = service_finish E s,
      ps_credentials = service_credentials s, ps_delete = service_delete s\<rparr>"

subsection \<open>Responses\<close>

definition newline_byte :: char where
  "newline_byte = nat_byte 10"

definition json_response :: "nat \<Rightarrow> bytes \<Rightarrow> http_response" where
  "json_response status data =
     \<lparr>rs_status = status, rs_headers = [(''Content-Type'', ''application/json'')],
      rs_body = data @ [newline_byte]\<rparr>"

definition internal_error_text :: bytes where
  "internal_error_text =
     CHR ''{'' # quote # ''error'' @ quote # CHR '':'' # quote # ''internal_error'' @ [quote, CHR ''}'']"

definition write_json :: "encoder \<Rightarrow> nat \<Rightarrow> payload \<Rightarrow> http_response" where
  "write_json enc status v =
     (case enc v of
        None \<Rightarrow> json_response 500 internal_error_text
      | Some data \<Rightarrow> json_response status data)"

definition error_status :: "err \<Rightarrow> nat \<times> string" where
  "error_status e =
     (case as_code e of
        None \<Rightarrow> (500, ''internal_error'')
      | Some code \<Rightarrow>
          if code = InvalidRequest then (400, code)
          else if code = Forbidden then (403, code)
          else if code = ApplicationNotFound \<or> code = CredentialNotFound
            \<or> code = kind_not_found Registration \<or> code = kind_not_found Authentication
          then (404, code)
          else if code = kind_expired Registration \<or> code = kind_expired Authentication
          then (410, code)
          else if code = kind_invalid Registration \<or> code = kind_invalid Authentication
          then (400, code)
          else if code = Conflict then (409, code)
          else (500, ''internal_error''))"

definition api_fail :: "encoder \<Rightarrow> err \<Rightarrow> http_response" where
  "api_fail enc e =
     (case error_status e of (status, code) \<Rightarrow> write_json enc status (ErrorBody code))"

text \<open>What the deferred \<open>recover\<close> writes after a panic.\<close>

definition recovered :: "encoder \<Rightarrow> http_response" where
  "recovered enc = write_json enc 500 (ErrorBody ''internal_error'')"

text \<open>A handler that has called the service: an error is mapped, a panic is recovered.\<close>

definition respond :: "encoder \<Rightarrow> 'a eff \<Rightarrow> ('a \<Rightarrow> http_response) \<Rightarrow> handler" where
  "respond enc call ok w =
     (case call w of
        (Inl (Panic _), w') \<Rightarrow> (recovered enc, w')
      | (Inl e, w') \<Rightarrow> (api_fail enc e, w')
      | (Inr x, w') \<Rightarrow> (ok x, w'))"

subsection \<open>Reading requests\<close>

definition max_request_bytes :: nat where
  "max_request_bytes = 96 * 1024"

definition fingerprint :: "env \<Rightarrow> http_request \<Rightarrow> string" where
  "fingerprint E rq =
     (if \<not> rq_verified rq then ''''
      else
        (case rq_certs rq of
           [] \<Rightarrow> ''''
         | c # _ \<Rightarrow> ''sha256:'' @ hex_encode (sha256 E c)))"

definition api_decode :: "struct_type \<Rightarrow> http_request \<Rightarrow> err + struct" where
  "api_decode ty rq =
     (if rq_media rq \<noteq> Some ''application/json'' then Inl (Code InvalidRequest)
      else
        (case rq_body rq of
           None \<Rightarrow> Inl (Code InvalidRequest)
         | Some body \<Rightarrow>
             if length body > max_request_bytes \<or> \<not> utf8_valid body then Inl (Code InvalidRequest)
             else
               (case strict_json ty body of
                  Inl _ \<Rightarrow> Inl (Code InvalidRequest)
                | Inr x \<Rightarrow> Inr x)))"

definition start_request :: struct_type where
  "start_request =
     [''application'' \<mapsto> StringMember, ''subject'' \<mapsto> StringMember, ''displayName'' \<mapsto> StringMember]"

definition finish_request :: struct_type where
  "finish_request = [''token'' \<mapsto> StringMember, ''credential'' \<mapsto> RawMember]"

text \<open>\<open>url.ParseQuery\<close>: the pairs it could read, in order, and whether it met an error.\<close>

fun query_unescape :: "string \<Rightarrow> string option" where
  "query_unescape [] = Some []"
| "query_unescape (c # r) =
     (if c = CHR ''%'' then
        (case r of
           a # b # r2 \<Rightarrow>
             (case (hex_value a, hex_value b, query_unescape r2) of
                (Some h, Some l, Some x) \<Rightarrow> Some (nat_byte (16 * h + l) # x)
              | _ \<Rightarrow> None)
         | _ \<Rightarrow> None)
      else if c = CHR ''+'' then map_option (\<lambda>x. CHR '' '' # x) (query_unescape r)
      else map_option (\<lambda>x. c # x) (query_unescape r))"

definition cut_pair :: "string \<Rightarrow> string \<times> string" where
  "cut_pair s =
     (takeWhile (\<lambda>c. c \<noteq> CHR ''='') s, drop 1 (dropWhile (\<lambda>c. c \<noteq> CHR ''='') s))"

fun parse_pairs :: "string list \<Rightarrow> (string \<times> string) list \<times> bool" where
  "parse_pairs [] = ([], False)"
| "parse_pairs (p # ps) =
     (case parse_pairs ps of (q, bad) \<Rightarrow>
        if List.member p CHR '';'' then (q, True)
        else if p = '''' then (q, bad)
        else
          (case cut_pair p of (k, v) \<Rightarrow>
             (case (query_unescape k, query_unescape v) of
                (Some k', Some v') \<Rightarrow> ((k', v') # q, bad)
              | _ \<Rightarrow> (q, True))))"

definition parse_query :: "string \<Rightarrow> (string \<times> string) list \<times> bool" where
  "parse_query raw = parse_pairs (split_on CHR ''&'' raw)"

definition query_values :: "(string \<times> string) list \<Rightarrow> string \<Rightarrow> string list" where
  "query_values q k = map snd (filter (\<lambda>p. fst p = k) q)"

definition query_get :: "(string \<times> string) list \<Rightarrow> string \<Rightarrow> string" where
  "query_get q k = (case query_values q k of [] \<Rightarrow> '''' | v # _ \<Rightarrow> v)"

definition scope :: "http_request \<Rightarrow> err + string \<times> string" where
  "scope rq =
     (case parse_query (rq_query rq) of (q, bad) \<Rightarrow>
        if bad \<or> length (remdups (map fst q)) \<noteq> 2
          \<or> length (query_values q ''application'') \<noteq> 1 \<or> length (query_values q ''subject'') \<noteq> 1
        then Inl (Code InvalidRequest)
        else Inr (query_get q ''application'', query_get q ''subject''))"

subsection \<open>Handlers\<close>

definition api_start :: "env \<Rightarrow> encoder \<Rightarrow> passkeys \<Rightarrow> kind \<Rightarrow> http_request \<Rightarrow> handler" where
  "api_start E enc P k rq w =
     (case api_decode start_request rq of
        Inl e \<Rightarrow> (api_fail enc e, w)
      | Inr x \<Rightarrow>
          if k = Authentication \<and> x ''displayName'' \<noteq> '''' then (api_fail enc (Code InvalidRequest), w)
          else
            respond enc
              (ps_start P k (x ''application'') (x ''subject'') (x ''displayName'') (fingerprint E rq))
              (\<lambda>r. write_json enc 200 (StartBody r)) w)"

definition api_finish :: "env \<Rightarrow> encoder \<Rightarrow> passkeys \<Rightarrow> kind \<Rightarrow> http_request \<Rightarrow> handler" where
  "api_finish E enc P k rq w =
     (case api_decode finish_request rq of
        Inl e \<Rightarrow> (api_fail enc e, w)
      | Inr x \<Rightarrow>
          respond enc (ps_finish P k (x ''token'') (x ''credential'') (fingerprint E rq))
            (\<lambda>r. write_json enc 200 (FinishBody r)) w)"

definition api_credentials :: "env \<Rightarrow> encoder \<Rightarrow> passkeys \<Rightarrow> http_request \<Rightarrow> handler" where
  "api_credentials E enc P rq w =
     (case scope rq of
        Inl e \<Rightarrow> (api_fail enc e, w)
      | Inr (application, subject) \<Rightarrow>
          respond enc (ps_credentials P application subject (fingerprint E rq))
            (\<lambda>r. write_json enc 200 (CredentialsBody r)) w)"

definition no_content :: http_response where
  "no_content = \<lparr>rs_status = 204, rs_headers = [], rs_body = []\<rparr>"

definition api_delete :: "env \<Rightarrow> encoder \<Rightarrow> passkeys \<Rightarrow> string \<Rightarrow> http_request \<Rightarrow> handler" where
  "api_delete E enc P i rq w =
     (case scope rq of
        Inl e \<Rightarrow> (api_fail enc e, w)
      | Inr (application, subject) \<Rightarrow>
          respond enc (ps_delete P application subject i (fingerprint E rq)) (\<lambda>_. no_content) w)"


subsection \<open>Routing\<close>

record api =
  api_service :: passkeys
  api_ready :: "unit eff"
  api_encoder :: encoder
  api_admin :: "(http_request \<Rightarrow> handler) option"
  api_redirect :: "http_request \<Rightarrow> http_response"

definition plain_error :: "nat \<Rightarrow> string \<Rightarrow> (string \<times> string) list \<Rightarrow> http_response" where
  "plain_error status msg headers =
     \<lparr>rs_status = status,
      rs_headers = headers @ [(''Content-Type'', ''text/plain; charset=utf-8'')],
      rs_body = msg @ [newline_byte]\<rparr>"

definition not_found :: handler where
  "not_found w = (plain_error 404 ''404 page not found'' [], w)"

text \<open>A pattern with a method: \<open>GET\<close> also matches \<open>HEAD\<close>.\<close>

definition with_method :: "string \<Rightarrow> handler \<Rightarrow> http_request \<Rightarrow> handler" where
  "with_method m h rq w =
     (if rq_method rq = m \<or> m = ''GET'' \<and> rq_method rq = ''HEAD'' then h w
      else
        (plain_error 405 ''Method Not Allowed''
           [(''Allow'', if m = ''GET'' then ''GET, HEAD'' else m)], w))"

definition integration :: "env \<Rightarrow> encoder \<Rightarrow> passkeys \<Rightarrow> http_request \<Rightarrow> handler" where
  "integration E enc P rq =
     (let p = rq_path rq in
      if p = [''v1'', ''registrations'', ''start'']
      then with_method ''POST'' (api_start E enc P Registration rq) rq
      else if p = [''v1'', ''registrations'', ''finish'']
      then with_method ''POST'' (api_finish E enc P Registration rq) rq
      else if p = [''v1'', ''authentications'', ''start'']
      then with_method ''POST'' (api_start E enc P Authentication rq) rq
      else if p = [''v1'', ''authentications'', ''finish'']
      then with_method ''POST'' (api_finish E enc P Authentication rq) rq
      else if p = [''v1'', ''credentials''] then with_method ''GET'' (api_credentials E enc P rq) rq
      else
        (case p of
           [a, b, i] \<Rightarrow>
             if a = ''v1'' \<and> b = ''credentials'' \<and> i \<noteq> ''''
             then with_method ''DELETE'' (api_delete E enc P i rq) rq
             else not_found
         | _ \<Rightarrow> not_found))"

definition api_v1 :: "env \<Rightarrow> encoder \<Rightarrow> passkeys \<Rightarrow> http_request \<Rightarrow> handler" where
  "api_v1 E enc P rq w =
     (if fingerprint E rq = '''' then (api_fail enc (Code Forbidden), w)
      else integration E enc P rq w)"

definition api_health :: "encoder \<Rightarrow> handler" where
  "api_health enc w = (write_json enc 200 (StatusBody ''ok''), w)"

definition api_readiness :: "encoder \<Rightarrow> unit eff \<Rightarrow> handler" where
  "api_readiness enc ready w =
     (case ready w of
        (Inl _, w') \<Rightarrow> (write_json enc 503 (StatusBody ''not_ready''), w')
      | (Inr _, w') \<Rightarrow> (write_json enc 200 (StatusBody ''ready''), w'))"

definition api_mux :: "env \<Rightarrow> api \<Rightarrow> http_request \<Rightarrow> handler" where
  "api_mux E a rq =
     (let enc = api_encoder a in
      case rq_path rq of
        [] \<Rightarrow> not_found
      | [s] \<Rightarrow>
          if s = ''health'' then with_method ''GET'' (api_health enc) rq
          else if s = ''ready'' then with_method ''GET'' (api_readiness enc (api_ready a)) rq
          else if s = ''v1'' \<or> s = ''admin'' \<and> api_admin a \<noteq> None then Pair (api_redirect a rq)
          else not_found
      | s # _ # _ \<Rightarrow>
          if s = ''v1'' then api_v1 E enc (api_service a) rq
          else if s = ''admin'' then (case api_admin a of None \<Rightarrow> not_found | Some h \<Rightarrow> h rq)
          else not_found)"

text \<open>\<open>Header().Set\<close> by a handler replaces what was set before it.\<close>

definition set_before :: "(string \<times> string) list \<Rightarrow> (string \<times> string) list \<Rightarrow> (string \<times> string) list" where
  "set_before hs later = filter (\<lambda>h. fst h \<notin> fst ` set later) hs @ later"

definition api_handler :: "env \<Rightarrow> api \<Rightarrow> http_request \<Rightarrow> handler" where
  "api_handler E a rq w =
     (case api_mux E a rq w of (r, w') \<Rightarrow>
        (r\<lparr>rs_headers :=
            set_before [(''Cache-Control'', ''no-store''), (''X-Content-Type-Options'', ''nosniff'')]
              (rs_headers r)\<rparr>, w'))"

subsection \<open>What the handlers do over any implementation of Passkeys\<close>

definition handler_keeps :: "handler \<Rightarrow> bool" where
  "handler_keeps h \<longleftrightarrow> (\<forall>w. store (snd (h w)) = store w)"

definition handler_step :: "handler \<Rightarrow> bool" where
  "handler_step h \<longleftrightarrow>
     (\<forall>w. wf_db (store w) \<longrightarrow> store (snd (h w)) = store w \<or> db_step (store w) (store (snd (h w))))"

lemma handler_step_keeps: "handler_keeps h \<Longrightarrow> handler_step h"
  by (simp add: handler_keeps_def handler_step_def)

lemma respond_store: "store (snd (respond enc call ok w)) = store (snd (call w))"
  by (simp add: respond_def split: prod.splits sum.splits err.splits)

lemma respond_keeps: "keeps_store call \<Longrightarrow> handler_keeps (respond enc call ok)"
  by (simp add: handler_keeps_def respond_store keeps_store_def)

lemma respond_step: "at_most_one call \<Longrightarrow> handler_step (respond enc call ok)"
  unfolding handler_step_def respond_store by (metis at_most_oneD prod.collapse)

lemma handler_keeps_basic:
  "handler_keeps not_found" "handler_keeps (api_health enc)" "handler_keeps (Pair r)"
  "keeps_store ready \<Longrightarrow> handler_keeps (api_readiness enc ready)"
  by (auto simp: handler_keeps_def not_found_def api_health_def api_readiness_def keeps_store_def
      split: prod.splits sum.splits) (metis snd_conv)+

lemma handler_keeps_method: "handler_keeps h \<Longrightarrow> handler_keeps (with_method m h rq)"
  by (simp add: handler_keeps_def with_method_def)

lemma handler_step_method: "handler_step h \<Longrightarrow> handler_step (with_method m h rq)"
  by (simp add: handler_step_def with_method_def)

locale passkeys_contract =
  fixes P :: passkeys
  assumes start_once: "at_most_one (ps_start P k a s n fp)"
  and finish_once: "at_most_one (ps_finish P k t resp fp)"
  and delete_once: "at_most_one (ps_delete P a s i fp)"
  and list_frame: "keeps_store (ps_credentials P a s fp)"
begin

lemma api_start_step: "handler_step (api_start E enc P k rq)"
  using respond_step [OF start_once]
  by (auto simp: handler_step_def api_start_def split: sum.splits)

lemma api_finish_step: "handler_step (api_finish E enc P k rq)"
  using respond_step [OF finish_once]
  by (auto simp: handler_step_def api_finish_def split: sum.splits)

lemma api_delete_step: "handler_step (api_delete E enc P i rq)"
  using respond_step [OF delete_once]
  by (auto simp: handler_step_def api_delete_def split: sum.splits)

lemma api_credentials_keeps: "handler_keeps (api_credentials E enc P rq)"
  using respond_keeps [OF list_frame]
  by (auto simp: handler_keeps_def api_credentials_def split: sum.splits)

lemma integration_step: "handler_step (integration E enc P rq)"
  by (auto simp: integration_def Let_def split: list.splits
      intro!: handler_step_method api_start_step api_finish_step api_delete_step
        handler_step_keeps [OF api_credentials_keeps] handler_step_keeps [OF handler_keeps_basic(1)])

lemma api_v1_step: "handler_step (api_v1 E enc P rq)"
  using integration_step by (simp add: handler_step_def api_v1_def)

lemma mux_step:
  assumes "api_service a = P" and "keeps_store (api_ready a)"
    and "\<And>h. api_admin a = Some h \<Longrightarrow> handler_step (h rq)"
  shows "handler_step (api_mux E a rq)"
  using assms
  by (auto simp: api_mux_def Let_def api_v1_step split: list.splits option.splits
      intro!: handler_step_method handler_step_keeps [OF handler_keeps_basic(1)]
        handler_step_keeps [OF handler_keeps_basic(2)] handler_step_keeps [OF handler_keeps_basic(3)]
        handler_step_keeps [OF handler_keeps_basic(4)])

lemma handler_one_step:
  assumes "api_service a = P" and "keeps_store (api_ready a)"
    and "\<And>h. api_admin a = Some h \<Longrightarrow> handler_step (h rq)"
  shows "handler_step (api_handler E a rq)"
proof -
  have "handler_step (api_mux E a rq)" by (rule mux_step) (use assms in auto)
  then show ?thesis
    by (simp add: handler_step_def api_handler_def split: prod.splits) (metis snd_conv)
qed

end

interpretation passkeys_api: passkeys_contract
  "service_passkeys E (new_service apps (postgres E) (webauthn_adapter E lib rps))" for E lib rps apps
  by unfold_locales
    (simp_all add: service_passkeys_def shellty.start_one_transition shellty.finish_one_transition
      shellty.delete_one_transition shellty.credentials_no_transition)


subsection \<open>Sequences of requests\<close>

inductive serves :: "env \<Rightarrow> api \<Rightarrow> world \<Rightarrow> world \<Rightarrow> bool" for E a where
  served_none: "serves E a w w"
| served: "serves E a w w1 \<Longrightarrow> api_handler E a rq w1 = (r, w2) \<Longrightarrow> serves E a w w2"

subsection \<open>Statuses and public codes\<close>

definition public_codes :: "string list" where
  "public_codes =
     [InvalidRequest, Forbidden, ApplicationNotFound, CredentialNotFound,
      kind_not_found Registration, kind_not_found Authentication, kind_expired Registration,
      kind_expired Authentication, kind_invalid Registration, kind_invalid Authentication,
      Conflict, InternalError]"

lemma error_status_public:
  "snd (error_status e) \<in> set public_codes
    \<and> (fst (error_status e) = 500 \<longleftrightarrow> snd (error_status e) = InternalError)
    \<and> (fst (error_status e) \<noteq> 500 \<longrightarrow> as_code e = Some (snd (error_status e)))"
  by (auto simp: error_status_def public_codes_def names kind_not_found_def kind_expired_def
      kind_invalid_def split: option.splits)

lemma api_fail_cases:
  "api_fail enc e = json_response 500 internal_error_text
    \<or> (\<exists>data. enc (ErrorBody (snd (error_status e))) = Some data
        \<and> api_fail enc e = json_response (fst (error_status e)) data)"
  by (auto simp: api_fail_def write_json_def split: prod.splits option.splits)

subsection \<open>Reading requests\<close>

lemma api_decode_Inr:
  assumes "api_decode ty rq = Inr x"
  obtains body where "rq_media rq = Some ''application/json''" "rq_body rq = Some body"
    "length body \<le> max_request_bytes" "utf8_valid body" "strict_json ty body = Inr x"
  using assms by (auto simp: api_decode_def split: if_splits option.splits sum.splits)

lemma decode_printed:
  assumes "plain_members ms" and "list_all (\<lambda>m. ty (fst m) = Some StringMember) ms"
    and "rq_media rq = Some ''application/json''" and "rq_body rq = Some (object_text ms)"
    and "length (object_text ms) \<le> max_request_bytes"
  shows "api_decode ty rq = Inr (set_members empty_struct ms)"
  using assms object_text_utf8 strict_object by (simp add: api_decode_def)

subsection \<open>Safe methods\<close>

lemma with_method_other:
  "rq_method rq = ''GET'' \<or> rq_method rq = ''HEAD'' \<Longrightarrow> m \<noteq> ''GET'' \<Longrightarrow> m \<noteq> ''HEAD'' \<Longrightarrow>
    handler_keeps (with_method m h rq)"
  by (auto simp: handler_keeps_def with_method_def)

context passkeys_contract
begin

lemma integration_safe:
  assumes "rq_method rq = ''GET'' \<or> rq_method rq = ''HEAD''"
  shows "handler_keeps (integration E enc P rq)"
proof -
  have "handler_keeps (with_method ''POST'' h rq)" "handler_keeps (with_method ''DELETE'' h rq)" for h
    by (rule with_method_other [OF assms]; simp)+
  moreover have "handler_keeps (with_method ''GET'' (api_credentials E enc P rq) rq)"
    by (rule handler_keeps_method [OF api_credentials_keeps])
  ultimately show ?thesis
    using handler_keeps_basic(1) by (simp add: integration_def Let_def split: list.splits)
qed

lemma handler_safe:
  assumes "rq_method rq = ''GET'' \<or> rq_method rq = ''HEAD''"
    and "api_service a = P" and "keeps_store (api_ready a)"
    and "\<And>h. api_admin a = Some h \<Longrightarrow> handler_keeps (h rq)"
  shows "handler_keeps (api_handler E a rq)"
proof -
  have v1: "handler_keeps (api_v1 E enc P rq)" for enc
    using integration_safe [OF assms(1)] by (simp add: handler_keeps_def api_v1_def)
  have "handler_keeps (api_mux E a rq)"
    using assms(2-4) v1
    by (auto simp: api_mux_def Let_def split: list.splits option.splits
        intro!: handler_keeps_method handler_keeps_basic)
  then show ?thesis
    by (simp add: handler_keeps_def api_handler_def split: prod.splits) (metis snd_conv)
qed

end

end
