(* ===== verification/Config.thy ===== *)
theory Config
  imports Api
begin

section \<open>The product configuration: app/config.go\<close>

text \<open>
  \<open>LoadConfig\<close>: the file as a strict JSON object decoded into nested structs, and the rules the decoded
  value has to keep. The file is its content or the error of reading it. From other packages come, as
  the record \<open>config_lib\<close>, whether \<open>bcrypt.Cost\<close> accepts a hash, whether \<open>net.ParseIP\<close> knows a text as an
  address, and \<open>url.Parse\<close>.
\<close>

record admin_config =
  adm_enabled :: bool
  adm_username :: string
  adm_password_hash :: string

record config =
  cfg_admin :: admin_config
  cfg_applications :: "application list"

record url =
  url_scheme :: string
  url_host :: string
  url_hostname :: string
  url_has_user :: bool
  url_path :: string
  url_raw_query :: string
  url_force_query :: bool
  url_fragment :: string

record config_lib =
  cl_bcrypt_hash :: "bytes \<Rightarrow> bool"
  cl_ip_address :: "string \<Rightarrow> bool"
  cl_url_parse :: "string \<Rightarrow> url option"

subsection \<open>Decoding into nested structs\<close>

text \<open>
  The Go types of the configuration and their values. \<open>null\<close> and a missing member leave the zero value;
  a member that is not declared is an error.
\<close>

datatype go_type = GoString | GoBool | GoSlice go_type | GoStruct "(string \<times> go_type) list"

datatype go_value =
    StringValue string | BoolValue bool | SliceValue "go_value list" | StructValue "(string \<times> go_value) list"

fun zero_value :: "go_type \<Rightarrow> go_value" where
  "zero_value GoString = StringValue ''''"
| "zero_value GoBool = BoolValue False"
| "zero_value (GoSlice ty) = SliceValue []"
| "zero_value (GoStruct members) = StructValue []"

definition json_mismatch :: err where
  "json_mismatch = Plain ''cannot unmarshal into Go type''"

definition json_syntax :: err where
  "json_syntax = Plain ''jsontext: invalid JSON''"

function decode_value :: "go_type \<Rightarrow> jstack \<Rightarrow> bytes \<Rightarrow> err + go_value"
  and decode_elements :: "go_type \<Rightarrow> jstack \<Rightarrow> bytes \<Rightarrow> go_value list \<Rightarrow> err + go_value"
  and decode_struct ::
    "(string \<times> go_type) list \<Rightarrow> jstack \<Rightarrow> bytes \<Rightarrow> (string \<times> go_value) list \<Rightarrow> err + go_value"
where
  "decode_value ty st s =
     (case read_token st s of
        JToken t st1 r1 \<Rightarrow>
          (case (t, ty) of
             (TNull, _) \<Rightarrow> Inr (zero_value ty)
           | (TString x, GoString) \<Rightarrow> Inr (StringValue x)
           | (TTrue, GoBool) \<Rightarrow> Inr (BoolValue True)
           | (TFalse, GoBool) \<Rightarrow> Inr (BoolValue False)
           | (TBeginArray, GoSlice el) \<Rightarrow> decode_elements el st1 r1 []
           | (TBeginObject, GoStruct members) \<Rightarrow> decode_struct members st1 r1 []
           | _ \<Rightarrow> Inl json_mismatch)
      | _ \<Rightarrow> Inl json_syntax)"
| "decode_elements el st s acc =
     (case read_token st s of
        JToken t st1 r1 \<Rightarrow>
          if t = TEndArray then Inr (SliceValue acc)
          else
            (case skip_value (length st) st s of
               None \<Rightarrow> Inl json_syntax
             | Some (st2, r2) \<Rightarrow>
                 (case decode_value el st s of
                    Inl e \<Rightarrow> Inl e
                  | Inr v \<Rightarrow> decode_elements el st2 r2 (acc @ [v])))
      | _ \<Rightarrow> Inl json_syntax)"
| "decode_struct members st s acc =
     (case read_token st s of
        JToken t st1 r1 \<Rightarrow>
          (case t of
             TEndObject \<Rightarrow> Inr (StructValue acc)
           | TString name \<Rightarrow>
               (case map_of members name of
                  None \<Rightarrow> Inl (Plain ''unknown object member name'')
                | Some ty \<Rightarrow>
                    (case skip_value (length st) st1 r1 of
                       None \<Rightarrow> Inl json_syntax
                     | Some (st2, r2) \<Rightarrow>
                         (case decode_value ty st1 r1 of
                            Inl e \<Rightarrow> Inl e
                          | Inr v \<Rightarrow> decode_struct members st2 r2 (acc @ [(name, v)]))))
           | _ \<Rightarrow> Inl json_syntax)
      | _ \<Rightarrow> Inl json_syntax)"
  by pat_completeness auto
termination
  by (relation "measures
      [case_sum (\<lambda>(ty, st, s). length s)
         (case_sum (\<lambda>(el, st, s, acc). length s) (\<lambda>(members, st, s, acc). length s)),
       case_sum (\<lambda>_. 0) (case_sum (\<lambda>_. 1) (\<lambda>_. 1))]")
    (auto dest!: read_token_shorter skip_value_shorter)

declare decode_value.simps [simp del] decode_elements.simps [simp del] decode_struct.simps [simp del]


definition unmarshal_value :: "go_type \<Rightarrow> bytes \<Rightarrow> err + go_value" where
  "unmarshal_value ty s =
     (case skip_value 0 [] s of
        None \<Rightarrow> Inl json_syntax
      | Some (st, r) \<Rightarrow>
          if skip_ws r \<noteq> [] then Inl (Plain ''invalid character after top-level value'')
          else decode_value ty [] s)"

definition application_type :: go_type where
  "application_type =
     GoStruct [(''code'', GoString), (''name'', GoString), (''rpId'', GoString),
       (''origins'', GoSlice GoString), (''clients'', GoSlice GoString)]"

definition config_type :: go_type where
  "config_type =
     GoStruct
       [(''admin'', GoStruct [(''enabled'', GoBool), (''username'', GoString), (''passwordHash'', GoString)]),
        (''applications'', GoSlice application_type)]"

text \<open>The structs of the code out of decoded values; what is missing is zero.\<close>

fun as_string :: "go_value option \<Rightarrow> string" where
  "as_string (Some (StringValue s)) = s"
| "as_string _ = ''''"

fun as_bool :: "go_value option \<Rightarrow> bool" where
  "as_bool (Some (BoolValue b)) = b"
| "as_bool _ = False"

fun as_slice :: "go_value option \<Rightarrow> go_value list" where
  "as_slice (Some (SliceValue vs)) = vs"
| "as_slice _ = []"

fun as_struct :: "go_value option \<Rightarrow> string \<Rightarrow> go_value option" where
  "as_struct (Some (StructValue ms)) = map_of ms"
| "as_struct _ = Map.empty"

definition application_of :: "go_value \<Rightarrow> application" where
  "application_of v =
     (let m = as_struct (Some v); strings = (\<lambda>n. map (as_string \<circ> Some) (as_slice (m n))) in
      \<lparr>app_code = as_string (m ''code''), app_name = as_string (m ''name''),
       app_rpid = as_string (m ''rpId''), app_origins = strings ''origins'',
       app_clients = strings ''clients''\<rparr>)"

definition config_of :: "go_value \<Rightarrow> config" where
  "config_of v =
     (let m = as_struct (Some v); a = as_struct (m ''admin'') in
      \<lparr>cfg_admin = \<lparr>adm_enabled = as_bool (a ''enabled''), adm_username = as_string (a ''username''),
         adm_password_hash = as_string (a ''passwordHash'')\<rparr>,
       cfg_applications = map application_of (as_slice (m ''applications''))\<rparr>)"

subsection \<open>The rules\<close>

definition label_edge :: "char \<Rightarrow> bool" where
  "label_edge c \<longleftrightarrow> (let n = byte_nat c in 97 \<le> n \<and> n \<le> 122 \<or> 48 \<le> n \<and> n \<le> 57)"

text \<open>\<open>^[a-z0-9](?:[a-z0-9-]{0,61}[a-z0-9])?$\<close>\<close>

definition domain_label :: "string \<Rightarrow> bool" where
  "domain_label s \<longleftrightarrow>
     s \<noteq> [] \<and> length s \<le> 63 \<and> label_edge (hd s) \<and> label_edge (last s)
     \<and> list_all (\<lambda>c. label_edge c \<or> c = CHR ''-'') s"

text \<open>\<open>^sha256:[0-9a-f]{64}$\<close>\<close>

definition fingerprint_pattern :: "string \<Rightarrow> bool" where
  "fingerprint_pattern s \<longleftrightarrow>
     has_prefix s ''sha256:'' \<and> length s = 71 \<and> list_all (\<lambda>c. c \<in> set hex_digits) (drop 7 s)"

definition app_error :: "application \<Rightarrow> string \<Rightarrow> err" where
  "app_error a text = Plain (''application '' @ app_code a @ '': '' @ text)"

definition bad_origin :: "string \<Rightarrow> url option \<Rightarrow> bool" where
  "bad_origin origin parsed =
     (case parsed of
        None \<Rightarrow> True
      | Some u \<Rightarrow>
          url_scheme u \<noteq> ''https'' \<or> url_host u = '''' \<or> url_has_user u \<or> url_path u \<noteq> ''''
          \<or> url_raw_query u \<noteq> '''' \<or> url_force_query u \<or> url_fragment u \<noteq> ''''
          \<or> list_ex (\<lambda>c. c = CHR ''*'' \<or> c = CHR ''#'') origin)"

fun check_origins :: "config_lib \<Rightarrow> application \<Rightarrow> string list \<Rightarrow> string list \<Rightarrow> err option" where
  "check_origins L a seen [] = None"
| "check_origins L a seen (origin # rest) =
     (if bad_origin origin (cl_url_parse L origin) \<or> List.member seen origin
      then Some (app_error a ''invalid or duplicate HTTPS origin'')
      else
        (let host = (case cl_url_parse L origin of None \<Rightarrow> '''' | Some u \<Rightarrow> url_hostname u) in
         if host \<noteq> app_rpid a \<and> \<not> has_suffix host (''.'' @ app_rpid a)
         then Some (app_error a ''origin must belong to RP ID'')
         else check_origins L a (origin # seen) rest))"

fun check_clients :: "application \<Rightarrow> string list \<Rightarrow> string list \<Rightarrow> err option" where
  "check_clients a seen [] = None"
| "check_clients a seen (f # rest) =
     (if \<not> fingerprint_pattern f \<or> List.member seen f
      then Some (app_error a ''invalid or duplicate client fingerprint'')
      else check_clients a (f # seen) rest)"

definition check_application :: "config_lib \<Rightarrow> application \<Rightarrow> err option" where
  "check_application L a =
     (if app_name a = '''' \<or> length (app_name a) > 256 then Some (app_error a ''invalid name'')
      else if app_rpid a = '''' \<or> length (app_rpid a) > 253 \<or> cl_ip_address L (app_rpid a)
      then Some (app_error a ''invalid RP ID'')
      else if \<not> list_all domain_label (split_on CHR ''.'' (app_rpid a))
      then Some (app_error a ''invalid RP ID'')
      else if app_origins a = [] \<or> app_clients a = []
      then Some (app_error a ''origins and clients are required'')
      else
        (case check_origins L a [] (app_origins a) of
           Some e \<Rightarrow> Some e
         | None \<Rightarrow> check_clients a [] (app_clients a)))"

fun check_applications :: "config_lib \<Rightarrow> string list \<Rightarrow> application list \<Rightarrow> err option" where
  "check_applications L seen [] = None"
| "check_applications L seen (a # rest) =
     (if \<not> valid_application_code (app_code a) \<or> List.member seen (app_code a)
      then Some (Plain ''invalid or duplicate application code'')
      else
        (case check_application L a of
           Some e \<Rightarrow> Some e
         | None \<Rightarrow> check_applications L (app_code a # seen) rest))"

definition check_admin :: "config_lib \<Rightarrow> admin_config \<Rightarrow> err option" where
  "check_admin L a =
     (if \<not> adm_enabled a then None
      else if adm_username a = '''' \<or> length (adm_username a) > 256
      then Some (Plain ''invalid admin username'')
      else if \<not> cl_bcrypt_hash L (adm_password_hash a) then Some (Plain ''invalid admin bcrypt hash'')
      else None)"

definition check_config :: "config_lib \<Rightarrow> config \<Rightarrow> err option" where
  "check_config L c =
     (if cfg_applications c = [] then Some (Plain ''at least one application is required'')
      else
        (case check_admin L (cfg_admin c) of
           Some e \<Rightarrow> Some e
         | None \<Rightarrow> check_applications L [] (cfg_applications c)))"

definition max_config_bytes :: nat where
  "max_config_bytes = 2 ^ 20"

definition load_config :: "config_lib \<Rightarrow> err + bytes \<Rightarrow> err + config" where
  "load_config L file =
     (case file of
        Inl e \<Rightarrow> Inl e
      | Inr content \<Rightarrow>
          (let b = take (Suc max_config_bytes) content in
           if length b > max_config_bytes \<or> \<not> utf8_valid b
           then Inl (Plain ''config must be UTF-8 and at most 1 MiB'')
           else
             (case strict_with (unmarshal_value config_type) b of
                Inl e \<Rightarrow> Inl (Wrapped ''decode config'' e)
              | Inr v \<Rightarrow>
                  (case check_config L (config_of v) of
                     Some e \<Rightarrow> Inl e
                   | None \<Rightarrow> Inr (config_of v)))))"

subsection \<open>What an accepted configuration is\<close>

definition origin_ok :: "config_lib \<Rightarrow> string \<Rightarrow> string \<Rightarrow> bool" where
  "origin_ok L rpid origin \<longleftrightarrow>
     CHR ''*'' \<notin> set origin \<and> CHR ''#'' \<notin> set origin
     \<and> (\<exists>u. cl_url_parse L origin = Some u \<and> url_scheme u = ''https'' \<and> url_host u \<noteq> ''''
        \<and> \<not> url_has_user u \<and> url_path u = '''' \<and> url_raw_query u = '''' \<and> \<not> url_force_query u
        \<and> url_fragment u = ''''
        \<and> (url_hostname u = rpid \<or> has_suffix (url_hostname u) (''.'' @ rpid)))"

definition application_ok :: "config_lib \<Rightarrow> application \<Rightarrow> bool" where
  "application_ok L a \<longleftrightarrow>
     valid_application_code (app_code a) \<and> app_name a \<noteq> '''' \<and> length (app_name a) \<le> 256
     \<and> app_rpid a \<noteq> '''' \<and> length (app_rpid a) \<le> 253 \<and> \<not> cl_ip_address L (app_rpid a)
     \<and> list_all domain_label (split_on CHR ''.'' (app_rpid a))
     \<and> app_origins a \<noteq> [] \<and> distinct (app_origins a) \<and> list_all (origin_ok L (app_rpid a)) (app_origins a)
     \<and> app_clients a \<noteq> [] \<and> distinct (app_clients a) \<and> list_all fingerprint_pattern (app_clients a)"

definition config_ok :: "config_lib \<Rightarrow> config \<Rightarrow> bool" where
  "config_ok L c \<longleftrightarrow>
     cfg_applications c \<noteq> [] \<and> distinct (map app_code (cfg_applications c))
     \<and> list_all (application_ok L) (cfg_applications c)
     \<and> (adm_enabled (cfg_admin c) \<longrightarrow>
          adm_username (cfg_admin c) \<noteq> '''' \<and> length (adm_username (cfg_admin c)) \<le> 256
          \<and> cl_bcrypt_hash L (adm_password_hash (cfg_admin c)))"

lemma check_origins_Cons:
  "check_origins L a seen (origin # rest) = None \<longleftrightarrow>
    origin_ok L (app_rpid a) origin \<and> origin \<notin> set seen \<and> check_origins L a (origin # seen) rest = None"
  by (auto simp: Let_def bad_origin_def origin_ok_def list_ex_iff split: option.splits)

declare check_origins.simps(2) [simp del]

lemma check_origins_None:
  "check_origins L a seen os = None \<longleftrightarrow>
    distinct os \<and> set os \<inter> set seen = {} \<and> list_all (origin_ok L (app_rpid a)) os"
  by (induction os arbitrary: seen) (auto simp: check_origins_Cons)

lemma check_clients_None:
  "check_clients a seen fs = None \<longleftrightarrow>
    distinct fs \<and> set fs \<inter> set seen = {} \<and> list_all fingerprint_pattern fs"
  by (induction fs arbitrary: seen) auto

lemma check_application_None:
  "check_application L a = None \<and> valid_application_code (app_code a) \<longleftrightarrow> application_ok L a"
  by (auto simp: check_application_def application_ok_def check_origins_None check_clients_None
      split: option.splits) (metis check_origins_None option.distinct(1) set_empty2 inf_bot_right)+

lemma check_applications_None:
  "check_applications L seen as = None \<longleftrightarrow>
    distinct (map app_code as) \<and> app_code ` set as \<inter> set seen = {} \<and> list_all (application_ok L) as"
proof (induction as arbitrary: seen)
  case (Cons a as)
  have "check_applications L seen (a # as) = None \<longleftrightarrow>
      application_ok L a \<and> app_code a \<notin> set seen \<and> check_applications L (app_code a # seen) as = None"
    using check_application_None [of L a] by (auto split: option.splits)
  with Cons.IH [of "app_code a # seen"] show ?case by auto
qed simp

lemma check_config_None: "check_config L c = None \<longleftrightarrow> config_ok L c"
  by (auto simp: check_config_def check_admin_def config_ok_def check_applications_None
      split: option.splits)

lemma load_config_Inr:
  assumes "load_config L file = Inr c"
  shows "config_ok L c"
    "\<exists>b. file = Inr b \<and> length b \<le> max_config_bytes \<and> utf8_valid b \<and> token_pass [] b = None"
  using assms
  by (auto simp: load_config_def Let_def check_config_None strict_with_def
      split: sum.splits if_splits option.splits list.splits)

text \<open>What the configuration gives the service: every application under its code.\<close>

lemma applications_map:
  "distinct (map app_code as) \<Longrightarrow> a \<in> set as \<Longrightarrow>
    foldl (\<lambda>m a. m(app_code a \<mapsto> a)) m as (app_code a) = Some a"
proof (induction as rule: rev_induct)
  case (snoc x as)
  then show ?case by (auto simp: rev_image_eqI)
qed simp

lemma fingerprint_nonempty: "fingerprint_pattern f \<Longrightarrow> f \<noteq> ''''"
  by (auto simp: fingerprint_pattern_def)

end
