(* ===== verification/Go_Numbers.thy ===== *)
theory Go_Numbers
  imports Go_Json
begin

section \<open>Decimal numbers as strconv and fmt print and read them\<close>

text \<open>
  \<open>strconv.FormatInt\<close> and \<open>strconv.ParseInt\<close> in base 10 for 64 bits, the fixed-width digits \<open>fmt\<close> and
  \<open>time\<close> print, and the proofs that a printed number is read back.
\<close>

definition digit_char :: "nat \<Rightarrow> char" where
  "digit_char n = nat_byte (48 + n)"

fun decimal :: "nat \<Rightarrow> string" where
  "decimal n = (if n < 10 then [digit_char n] else decimal (n div 10) @ [digit_char (n mod 10)])"

declare decimal.simps [simp del]

definition format_int :: "int \<Rightarrow> string" where
  "format_int i = (if i < 0 then CHR ''-'' # decimal (nat (- i)) else decimal (nat i))"

definition digits_value :: "string \<Rightarrow> nat" where
  "digits_value s = foldl (\<lambda>v c. 10 * v + (byte_nat c - 48)) 0 s"

definition parse_digits :: "string \<Rightarrow> nat option" where
  "parse_digits s = (if s \<noteq> [] \<and> list_all is_digit s then Some (digits_value s) else None)"

definition int64 :: "int \<Rightarrow> int option" where
  "int64 i = (if - (2 ^ 63) \<le> i \<and> i < 2 ^ 63 then Some i else None)"

definition parse_int64 :: "string \<Rightarrow> int option" where
  "parse_int64 s =
     (case s of
        [] \<Rightarrow> None
      | c # r \<Rightarrow>
          if c = CHR ''-'' then Option.bind (parse_digits r) (\<lambda>n. int64 (- int n))
          else if c = CHR ''+'' then Option.bind (parse_digits r) (\<lambda>n. int64 (int n))
          else Option.bind (parse_digits s) (\<lambda>n. int64 (int n)))"

lemma digit_char_nat: "n < 10 \<Longrightarrow> byte_nat (digit_char n) = 48 + n"
  by (simp add: digit_char_def)

lemma is_digit_char: "n < 10 \<Longrightarrow> is_digit (digit_char n)"
  by (simp add: is_digit_def digit_char_nat)

lemma decimal_digits: "list_all is_digit (decimal n)"
proof (induction n rule: decimal.induct)
  case (1 n)
  then show ?case by (cases "n < 10") (simp_all add: decimal.simps [of n] is_digit_char)
qed

lemma decimal_nonempty: "decimal n \<noteq> []"
  by (simp add: decimal.simps [of n])

lemma digits_value_append: "digits_value (s @ [c]) = 10 * digits_value s + (byte_nat c - 48)"
  by (simp add: digits_value_def)

lemma digits_value_decimal: "digits_value (decimal n) = n"
proof (induction n rule: decimal.induct)
  case (1 n)
  show ?case
  proof (cases "n < 10")
    case True
    then show ?thesis by (simp add: decimal.simps [of n] digits_value_def digit_char_nat)
  next
    case False
    with 1 show ?thesis
      by (simp add: decimal.simps [of n] digits_value_append digit_char_nat)
  qed
qed

lemma length_decimal: "n < 10 ^ Suc k \<Longrightarrow> length (decimal n) \<le> Suc k"
proof (induction k arbitrary: n)
  case (Suc k)
  then have "n div 10 < 10 ^ Suc k" by (simp add: less_mult_imp_div_less mult.commute)
  with Suc.IH show ?case by (cases "n < 10") (simp_all add: decimal.simps [of n])
qed (simp add: decimal.simps)

lemma parse_digits_decimal: "parse_digits (decimal n) = Some n"
  by (simp add: parse_digits_def decimal_nonempty decimal_digits digits_value_decimal)

lemma sign_not_digit: "\<not> is_digit CHR ''-''" "\<not> is_digit CHR ''+''" "\<not> is_digit CHR ''.''"
  "\<not> is_digit CHR '':''"
  by code_simp+

lemma decimal_head: "decimal n = c # r \<Longrightarrow> is_digit c"
  using decimal_digits [of n] by simp

lemma parse_format_int:
  assumes "- (2 ^ 63) \<le> i" and "i < 2 ^ 63"
  shows "parse_int64 (format_int i) = Some i"
proof (cases "i < 0")
  case True
  with assms show ?thesis
    by (simp add: format_int_def parse_int64_def parse_digits_decimal int64_def)
next
  case False
  obtain c r where d: "decimal (nat i) = c # r" using decimal_nonempty by (cases "decimal (nat i)") auto
  then have "c \<noteq> CHR ''-''" "c \<noteq> CHR ''+''" using decimal_head sign_not_digit by auto
  with False d assms parse_digits_decimal [of "nat i"] show ?thesis
    by (simp add: format_int_def parse_int64_def int64_def)
qed

lemma format_int_inject:
  assumes "format_int i = format_int j" and "0 \<le> i" and "0 \<le> j"
  shows "i = j"
proof -
  from assms have "decimal (nat i) = decimal (nat j)" by (simp add: format_int_def)
  then have "nat i = nat j" by (metis digits_value_decimal)
  with assms show ?thesis by simp
qed


subsection \<open>Digits of a fixed width\<close>

fun digits_of :: "nat \<Rightarrow> nat \<Rightarrow> string" where
  "digits_of 0 n = []"
| "digits_of (Suc w) n = digits_of w (n div 10) @ [digit_char (n mod 10)]"

text \<open>\<open>%0wd\<close>: at least \<open>w\<close> digits.\<close>

definition pad :: "nat \<Rightarrow> nat \<Rightarrow> string" where
  "pad w n = (if n < 10 ^ w then digits_of w n else decimal n)"

lemma length_digits_of [simp]: "length (digits_of w n) = w"
  by (induction w arbitrary: n) auto

lemma digits_of_digits: "list_all is_digit (digits_of w n)"
  by (induction w arbitrary: n) (simp_all add: is_digit_char)

lemma digits_value_of: "digits_value (digits_of w n) = n mod 10 ^ w"
proof (induction w arbitrary: n)
  case 0
  show ?case by (simp add: digits_value_def)
next
  case (Suc w)
  have "n mod 10 ^ Suc w = 10 * (n div 10 mod 10 ^ w) + n mod 10"
    by (simp add: mod_mult2_eq)
  with Suc show ?case by (simp add: digits_value_append digit_char_nat)
qed

lemma digits_value_zeros: "digits_value (s @ replicate k CHR ''0'') = digits_value s * 10 ^ k"
proof (induction k)
  case (Suc k)
  have "s @ replicate (Suc k) CHR ''0'' = (s @ replicate k CHR ''0'') @ [CHR ''0'']"
    by (simp add: replicate_append_same)
  moreover have "byte_nat CHR ''0'' = 48" by (simp add: byte_nat_def)
  ultimately show ?case by (simp only: digits_value_append Suc) simp
qed simp

end
