(* ===== verification/Go_Time.thy ===== *)
theory Go_Time
  imports Go_Numbers
begin

section \<open>The calendar of package time\<close>

text \<open>
  Dates of the proleptic Gregorian calendar in UTC, the layouts the server formats and parses
  (\<open>2006-01-02\<close>, \<open>time.RFC3339Nano\<close> and the date of HTTP headers), with the proofs that what is
  printed is read back. Years of the civil year start in March in the conversions, so that the leap
  day is the last day of a year.
\<close>

definition second_ns :: int where
  "second_ns = 1000000000"

definition day_ns :: int where
  "day_ns = 86400 * second_ns"

definition leap_year :: "int \<Rightarrow> bool" where
  "leap_year y \<longleftrightarrow> y mod 4 = 0 \<and> (y mod 100 \<noteq> 0 \<or> y mod 400 = 0)"

definition days_in :: "int \<Rightarrow> int \<Rightarrow> int" where
  "days_in m y =
     (if m = 2 then (if leap_year y then 29 else 28)
      else if m = 4 \<or> m = 6 \<or> m = 9 \<or> m = 11 then 30 else 31)"

text \<open>Days since 1970-01-01 of a date, and the date of such a day.\<close>

definition days_of_date :: "int \<times> int \<times> int \<Rightarrow> int" where
  "days_of_date t =
     (case t of (y, m, d) \<Rightarrow>
        (let y' = (if m \<le> 2 then y - 1 else y); mp = (m + 9) mod 12 in
         365 * y' + y' div 4 - y' div 100 + y' div 400 + (153 * mp + 2) div 5 + d - 1 - 719468))"

definition march_year :: "int \<Rightarrow> int \<times> int" where
  "march_year z =
     (let era = z div 146097; doe = z mod 146097;
          c = min 3 (doe div 36524); doc = doe - 36524 * c;
          q = doc div 1461; doq = doc - 1461 * q;
          yr = min 3 (doq div 365) in
      (400 * era + 100 * c + 4 * q + yr, doq - 365 * yr))"

definition date_of_days :: "int \<Rightarrow> int \<times> int \<times> int" where
  "date_of_days n =
     (case march_year (n + 719468) of (y', doy) \<Rightarrow>
        (let mp = (5 * doy + 2) div 153;
             d = doy - (153 * mp + 2) div 5 + 1;
             m = (if mp < 10 then mp + 3 else mp - 9) in
         (if m \<le> 2 then y' + 1 else y', m, d)))"

lemma div_bounds:
  fixes x k :: int
  assumes "0 < k"
  shows "k * (x div k) \<le> x" "x < k * (x div k) + k"
  using assms pos_mod_bound [of k x] pos_mod_sign [of k x] mult_div_mod_eq [of k x] by linarith+

lemma capped_div:
  fixes x k :: int
  assumes "0 \<le> x" and "0 < k" and "c = min 3 (x div k)"
  shows "0 \<le> c" "c \<le> 3" "0 \<le> x - k * c" "x - k * c < k \<or> c = 3"
proof -
  have n: "0 \<le> x div k" using assms(1,2) by (simp add: pos_imp_zdiv_nonneg_iff)
  then show "0 \<le> c" "c \<le> 3" by (simp_all add: assms(3))
  have "k * c \<le> k * (x div k)" using assms(2,3) by (intro mult_left_mono) auto
  with div_bounds(1) [OF assms(2), of x] show "0 \<le> x - k * c" by linarith
  have "c = x div k \<or> c = 3" using assms(3) by (simp add: min_def)
  with div_bounds(2) [OF assms(2), of x] show "x - k * c < k \<or> c = 3" by auto
qed

lemma day_parts:
  fixes z :: int
  assumes "era = z div 146097" and "doe = z mod 146097" and "c = min 3 (doe div 36524)"
    and "doc = doe - 36524 * c" and "q = doc div 1461" and "doq = doc - 1461 * q"
    and "yr = min 3 (doq div 365)" and "doy = doq - 365 * yr"
  shows "z = 146097 * era + 36524 * c + 1461 * q + 365 * yr + doy"
    "0 \<le> c" "c \<le> 3" "0 \<le> q" "q \<le> 24" "0 \<le> yr" "yr \<le> 3" "0 \<le> doy" "doy \<le> 365"
    "doy = 365 \<Longrightarrow> yr = 3 \<and> (q = 24 \<longrightarrow> c = 3)"
proof -
  have doe: "0 \<le> doe" "doe < 146097" unfolding assms(2) by simp_all
  note c = capped_div [OF doe(1) _ assms(3), simplified]
  have doc: "0 \<le> doc" "doc \<le> 36524" "doc = 36524 \<Longrightarrow> c = 3"
    using c doe(2) unfolding assms(4) by linarith+
  have qb: "1461 * q \<le> doc" "doc < 1461 * q + 1461"
    unfolding assms(5) by (rule div_bounds; simp)+
  have q: "0 \<le> q" "q \<le> 24" using qb doc by linarith+
  have doq: "0 \<le> doq" "doq \<le> 1460" using qb unfolding assms(6) by linarith+
  note yr = capped_div [OF doq(1) _ assms(7), simplified]
  have doy: "0 \<le> doy" "doy \<le> 365" "doy = 365 \<Longrightarrow> yr = 3"
    using yr doq(2) unfolding assms(8) by linarith+
  have z: "z = 146097 * era + doe"
    unfolding assms(1,2) by (rule mult_div_mod_eq [symmetric])
  show "z = 146097 * era + 36524 * c + 1461 * q + 365 * yr + doy"
    unfolding z assms(8,6,4) by simp
  show "doy = 365 \<Longrightarrow> yr = 3 \<and> (q = 24 \<longrightarrow> c = 3)"
    using doy(3) doc(2,3) assms(6,8) by auto
  show "0 \<le> c" "c \<le> 3" "0 \<le> q" "q \<le> 24" "0 \<le> yr" "yr \<le> 3" "0 \<le> doy" "doy \<le> 365"
    by (fact c q yr doy)+
qed
lemma month_parts:
  fixes doy :: int
  assumes "0 \<le> doy" and "doy \<le> 365" and "mp = (5 * doy + 2) div 153"
  shows "0 \<le> mp" "mp \<le> 11" "0 \<le> doy - (153 * mp + 2) div 5"
    "doy - (153 * mp + 2) div 5 \<le> (if mp = 1 \<or> mp = 3 \<or> mp = 6 \<or> mp = 8 then 29 else 30)"
    "mp = 11 \<Longrightarrow> doy - (153 * mp + 2) div 5 = doy - 337"
proof -
  have b: "153 * mp \<le> 5 * doy + 2" "5 * doy + 2 < 153 * mp + 153"
    unfolding assms(3) by (rule div_bounds; simp)+
  show mp: "0 \<le> mp" "mp \<le> 11" using b assms(1,2) by linarith+
  have "mp = 0 \<or> mp = 1 \<or> mp = 2 \<or> mp = 3 \<or> mp = 4 \<or> mp = 5 \<or> mp = 6 \<or> mp = 7 \<or> mp = 8
    \<or> mp = 9 \<or> mp = 10 \<or> mp = 11" using mp by presburger
  then have "0 \<le> doy - (153 * mp + 2) div 5
    \<and> doy - (153 * mp + 2) div 5 \<le> (if mp = 1 \<or> mp = 3 \<or> mp = 6 \<or> mp = 8 then 29 else 30)"
    using b by (elim disjE; simp)
  then show "0 \<le> doy - (153 * mp + 2) div 5"
    "doy - (153 * mp + 2) div 5 \<le> (if mp = 1 \<or> mp = 3 \<or> mp = 6 \<or> mp = 8 then 29 else 30)" by blast+
  show "mp = 11 \<Longrightarrow> doy - (153 * mp + 2) div 5 = doy - 337" by simp
qed
lemma march_year:
  assumes "march_year z = (y', doy)"
  shows "z = 365 * y' + y' div 4 - y' div 100 + y' div 400 + doy" "0 \<le> doy" "doy \<le> 365"
    "doy = 365 \<Longrightarrow> leap_year (y' + 1)"
proof -
  define era where "era = z div 146097"
  define doe where "doe = z mod 146097"
  define c where "c = min 3 (doe div 36524)"
  define doc where "doc = doe - 36524 * c"
  define q where "q = doc div 1461"
  define doq where "doq = doc - 1461 * q"
  define yr where "yr = min 3 (doq div 365)"
  note parts = day_parts [OF era_def doe_def c_def doc_def q_def doq_def yr_def refl]
  from assms have y: "y' = 400 * era + 100 * c + 4 * q + yr" and doy: "doy = doq - 365 * yr"
    by (simp_all add: march_year_def Let_def flip: era_def doe_def c_def doc_def q_def doq_def yr_def)
  have "y' = 4 * (100 * era + 25 * c + q) + yr" "y' = 100 * (4 * era + c) + (4 * q + yr)"
    "y' = 400 * era + (100 * c + 4 * q + yr)" using y by simp_all
  then have d: "y' div 4 = 100 * era + 25 * c + q" "y' div 100 = 4 * era + c" "y' div 400 = era"
    using parts(2-7) by (simp_all add: div_pos_pos_trivial)
  show "z = 365 * y' + y' div 4 - y' div 100 + y' div 400 + doy"
    using parts(1) by (simp add: d doy) (simp add: y)
  show "0 \<le> doy" "doy \<le> 365" using parts(8,9) by (simp_all add: doy)
  assume "doy = 365"
  with parts(10) have yr: "yr = 3" and last: "q = 24 \<longrightarrow> c = 3" by (simp_all add: doy)
  have four: "y' + 1 = 4 * (100 * era + 25 * c + q + 1)" using y yr by simp
  show "leap_year (y' + 1)"
  proof (cases "q = 24")
    case True
    with last y yr have "y' + 1 = 400 * (era + 1)" by simp
    then show ?thesis by (simp add: leap_year_def)
  next
    case False
    with y yr have "y' + 1 = 100 * (4 * era + c) + (4 * q + 4)" by simp
    then have "(y' + 1) mod 100 = (4 * q + 4) mod 100" by (simp only: mod_mult_self4)
    also have "\<dots> = 4 * q + 4" using False parts(4,5) by (intro mod_pos_pos_trivial) linarith+
    finally have "(y' + 1) mod 100 = 4 * q + 4" .
    with four parts(4) show ?thesis by (simp add: leap_year_def)
  qed
qed

text \<open>A day number is the day number of its date, and its date exists.\<close>

lemma date_of_days:
  assumes "date_of_days n = (y, m, d)"
  shows "days_of_date (y, m, d) = n" "1 \<le> m" "m \<le> 12" "1 \<le> d" "d \<le> days_in m y"
proof -
  obtain y' doy where my: "march_year (n + 719468) = (y', doy)" by (cases "march_year (n + 719468)")
  define mp where "mp = (5 * doy + 2) div 153"
  note parts = month_parts [OF march_year(2,3) [OF my] mp_def]
  from assms my have m: "m = (if mp < 10 then mp + 3 else mp - 9)"
    and d: "d = doy - (153 * mp + 2) div 5 + 1" and y: "y = (if m \<le> 2 then y' + 1 else y')"
    by (auto simp: date_of_days_def Let_def mp_def)
  show "1 \<le> m" "m \<le> 12" "1 \<le> d" using parts by (simp_all add: m d)
  have low: "m \<le> 2 \<longleftrightarrow> \<not> mp < 10" using parts(1,2) by (simp add: m)
  have "(m + 9) mod 12 = mp"
    using parts(1,2) by (cases "mp < 10") (simp_all add: m mod_pos_pos_trivial)
  then have "days_of_date (y, m, d) = 365 * y' + y' div 4 - y' div 100 + y' div 400 + doy - 719468"
    by (simp add: days_of_date_def Let_def y d)
  with march_year(1) [OF my] show "days_of_date (y, m, d) = n" by simp
  show "d \<le> days_in m y"
  proof (cases "mp = 11")
    case True
    then have "m = 2" "d = doy - 336" "y = y' + 1" by (simp_all add: m d y)
    with march_year(3,4) [OF my] show ?thesis by (cases "doy = 365") (simp_all add: days_in_def)
  next
    case False
    then have "(if mp = 1 \<or> mp = 3 \<or> mp = 6 \<or> mp = 8 then 30 else 31) = days_in m y"
      using parts(1,2) by (simp add: days_in_def m)
    with parts(4) show ?thesis by (simp add: d split: if_splits)
  qed
qed


subsection \<open>Printing\<close>

definition format_year :: "int \<Rightarrow> string" where
  "format_year y = (if y < 0 then CHR ''-'' # pad 4 (nat (- y)) else pad 4 (nat y))"

definition format_date :: "int \<times> int \<times> int \<Rightarrow> string" where
  "format_date t =
     (case t of (y, m, d) \<Rightarrow> format_year y @ ''-'' @ pad 2 (nat m) @ ''-'' @ pad 2 (nat d))"

definition format_clock :: "int \<Rightarrow> string" where
  "format_clock s =
     pad 2 (nat (s div 3600)) @ '':'' @ pad 2 (nat (s div 60 mod 60)) @ '':'' @ pad 2 (nat (s mod 60))"

text \<open>\<open>.999999999\<close>: the nanoseconds without trailing zeros, or nothing.\<close>

definition format_fraction :: "int \<Rightarrow> string" where
  "format_fraction ns =
     (if ns = 0 then ''''
      else CHR ''.'' # rev (dropWhile (\<lambda>c. c = CHR ''0'') (rev (digits_of 9 (nat ns)))))"

definition format_rfc3339 :: "time \<Rightarrow> string" where
  "format_rfc3339 t =
     format_date (date_of_days (t div day_ns)) @ ''T'' @ format_clock (t mod day_ns div second_ns)
     @ format_fraction (t mod second_ns) @ ''Z''"

definition month_names :: "string list" where
  "month_names = [''Jan'', ''Feb'', ''Mar'', ''Apr'', ''May'', ''Jun'', ''Jul'', ''Aug'', ''Sep'', ''Oct'',
     ''Nov'', ''Dec'']"

definition day_names :: "string list" where
  "day_names = [''Sun'', ''Mon'', ''Tue'', ''Wed'', ''Thu'', ''Fri'', ''Sat'']"

text \<open>\<open>http.TimeFormat\<close>\<close>

definition http_date :: "time \<Rightarrow> string" where
  "http_date t =
     (case date_of_days (t div day_ns) of (y, m, d) \<Rightarrow>
        day_names ! nat ((t div day_ns + 4) mod 7) @ '', '' @ pad 2 (nat d) @ '' ''
        @ month_names ! nat (m - 1) @ '' '' @ format_year y @ '' ''
        @ format_clock (t mod day_ns div second_ns) @ '' GMT'')"

subsection \<open>Parsing\<close>

fun skip_char :: "char \<Rightarrow> string \<Rightarrow> string option" where
  "skip_char c [] = None"
| "skip_char c (x # r) = (if x = c then Some r else None)"

fun get_num :: "bool \<Rightarrow> string \<Rightarrow> (nat \<times> string) option" where
  "get_num fixed [] = None"
| "get_num fixed (a # r) =
     (if \<not> is_digit a then None
      else
        (case r of
           [] \<Rightarrow> if fixed then None else Some (digits_value [a], [])
         | b # r2 \<Rightarrow>
             if is_digit b then Some (digits_value [a, b], r2)
             else if fixed then None else Some (digits_value [a], r)))"

definition get_year :: "string \<Rightarrow> (nat \<times> string) option" where
  "get_year s =
     (if 4 \<le> length s \<and> list_all is_digit (take 4 s) then Some (digits_value (take 4 s), drop 4 s)
      else None)"

definition below :: "nat \<Rightarrow> (nat \<times> string) option \<Rightarrow> (nat \<times> string) option" where
  "below n r = Option.bind r (\<lambda>(x, s). if x < n then Some (x, s) else None)"

text \<open>The days since 1970 of a date that exists, and the rest of the text.\<close>

definition parse_date :: "string \<Rightarrow> (int \<times> string) option" where
  "parse_date s =
     Option.bind (get_year s) (\<lambda>(y, s).
     Option.bind (skip_char CHR ''-'' s) (\<lambda>s.
     Option.bind (get_num True s) (\<lambda>(m, s).
     Option.bind (skip_char CHR ''-'' s) (\<lambda>s.
     Option.bind (get_num True s) (\<lambda>(d, s).
       if m < 1 \<or> 12 < m \<or> d < 1 \<or> days_in (int m) (int y) < int d then None
       else Some (days_of_date (int y, int m, int d), s))))))"

definition parse_clock :: "string \<Rightarrow> (int \<times> string) option" where
  "parse_clock s =
     Option.bind (below 24 (get_num False s)) (\<lambda>(h, s).
     Option.bind (skip_char CHR '':'' s) (\<lambda>s.
     Option.bind (below 60 (get_num True s)) (\<lambda>(m, s).
     Option.bind (skip_char CHR '':'' s) (\<lambda>s.
     Option.bind (below 60 (get_num True s)) (\<lambda>(sec, s).
       Some (3600 * int h + 60 * int m + int sec, s))))))"

definition parse_fraction :: "string \<Rightarrow> int \<times> string" where
  "parse_fraction s =
     (case s of
        c # d # r \<Rightarrow>
          if (c = CHR ''.'' \<or> c = CHR '','') \<and> is_digit d then
            (let ds = take 9 (takeWhile is_digit (d # r)) in
             (int (digits_value ds * 10 ^ (9 - length ds)), dropWhile is_digit (d # r)))
          else (0, s)
      | _ \<Rightarrow> (0, s))"

text \<open>\<open>Z\<close>, or an offset in hours and minutes, of which 24 hours and 60 minutes are let through.\<close>

definition parse_zone :: "string \<Rightarrow> (int \<times> string) option" where
  "parse_zone s =
     (case s of
        [] \<Rightarrow> None
      | c # r \<Rightarrow>
          if c = CHR ''Z'' then Some (0, r)
          else if length s < 6 \<or> s ! 3 \<noteq> CHR '':'' then None
          else
            (case (get_num True (take 2 (drop 1 s)), get_num True (take 2 (drop 4 s))) of
               (Some (h, _), Some (m, _)) \<Rightarrow>
                 if 24 < h \<or> 60 < m then None
                 else if c = CHR ''+'' then Some (60 * (60 * int h + int m), drop 6 s)
                 else if c = CHR ''-'' then Some (- (60 * (60 * int h + int m)), drop 6 s)
                 else None
             | _ \<Rightarrow> None))"

definition parse_rfc3339 :: "string \<Rightarrow> time option" where
  "parse_rfc3339 s =
     Option.bind (parse_date s) (\<lambda>(days, s).
     Option.bind (skip_char CHR ''T'' s) (\<lambda>s.
     Option.bind (parse_clock s) (\<lambda>(sec, s).
     case parse_fraction s of (ns, s) \<Rightarrow>
     Option.bind (parse_zone s) (\<lambda>(offset, s).
       if s \<noteq> [] then None
       else Some (day_ns * days + second_ns * sec + ns - second_ns * offset)))))"

text \<open>\<open>time.Parse("2006-01-02", s)\<close>\<close>

definition parse_day :: "string \<Rightarrow> time option" where
  "parse_day s =
     Option.bind (parse_date s) (\<lambda>(days, s). if s \<noteq> [] then None else Some (day_ns * days))"

subsection \<open>What is printed is read back\<close>

lemma two_digits: "n < 100 \<Longrightarrow> pad 2 n = [digit_char (n div 10), digit_char (n mod 10)]"
  by (simp add: pad_def numeral_2_eq_2)

lemma get_num_pad: "n < 100 \<Longrightarrow> get_num fixed (pad 2 n @ r) = Some (n, r)"
  by (simp add: two_digits is_digit_char digits_value_def digit_char_nat)

lemma get_year_pad:
  assumes "n < 10000"
  shows "get_year (pad 4 n @ r) = Some (n, r)"
proof -
  have "pad 4 n = digits_of 4 n" using assms by (simp add: pad_def)
  with assms show ?thesis by (simp add: get_year_def digits_of_digits digits_value_of)
qed

lemma parse_format_date:
  assumes "date_of_days n = (y, m, d)" and "0 \<le> y" and "y \<le> 9999"
  shows "parse_date (format_date (date_of_days n) @ r) = Some (n, r)"
proof -
  note date = date_of_days [OF assms(1)]
  have "d \<le> 31" using date(5) by (simp add: days_in_def split: if_splits)
  then have n: "nat y < 10000" "nat m < 100" "nat d < 100" using date(2-4) assms(2,3) by simp_all
  with date assms show ?thesis
    by (simp add: parse_date_def format_date_def format_year_def get_year_pad get_num_pad)
qed

lemma parse_clock_pad:
  assumes "h < 24" and "m < 60" and "sec < 60"
  shows "parse_clock (pad 2 h @ '':'' @ pad 2 m @ '':'' @ pad 2 sec @ r)
    = Some (3600 * int h + 60 * int m + int sec, r)"
  using assms by (simp add: parse_clock_def below_def get_num_pad)

lemma parse_format_clock:
  assumes "0 \<le> s" and "s < 86400"
  shows "parse_clock (format_clock s @ r) = Some (s, r)"
proof -
  have h: "0 \<le> s div 3600" "s div 3600 < 24"
    using assms div_bounds [of 3600 s] by (simp_all add: pos_imp_zdiv_nonneg_iff)
  have m: "0 \<le> s div 60 mod 60" "s div 60 mod 60 < 60" and sec: "0 \<le> s mod 60" "s mod 60 < 60"
    by simp_all
  have "s div 60 div 60 = s div 3600" by (simp add: zdiv_zmult2_eq [symmetric])
  then have "3600 * (s div 3600) + 60 * (s div 60 mod 60) + s mod 60 = s"
    using mult_div_mod_eq [of 60 "s div 60"] mult_div_mod_eq [of 60 s] by linarith
  with h m sec parse_clock_pad [of "nat (s div 3600)" "nat (s div 60 mod 60)" "nat (s mod 60)" r]
  show ?thesis by (simp only: format_clock_def nat_less_iff append_assoc int_nat_eq if_True)
qed

text \<open>Trailing zeros do not matter for a fraction.\<close>

lemma trim_zeros:
  obtains k where "s = rev (dropWhile (\<lambda>c. c = CHR ''0'') (rev s)) @ replicate k CHR ''0''"
proof -
  let ?z = "takeWhile (\<lambda>c. c = CHR ''0'') (rev s)"
  have "\<forall>c \<in> set ?z. c = CHR ''0''" by (auto dest: set_takeWhileD)
  then have "rev ?z = replicate (length ?z) CHR ''0''" by (intro replicate_eqI) auto
  moreover have "s = rev (dropWhile (\<lambda>c. c = CHR ''0'') (rev s)) @ rev ?z"
    by (metis rev_append rev_rev_ident takeWhile_dropWhile_id)
  ultimately show ?thesis using that by metis
qed

lemma takeWhile_digits:
  "list_all is_digit s \<Longrightarrow> \<not> is_digit c \<Longrightarrow> takeWhile is_digit (s @ c # r) = s"
  "list_all is_digit s \<Longrightarrow> \<not> is_digit c \<Longrightarrow> dropWhile is_digit (s @ c # r) = c # r"
  by (induction s) auto

lemma parse_format_fraction:
  assumes "0 \<le> ns" and "ns < 1000000000"
  shows "parse_fraction (format_fraction ns @ CHR ''Z'' # r) = (ns, CHR ''Z'' # r)"
proof (cases "ns = 0")
  case True
  then show ?thesis by (simp add: format_fraction_def parse_fraction_def split: list.splits)
next
  case False
  let ?s = "digits_of 9 (nat ns)"
  let ?t = "rev (dropWhile (\<lambda>c. c = CHR ''0'') (rev ?s))"
  obtain k where k: "?s = ?t @ replicate k CHR ''0''" by (rule trim_zeros)
  have len: "length ?t + k = 9" by (metis k length_append length_digits_of length_replicate)
  have digits: "list_all is_digit ?t"
    using digits_of_digits [of 9 "nat ns"] by (subst (asm) k) simp
  have "digits_value ?s = nat ns" using assms by (simp add: digits_value_of nat_less_iff)
  then have v: "digits_value ?t * 10 ^ k = nat ns" by (metis k digits_value_zeros)
  then obtain d t where t: "?t = d # t" using False assms(1) by (cases ?t) (auto simp: digits_value_def)
  have z: "\<not> is_digit CHR ''Z''" by code_simp
  have "take 9 ?t = ?t" "9 - length ?t = k" using len by simp_all
  with v assms(1) have "int (digits_value (take 9 (d # t)) * 10 ^ (9 - length (take 9 (d # t)))) = ns"
    unfolding t by simp
  moreover have "takeWhile is_digit (d # t @ CHR ''Z'' # r) = d # t"
    "dropWhile is_digit (d # t @ CHR ''Z'' # r) = CHR ''Z'' # r"
    using takeWhile_digits [OF digits z, of r] unfolding t by simp_all
  ultimately show ?thesis
    using False digits unfolding t format_fraction_def by (simp add: parse_fraction_def Let_def t)
qed

lemma parse_format_rfc3339:
  assumes "date_of_days (t div day_ns) = (y, m, d)" and "0 \<le> y" and "y \<le> 9999"
  shows "parse_rfc3339 (format_rfc3339 t) = Some t"
proof -
  let ?s = "t mod day_ns div second_ns" and ?n = "t mod second_ns"
  have s: "0 \<le> ?s" "?s < 86400"
    using pos_mod_bound [of day_ns t] pos_mod_sign [of day_ns t] div_bounds [of second_ns "t mod day_ns"]
    by (simp_all add: day_ns_def second_ns_def pos_imp_zdiv_nonneg_iff)
  have n: "0 \<le> ?n" "?n < 1000000000" by (simp_all add: second_ns_def)
  have "t mod day_ns mod second_ns = ?n" by (simp add: day_ns_def mod_mod_cancel)
  then have "day_ns * (t div day_ns) + second_ns * ?s + ?n = t"
    using mult_div_mod_eq [of day_ns t] mult_div_mod_eq [of second_ns "t mod day_ns"] by linarith
  then show ?thesis
    using parse_format_date [OF assms] parse_format_clock [OF s] parse_format_fraction [OF n, of "[]"]
    by (simp add: parse_rfc3339_def format_rfc3339_def parse_zone_def)
qed

lemma parse_format_day:
  assumes "date_of_days n = (y, m, d)" and "0 \<le> y" and "y \<le> 9999"
  shows "parse_day (format_date (date_of_days n)) = Some (day_ns * n)"
  using parse_format_date [OF assms, of "[]"] by (simp add: parse_day_def)

end
