(* ===== verification/Admin_Session.thy ===== *)
theory Admin_Session
  imports Config Go_Time
begin

section \<open>Sessions and sign-in of the administration UI: app/admin.go\<close>

text \<open>
  The session cookie with its check, and the limiter of sign-in attempts. HMAC-SHA-256 is the
  argument \<open>mac\<close>, of a key and a message. The limiter of the code counts in \<open>float64\<close>; the model
  counts in rationals, without the rounding of the last bits.
\<close>

type_synonym hmac = "bytes \<Rightarrow> bytes \<Rightarrow> bytes"

subsection \<open>The session cookie\<close>

definition admin_cookie_age :: time where
  "admin_cookie_age = seconds (30 * 24 * 3600)"

definition unix :: "time \<Rightarrow> int" where
  "unix t = t div seconds 1"

definition sign_message :: "string \<Rightarrow> string \<Rightarrow> bytes" where
  "sign_message username expires =
     ''shellty-passkey-server:admin:v1:'' @ decimal (length username) @ '':'' @ username @ '':'' @ expires"

definition signature :: "hmac \<Rightarrow> admin_config \<Rightarrow> string \<Rightarrow> bytes" where
  "signature mac cfg expires = mac (adm_password_hash cfg) (sign_message (adm_username cfg) expires)"

definition cookie_value :: "hmac \<Rightarrow> admin_config \<Rightarrow> time \<Rightarrow> string" where
  "cookie_value mac cfg now =
     (let expires = format_int (unix (now + admin_cookie_age)) in
      ''v1.'' @ expires @ ''.'' @ hex_encode (signature mac cfg expires))"

definition valid_cookie :: "hmac \<Rightarrow> admin_config \<Rightarrow> time \<Rightarrow> string \<Rightarrow> bool" where
  "valid_cookie mac cfg now value =
     (if length value > 128 then False
      else
        (case split_on CHR ''.'' value of
           [version, expires, sig] \<Rightarrow>
             if version \<noteq> ''v1'' \<or> length sig \<noteq> 64 then False
             else
               (case parse_int64 expires of
                  None \<Rightarrow> False
                | Some e \<Rightarrow>
                    if format_int e \<noteq> expires \<or> e \<le> unix now then False
                    else
                      (case hex_decode sig of
                         None \<Rightarrow> False
                       | Some actual \<Rightarrow> actual = signature mac cfg expires))
         | _ \<Rightarrow> False))"

lemma valid_cookieD:
  assumes "valid_cookie mac cfg now value"
  obtains e sig where "split_on CHR ''.'' value = [''v1'', format_int e, sig]" "unix now < e"
    "hex_decode sig = Some (signature mac cfg (format_int e))" "length value \<le> 128"
  using assms
  by (auto simp: valid_cookie_def split: if_splits list.splits option.splits)

text \<open>The length before the user name makes the signed message unambiguous.\<close>

lemma digits_then_colon:
  "list_all is_digit a \<Longrightarrow> list_all is_digit b \<Longrightarrow> a @ '':'' @ x = b @ '':'' @ y \<Longrightarrow> a = b \<and> x = y"
proof (induction a arbitrary: b)
  case Nil
  then show ?case using sign_not_digit(4) by (cases b) auto
next
  case (Cons c a)
  then show ?case using sign_not_digit(4) by (cases b) auto
qed

lemma sign_message_inject:
  assumes "sign_message u e = sign_message u' e'"
  shows "u = u' \<and> e = e'"
proof -
  from assms have "decimal (length u) @ '':'' @ u @ '':'' @ e = decimal (length u') @ '':'' @ u' @ '':'' @ e'"
    by (simp add: sign_message_def)
  from digits_then_colon [OF decimal_digits decimal_digits this]
  have "length u = length u'" "u @ '':'' @ e = u' @ '':'' @ e'"
    using digits_value_decimal by metis+
  then show ?thesis by simp
qed

text \<open>A cookie is accepted until the second it names, and no longer.\<close>

lemma signature_no_dot: "CHR ''.'' \<notin> set (hex_encode b)"
  using hex_encode_bytes [of b] by (auto simp: hex_digits_def)

lemma format_int_no_dot: "CHR ''.'' \<notin> set (format_int i)"
  using decimal_digits [of "nat i"] decimal_digits [of "nat (- i)"] sign_not_digit(3)
  by (auto simp: format_int_def list_all_iff)

lemma length_format_int:
  assumes "0 \<le> i" and "i < 2 ^ 63"
  shows "length (format_int i) \<le> 19"
proof -
  have "nat i < 10 ^ Suc 18" using assms by (simp add: nat_less_iff)
  from length_decimal [OF this] show ?thesis using assms by (simp add: format_int_def)
qed

lemma cookie_split:
  "split_on CHR ''.'' (''v1.'' @ format_int e @ ''.'' @ hex_encode b) = [''v1'', format_int e, hex_encode b]"
  using split_on_append [OF format_int_no_dot] split_on_none [OF signature_no_dot]
  by (simp add: split_on_append)

lemma cookie_valid_iff:
  assumes mac: "\<And>k m. length (mac k m) = 32"
    and e: "e = unix (issued + admin_cookie_age)" "0 \<le> e" "e < 2 ^ 63"
  shows "valid_cookie mac cfg now (cookie_value mac cfg issued) \<longleftrightarrow> unix now < e"
proof -
  let ?v = "''v1.'' @ format_int e @ ''.'' @ hex_encode (signature mac cfg (format_int e))"
  have v: "cookie_value mac cfg issued = ?v" by (simp add: cookie_value_def e(1) Let_def)
  have sig: "length (signature mac cfg (format_int e)) = 32" by (simp add: signature_def mac)
  have "length ?v \<le> 128" using length_format_int [OF e(2,3)] by (simp add: sig)
  moreover have "parse_int64 (format_int e) = Some e" using e by (intro parse_format_int) auto
  ultimately show ?thesis
    unfolding valid_cookie_def v cookie_split by (simp add: sig not_le)
qed

subsection \<open>The limiter of sign-in attempts\<close>

definition elapsed_seconds :: "time \<Rightarrow> time \<Rightarrow> rat" where
  "elapsed_seconds since now = of_int (now - since) / 1000000000"

definition refilled :: "time \<Rightarrow> limiter \<Rightarrow> limiter" where
  "refilled now l =
     (let elapsed = elapsed_seconds (lim_refill l) now in
      if elapsed > 0
      then l\<lparr>lim_tokens := min 5 (lim_tokens l + elapsed / 12), lim_refill := now\<rparr>
      else l)"

definition take_token :: "time \<Rightarrow> limiter \<Rightarrow> bool \<times> limiter" where
  "take_token now l =
     (let l1 = refilled now l in
      if lim_tokens l1 < 1 then (False, l1)
      else (True, l1\<lparr>lim_tokens := lim_tokens l1 - 1\<rparr>))"

definition allow_login :: "env \<Rightarrow> world \<Rightarrow> bool \<times> world" where
  "allow_login E w =
     (let now = clock E (ticks w) in
      case take_token now (limiter w) of
        (ok, l) \<Rightarrow> (ok, w\<lparr>ticks := Suc (ticks w), limiter := l\<rparr>))"

definition new_limiter :: "time \<Rightarrow> limiter" where
  "new_limiter now = \<lparr>lim_tokens = 5, lim_refill = now\<rparr>"

text \<open>The attempts let through when the clock reads the times of a list.\<close>

fun attempts :: "time list \<Rightarrow> limiter \<Rightarrow> bool list \<times> limiter" where
  "attempts [] l = ([], l)"
| "attempts (t # ts) l =
     (case take_token t l of (ok, l1) \<Rightarrow> (case attempts ts l1 of (oks, l2) \<Rightarrow> (ok # oks, l2)))"

definition sound_limiter :: "limiter \<Rightarrow> bool" where
  "sound_limiter l \<longleftrightarrow> 0 \<le> lim_tokens l \<and> lim_tokens l \<le> 5"

lemma sound_take_token: "sound_limiter l \<Longrightarrow> take_token t l = (ok, l') \<Longrightarrow> sound_limiter l'"
  by (auto simp: take_token_def refilled_def sound_limiter_def Let_def split: if_splits)

text \<open>What is left of the tokens and of the time pays for every attempt let through.\<close>

lemma take_token_budget:
  assumes "take_token t l = (ok, l')"
  shows "lim_tokens l' + (if ok then 1 else 0)
      \<le> lim_tokens l + elapsed_seconds (lim_refill l) (lim_refill l') / 12"
    "lim_refill l' = max (lim_refill l) t"
  using assms
  by (auto simp: take_token_def refilled_def Let_def elapsed_seconds_def split: if_splits)

lemma attempts_budget:
  assumes "sound_limiter l" and "attempts ts l = (oks, l')"
  shows "sound_limiter l' \<and> lim_refill l \<le> lim_refill l'
    \<and> lim_refill l' = fold max ts (lim_refill l)
    \<and> rat_of_nat (count_list oks True)
        \<le> lim_tokens l - lim_tokens l' + elapsed_seconds (lim_refill l) (lim_refill l') / 12"
  using assms
proof (induction ts arbitrary: l oks)
  case Nil
  then show ?case by (simp add: elapsed_seconds_def)
next
  case (Cons t ts)
  obtain ok l1 where step: "take_token t l = (ok, l1)" by (cases "take_token t l")
  obtain oks1 where rest: "attempts ts l1 = (oks1, l')" "oks = ok # oks1"
    using Cons.prems(2) step by (auto split: prod.splits)
  have "sound_limiter l1" using sound_take_token [OF Cons.prems(1) step] .
  from Cons.IH [OF this rest(1)] take_token_budget [OF step] rest(2) show ?case
    by (auto simp: elapsed_seconds_def max.commute field_simps)
qed

end
