(* ===== verification/Go_Url.thy ===== *)
theory Go_Url
  imports Api
begin

section \<open>Query strings as net/url writes them\<close>

text \<open>
  \<open>url.QueryEscape\<close>, \<open>Values.Set\<close> and \<open>Values.Encode\<close> on the pairs of a query, and the proof that
  \<open>url.ParseQuery\<close> reads back what they write. A map of values is the list of its pairs; the order of
  the values of one key is kept, keys are written in order.
\<close>

definition upper_hex_digits :: string where
  "upper_hex_digits = ''0123456789ABCDEF''"

definition unreserved :: "char \<Rightarrow> bool" where
  "unreserved c \<longleftrightarrow>
     (let n = byte_nat c in
      65 \<le> n \<and> n \<le> 90 \<or> 97 \<le> n \<and> n \<le> 122 \<or> 48 \<le> n \<and> n \<le> 57
      \<or> c = CHR ''-'' \<or> c = CHR ''_'' \<or> c = CHR ''.'' \<or> c = CHR ''~'')"

definition escape_char :: "char \<Rightarrow> string" where
  "escape_char c =
     (if unreserved c then [c]
      else if c = CHR '' '' then ''+''
      else [CHR ''%'', upper_hex_digits ! (byte_nat c div 16), upper_hex_digits ! (byte_nat c mod 16)])"

definition query_escape :: "string \<Rightarrow> string" where
  "query_escape s = concat (map escape_char s)"

definition values_set :: "(string \<times> string) list \<Rightarrow> string \<Rightarrow> string \<Rightarrow> (string \<times> string) list" where
  "values_set q k v = filter (\<lambda>p. fst p \<noteq> k) q @ [(k, v)]"

fun join_with :: "string \<Rightarrow> string list \<Rightarrow> string" where
  "join_with sep [] = ''''"
| "join_with sep [s] = s"
| "join_with sep (s # t # ss) = s @ sep @ join_with sep (t # ss)"

definition encode_pair :: "string \<times> string \<Rightarrow> string" where
  "encode_pair p = query_escape (fst p) @ ''='' @ query_escape (snd p)"

definition values_encode :: "(string \<times> string) list \<Rightarrow> string" where
  "values_encode q = join_with ''&'' (map encode_pair (sort_key fst q))"

subsection \<open>What is written is read back\<close>

lemma upper_hex: "n < 16 \<Longrightarrow> hex_value (upper_hex_digits ! n) = Some n"
  and upper_hex_plain: "n < 16 \<Longrightarrow> unreserved (upper_hex_digits ! n)"
proof -
  have "\<forall>n \<in> set [0..<16]. hex_value (upper_hex_digits ! n) = Some n \<and> unreserved (upper_hex_digits ! n)"
    by code_simp
  then show "n < 16 \<Longrightarrow> hex_value (upper_hex_digits ! n) = Some n"
    "n < 16 \<Longrightarrow> unreserved (upper_hex_digits ! n)" by simp_all
qed

lemma not_unreserved: "\<not> unreserved CHR ''%''" "\<not> unreserved CHR ''+''" "\<not> unreserved CHR ''&''"
  "\<not> unreserved CHR '';''" "\<not> unreserved CHR ''=''"
  by code_simp+

lemma unescape_char: "query_unescape (escape_char c @ s) = map_option (Cons c) (query_unescape s)"
  using not_unreserved
  by (auto simp: escape_char_def upper_hex byte_halves split: option.splits)

lemma unescape_escape: "query_unescape (query_escape s) = Some s"
proof (induction s)
  case (Cons c s)
  have "query_escape (c # s) = escape_char c @ query_escape s" by (simp add: query_escape_def)
  with Cons show ?case by (simp add: unescape_char del: query_unescape.simps)
qed (simp add: query_escape_def)

lemma escaped_bytes: "c \<in> set (query_escape s) \<Longrightarrow> unreserved c \<or> c = CHR ''+'' \<or> c = CHR ''%''"
  by (auto simp: query_escape_def escape_char_def upper_hex_plain byte_halves split: if_splits)

lemma escaped_plain:
  "CHR ''&'' \<notin> set (query_escape s)" "CHR '';'' \<notin> set (query_escape s)" "CHR ''='' \<notin> set (query_escape s)"
  using escaped_bytes not_unreserved by fastforce+

lemma cut_encoded: "cut_pair (encode_pair p) = (query_escape (fst p), query_escape (snd p))"
proof -
  have "\<forall>c \<in> set (query_escape (fst p)). c \<noteq> CHR ''=''" using escaped_plain(3) by metis
  then show ?thesis
    by (simp add: cut_pair_def encode_pair_def takeWhile_append2 dropWhile_append2)
qed

lemma encoded_plain: "CHR ''&'' \<notin> set (encode_pair p)" "CHR '';'' \<notin> set (encode_pair p)"
  "encode_pair p \<noteq> ''''"
  using escaped_plain by (simp_all add: encode_pair_def)

lemma parse_encoded: "parse_pairs (map encode_pair q) = (q, False)"
  by (induction q) (simp_all add: encoded_plain cut_encoded unescape_escape)

lemma split_join:
  "ss \<noteq> [] \<Longrightarrow> \<forall>s \<in> set ss. c \<notin> set s \<Longrightarrow> split_on c (join_with [c] ss) = ss"
proof (induction ss rule: induct_list012)
  case (3 s t ss)
  then show ?case by (simp add: split_on_append)
qed (simp_all add: split_on_none)

lemma parse_query_encode: "parse_query (values_encode q) = (sort_key fst q, False)"
proof (cases "q = []")
  case False
  then have "map encode_pair (sort_key fst q) \<noteq> []" by (metis Nil_is_map_conv length_0_conv length_sort)
  then have "split_on CHR ''&'' (values_encode q) = map encode_pair (sort_key fst q)"
    unfolding values_encode_def by (rule split_join) (auto simp: encoded_plain)
  then show ?thesis by (simp add: parse_query_def parse_encoded)
qed (simp add: parse_query_def values_encode_def)

lemma query_values_sorted: "query_values (sort_key fst q) k = query_values q k"
proof -
  have "filter (\<lambda>p. fst p = k) (sort_key fst q) = filter (\<lambda>p. fst p = k) q"
    by (rule sort_key_stable)
  then show ?thesis by (simp add: query_values_def)
qed

end
