(* ===== verification/Paging.thy ===== *)
theory Paging
  imports Prelude
begin

section \<open>Pages of an ordered table: adminPage in app/admin\_queries.go\<close>

text \<open>
  The administration lists are walked with a cursor, the key of a row: a query returns at most 21
  rows after (or, backwards, before) the cursor in the order of traversal, and \<open>adminPage\<close> makes of
  them a page of at most 20 rows, newest first, with the presence of neighbours. The locale \<open>keyset\<close>
  states what the walk needs of a table, that no two rows have one key, and shows that the pages are
  the consecutive pieces of the ordered table.
\<close>

definition admin_page_size :: nat where
  "admin_page_size = 20"

definition page_of :: "'a list \<Rightarrow> bool \<Rightarrow> bool \<Rightarrow> 'a list \<times> bool \<times> bool" where
  "page_of rows cursor backwards =
     (let more = admin_page_size < length rows;
          shown = (if more then take admin_page_size rows else rows) in
      if backwards then (rev shown, more, cursor) else (shown, cursor, more))"

text \<open>\<open>ORDER BY key ASC\<close> and \<open>ORDER BY key DESC\<close>\<close>

definition order_by :: "('a \<Rightarrow> 'k::linorder) \<Rightarrow> bool \<Rightarrow> 'a list \<Rightarrow> 'a list" where
  "order_by key asc rows = (if asc then sort_key key rows else rev (sort_key key rows))"

text \<open>The pieces a list is read in: a last one that is not full, or a single empty one.\<close>

function pages :: "'a list \<Rightarrow> 'a list list" where
  "pages rows =
     (if length rows \<le> admin_page_size then [rows]
      else take admin_page_size rows # pages (drop admin_page_size rows))"
  by pat_completeness auto
termination
  by (relation "measure length") (auto simp: admin_page_size_def)

declare pages.simps [simp del]

text \<open>
  A reader following the links to the next page, for at most \<open>n\<close> pages: \<^const>\<open>None\<close> when there are
  more. \<open>load\<close> is a page with the presence of its neighbours, \<open>link\<close> the cursor made of a row
  on a page.
\<close>

fun browse ::
  "('c \<Rightarrow> 'a list \<times> bool \<times> bool) \<Rightarrow> ('c \<Rightarrow> 'a \<Rightarrow> 'c) \<Rightarrow> nat \<Rightarrow> 'c \<Rightarrow> 'a list list option"
where
  "browse load link 0 c = None"
| "browse load link (Suc n) c =
     (case load c of (rows, prev, more) \<Rightarrow>
        if more \<and> rows \<noteq> [] then map_option (Cons rows) (browse load link n (link c (last rows)))
        else Some [rows])"

lemma page_size_pos [simp]: "0 < admin_page_size"
  by (simp add: admin_page_size_def)

lemma page_of_forwards:
  "page_of (take (Suc admin_page_size) rows) cursor False
    = (take admin_page_size rows, cursor, admin_page_size < length rows)"
  by (simp add: page_of_def Let_def min_def)

lemma page_of_backwards:
  "page_of (take (Suc admin_page_size) (rev rows)) cursor True
    = (drop (length rows - admin_page_size) rows, admin_page_size < length rows, cursor)"
  by (simp add: page_of_def Let_def min_def rev_take)

lemma concat_pages: "concat (pages rows) = rows"
  by (induction rows rule: pages.induct) (simp add: pages.simps)

lemma pages_bounded: "p \<in> set (pages rows) \<Longrightarrow> length p \<le> admin_page_size"
  by (induction rows rule: pages.induct) (subst (asm) (2) pages.simps, auto split: if_splits)

subsection \<open>Tables with a key\<close>

locale keyset =
  fixes wf :: "'d \<Rightarrow> bool" and key :: "'a \<Rightarrow> 'k::linorder" and table :: "'d \<Rightarrow> 'a list"
  assumes keys: "wf d \<Longrightarrow> distinct (map key (table d))"
begin

definition listed :: "'d \<Rightarrow> ('a \<Rightarrow> bool) \<Rightarrow> 'a list" where
  "listed d P = order_by key False (filter P (table d))"

lemma listed_descending:
  assumes "wf d"
  shows "sorted_wrt (\<lambda>x y. key y < key x) (listed d P)"
proof -
  let ?rows = "sort_key key (filter P (table d))"
  have "distinct (map key (filter P (table d)))"
    using keys [OF assms] by (rule distinct_map_filter_key)
  then have "sorted (map key ?rows)" "distinct (map key ?rows)"
    by (simp_all add: distinct_map)
  then have "sorted_wrt (<) (map key ?rows)" by (simp add: strict_sorted_iff)
  then show ?thesis by (simp add: listed_def order_by_def sorted_wrt_rev sorted_wrt_map)
qed

lemma listed_split:
  assumes "wf d" and "listed d P = newer @ x # older"
  shows "filter (\<lambda>y. key y < key x) (listed d P) = older"
    "filter (\<lambda>y. key x < key y) (listed d P) = newer"
proof -
  from listed_descending [OF assms(1), of P] assms(2)
  have "\<forall>y \<in> set older. key y < key x" "\<forall>y \<in> set newer. key x < key y"
    by (auto simp: sorted_wrt_append)
  then show "filter (\<lambda>y. key y < key x) (listed d P) = older"
    "filter (\<lambda>y. key x < key y) (listed d P) = newer"
    by (auto simp: assms(2) filter_empty_conv filter_id_conv dest: less_asym)
qed

lemma order_filter:
  "order_by key False (filter (\<lambda>y. P y \<and> Q y) (table d)) = filter Q (listed d P)"
  "order_by key True (filter (\<lambda>y. P y \<and> Q y) (table d)) = rev (filter Q (listed d P))"
  by (simp_all add: listed_def order_by_def rev_filter conj_commute flip: filter_sort filter_filter)

text \<open>The three pages a reader asks for: the first one, the one after a row, the one before a row.\<close>

lemma first_page:
  "page_of (take (Suc admin_page_size) (order_by key False (filter P (table d)))) False False
    = (take admin_page_size (listed d P), False, admin_page_size < length (listed d P))"
  by (simp add: page_of_forwards listed_def)

lemma page_after:
  assumes "wf d" and "listed d P = newer @ x # older"
  shows "page_of (take (Suc admin_page_size)
      (order_by key False (filter (\<lambda>y. P y \<and> key y < key x) (table d)))) True False
    = (take admin_page_size older, True, admin_page_size < length older)"
  by (simp add: page_of_forwards order_filter listed_split [OF assms])

lemma page_before:
  assumes "wf d" and "listed d P = newer @ x # older"
  shows "page_of (take (Suc admin_page_size)
      (order_by key True (filter (\<lambda>y. P y \<and> key x < key y) (table d)))) True True
    = (drop (length newer - admin_page_size) newer, admin_page_size < length newer, True)"
  by (simp add: page_of_backwards order_filter listed_split [OF assms])

text \<open>
  Following the links from a page that shows the beginning of \<open>rest\<close> reads exactly \<open>rest\<close>; \<open>I\<close> holds
  of the places that are visited, \<open>g\<close> is what a row is shown as.
\<close>

lemma browse_rest:
  assumes "listed d P = newer @ rest" and "length rest < n" and "I c"
    and "load c = (map g (take admin_page_size rest), prev, admin_page_size < length rest)"
    and after: "\<And>c newer x older. I c \<Longrightarrow> listed d P = newer @ x # older \<Longrightarrow> I (link c (g x))
      \<and> load (link c (g x)) = (map g (take admin_page_size older), True, admin_page_size < length older)"
  shows "browse load link n c = Some (map (map g) (pages rest))"
  using assms(1-4)
proof (induction n arbitrary: newer rest c prev)
  case (Suc n)
  show ?case
  proof (cases "admin_page_size < length rest")
    case False
    with Suc.prems(4) show ?thesis by (simp add: pages.simps [of rest])
  next
    case True
    let ?p = "take admin_page_size rest" and ?r = "drop admin_page_size rest"
    have p: "?p \<noteq> []" using True by auto
    have "butlast ?p @ last ?p # ?r = (butlast ?p @ [last ?p]) @ ?r" by simp
    also have "\<dots> = rest" by (simp only: append_butlast_last_id [OF p] append_take_drop_id)
    finally have "listed d P = (newer @ butlast ?p) @ last ?p # ?r" using Suc.prems(1) by simp
    note next_page = after [OF Suc.prems(3) this]
    have "browse load link n (link c (g (last ?p))) = Some (map (map g) (pages ?r))"
    proof (rule Suc.IH)
      show "listed d P = (newer @ ?p) @ ?r" using Suc.prems(1) by simp
      show "length ?r < n" using Suc.prems(2) True page_size_pos unfolding length_drop by linarith
    qed (use next_page in simp_all)
    with True p Suc.prems(4) show ?thesis by (simp add: pages.simps [of rest] last_map)
  qed
qed simp

end

end
