(* ===== verification/Admin_Queries.thy ===== *)
theory Admin_Queries
  imports Go_Url Go_Time Paging "HOL-Library.Product_Lexorder"
begin

section \<open>Filters, cursors and queries of the administration UI: app/admin\_queries.go\<close>

text \<open>
  The filter a query string gives, the cursor as the text of a link, the SQL a filter turns into with
  its arguments, what that SQL selects from the tables, and the pages of the lists. A date is the
  text of the form; a cursor time is a \<open>time.Time\<close>. Errors of \<open>parseAdminFilter\<close> are \<^const>\<open>None\<close>:
  their texts are not read by its callers, and which of several is reported depends on the order in
  which Go walks a map. Ids are compared as texts: on the canonical form of UUIDs this is the order
  of PostgreSQL's \<open>uuid\<close>. The indented JSON of an event's details is the argument \<open>pretty\<close>.
\<close>

record admin_cursor =
  cu_id :: string
  cu_time :: time
  cu_previous :: bool

record admin_filter =
  fi_application :: string
  fi_subject :: string
  fi_credential :: string
  fi_from :: string
  fi_to :: string
  fi_cursor :: admin_cursor

record admin_credential = credential +
  ac_aaguid_text :: string

record admin_event =
  ae_id :: string
  ae_application :: string
  ae_subject :: string
  ae_credential :: string
  ae_kind :: string
  ae_result :: string
  ae_error :: string
  ae_details :: string
  ae_time :: time
  ae_credential_exists :: bool

definition no_cursor :: admin_cursor where
  "no_cursor = \<lparr>cu_id = '''', cu_time = zero_time, cu_previous = False\<rparr>"

subsection \<open>Filters and cursors\<close>

definition filter_keys :: "bool \<Rightarrow> string list" where
  "filter_keys history =
     [''application'', ''subject'', ''cursor'']
     @ (if history then [''credential'', ''from'', ''to''] else [])"

definition parse_cursor :: "bool \<Rightarrow> string \<Rightarrow> admin_cursor option" where
  "parse_cursor history raw =
     (if length raw > 256 then None
      else
        (case b64_decode raw of
           None \<Rightarrow> None
         | Some b \<Rightarrow>
             (case split_on CHR ''|'' b of
                [direction, stamp, i] \<Rightarrow>
                  if direction \<noteq> ''next'' \<and> direction \<noteq> ''previous'' \<or> \<not> uuid_canonical i then None
                  else if history then
                    map_option (\<lambda>t. \<lparr>cu_id = i, cu_time = t, cu_previous = direction = ''previous''\<rparr>)
                      (parse_rfc3339 stamp)
                  else if stamp \<noteq> '''' then None
                  else Some \<lparr>cu_id = i, cu_time = zero_time, cu_previous = direction = ''previous''\<rparr>
              | _ \<Rightarrow> None)))"

definition valid_date :: "string \<Rightarrow> bool" where
  "valid_date date \<longleftrightarrow> date = '''' \<or> parse_day date \<noteq> None \<and> length date = 10"

definition form_filter :: "(string \<times> string) list \<Rightarrow> admin_filter" where
  "form_filter q =
     \<lparr>fi_application = query_get q ''application'', fi_subject = query_get q ''subject'',
      fi_credential = query_get q ''credential'', fi_from = query_get q ''from'',
      fi_to = query_get q ''to'', fi_cursor = no_cursor\<rparr>"

definition bad_filter :: "admin_filter \<Rightarrow> bool" where
  "bad_filter f \<longleftrightarrow>
     fi_application f \<noteq> '''' \<and> \<not> valid_application_code (fi_application f)
     \<or> (length (fi_subject f) > 256 \<or> \<not> utf8_valid (fi_subject f) \<or> nul \<in> set (fi_subject f))
     \<or> fi_credential f \<noteq> '''' \<and> \<not> uuid_canonical (fi_credential f)
     \<or> \<not> list_all valid_date [fi_from f, fi_to f]
     \<or> fi_from f \<noteq> '''' \<and> fi_to f \<noteq> '''' \<and> fi_to f < fi_from f"

definition parse_admin_filter :: "(string \<times> string) list \<Rightarrow> bool \<Rightarrow> admin_filter option" where
  "parse_admin_filter q history =
     (let f = form_filter q in
      if \<not> list_all (\<lambda>p. length (query_values q (fst p)) = 1 \<and> fst p \<in> set (filter_keys history)) q
      then None
      else if bad_filter f then None
      else if query_get q ''cursor'' = '''' then Some f
      else map_option (\<lambda>c. f\<lparr>fi_cursor := c\<rparr>) (parse_cursor history (query_get q ''cursor'')))"

definition cursor_value :: "string \<Rightarrow> time \<Rightarrow> bool \<Rightarrow> string" where
  "cursor_value i t previous =
     (let direction = (if previous then ''previous'' else ''next'');
          stamp = (if t \<noteq> zero_time then format_rfc3339 t else '''') in
      b64_encode (direction @ ''|'' @ stamp @ ''|'' @ i))"

subsection \<open>SQL with placeholders\<close>

datatype sql_arg = TextArg string | TimeArg time

text \<open>One condition: column, operator and number of its placeholder, or the pair of the history's key.\<close>

datatype sql_clause = Compare string string nat | Compare_Pair string nat nat

record admin_sql =
  sq_clauses :: "sql_clause list"
  sq_args :: "sql_arg list"

definition no_sql :: admin_sql where
  "no_sql = \<lparr>sq_clauses = [], sq_args = []\<rparr>"

fun clause_text :: "sql_clause \<Rightarrow> string" where
  "clause_text (Compare column oper n) = column @ '' '' @ oper @ '' $'' @ decimal n"
| "clause_text (Compare_Pair oper m n) =
     ''(h.occurred_at,h.id) '' @ oper @ '' ($'' @ decimal m @ '',$'' @ decimal n @ '')''"

definition sql_add :: "string \<Rightarrow> string \<Rightarrow> sql_arg \<Rightarrow> admin_sql \<Rightarrow> admin_sql" where
  "sql_add column oper value s =
     (let args = sq_args s @ [value] in
      \<lparr>sq_clauses = sq_clauses s @ [Compare column oper (length args)], sq_args = args\<rparr>)"

definition sql_scope :: "admin_filter \<Rightarrow> string \<Rightarrow> admin_sql \<Rightarrow> admin_sql" where
  "sql_scope f pre s =
     (let s1 = (if fi_application f \<noteq> ''''
            then sql_add (pre @ ''application'') ''='' (TextArg (fi_application f)) s else s) in
      if fi_subject f \<noteq> '''' then sql_add (pre @ ''subject'') ''='' (TextArg (fi_subject f)) s1 else s1)"

definition sql_where :: "admin_sql \<Rightarrow> string" where
  "sql_where s =
     (if sq_clauses s = [] then '''' else '' WHERE '' @ join_with '' AND '' (map clause_text (sq_clauses s)))"

definition credentials_sql :: "admin_filter \<Rightarrow> admin_sql" where
  "credentials_sql f =
     (let s = sql_scope f '''' no_sql; oper = (if cu_previous (fi_cursor f) then ''>'' else ''<'') in
      if cu_id (fi_cursor f) \<noteq> '''' then sql_add ''id'' oper (TextArg (cu_id (fi_cursor f))) s else s)"

definition date_arg :: "string \<Rightarrow> time" where
  "date_arg date = (case parse_day date of None \<Rightarrow> zero_time | Some t \<Rightarrow> t)"

definition history_filter_sql :: "admin_filter \<Rightarrow> admin_sql" where
  "history_filter_sql f =
     (let s1 = sql_scope f ''h.'' no_sql;
          s2 = (if fi_credential f \<noteq> ''''
            then sql_add ''h.credential'' ''='' (TextArg (fi_credential f)) s1 else s1);
          s3 = (if fi_from f \<noteq> ''''
            then sql_add ''h.occurred_at'' ''>='' (TimeArg (date_arg (fi_from f))) s2 else s2) in
      if fi_to f \<noteq> ''''
      then sql_add ''h.occurred_at'' ''<'' (TimeArg (date_arg (fi_to f) + day_ns)) s3 else s3)"

definition history_sql :: "admin_filter \<Rightarrow> admin_sql" where
  "history_sql f =
     (let s = history_filter_sql f; c = fi_cursor f; oper = (if cu_previous c then ''>'' else ''<'') in
      if cu_id c \<noteq> '''' then
        (let args = sq_args s @ [TimeArg (cu_time c), TextArg (cu_id c)] in
         \<lparr>sq_clauses = sq_clauses s @ [Compare_Pair oper (length args - 1) (length args)],
          sq_args = args\<rparr>)
      else s)"

subsection \<open>What a statement selects\<close>

text \<open>Arguments are compared with values of their own type only; the order across types is not used.\<close>

instantiation sql_arg :: linorder
begin

fun less_eq_sql_arg :: "sql_arg \<Rightarrow> sql_arg \<Rightarrow> bool" where
  "less_eq_sql_arg (TextArg a) (TextArg b) = (a \<le> b)"
| "less_eq_sql_arg (TextArg a) (TimeArg b) = True"
| "less_eq_sql_arg (TimeArg a) (TextArg b) = False"
| "less_eq_sql_arg (TimeArg a) (TimeArg b) = (a \<le> b)"

definition less_sql_arg :: "sql_arg \<Rightarrow> sql_arg \<Rightarrow> bool" where
  "less_sql_arg a b = (a \<le> b \<and> \<not> b \<le> a)"

instance
proof
  fix a b c :: sql_arg
  show "a < b \<longleftrightarrow> a \<le> b \<and> \<not> b \<le> a" by (simp add: less_sql_arg_def)
  show "a \<le> a" by (cases a) auto
  show "a \<le> b \<Longrightarrow> b \<le> c \<Longrightarrow> a \<le> c" by (cases a; cases b; cases c) auto
  show "a \<le> b \<Longrightarrow> b \<le> a \<Longrightarrow> a = b" by (cases a; cases b) auto
  show "a \<le> b \<or> b \<le> a" by (cases a; cases b) auto
qed

end

lemma less_sql_arg_simps [simp]:
  "TextArg a < TextArg b \<longleftrightarrow> a < b" "TimeArg s < TimeArg t \<longleftrightarrow> s < t"
  by (auto simp: less_sql_arg_def)

definition sql_compare :: "string \<Rightarrow> 'a::linorder \<Rightarrow> 'a \<Rightarrow> bool" where
  "sql_compare oper x y =
     (if oper = ''='' then x = y
      else if oper = ''<'' then x < y
      else if oper = ''>'' then y < x
      else if oper = ''>='' then y \<le> x
      else False)"

definition placeholder :: "sql_arg list \<Rightarrow> nat \<Rightarrow> sql_arg option" where
  "placeholder args n = (if 1 \<le> n \<and> n \<le> length args then Some (args ! (n - 1)) else None)"

text \<open>A column that is \<open>NULL\<close> satisfies no comparison.\<close>

fun sql_holds :: "(string \<Rightarrow> sql_arg option) \<Rightarrow> sql_arg list \<Rightarrow> sql_clause \<Rightarrow> bool" where
  "sql_holds column args (Compare name oper n) =
     (case (column name, placeholder args n) of
        (Some x, Some y) \<Rightarrow> sql_compare oper x y
      | _ \<Rightarrow> False)"
| "sql_holds column args (Compare_Pair oper m n) =
     (case (column ''h.occurred_at'', column ''h.id'', placeholder args m, placeholder args n) of
        (Some t, Some i, Some u, Some j) \<Rightarrow> sql_compare oper (t, i) (u, j)
      | _ \<Rightarrow> False)"

definition sql_selects :: "admin_sql \<Rightarrow> (string \<Rightarrow> sql_arg option) \<Rightarrow> bool" where
  "sql_selects s column \<longleftrightarrow> list_all (sql_holds column (sq_args s)) (sq_clauses s)"

definition credential_column :: "credential \<Rightarrow> string \<Rightarrow> sql_arg option" where
  "credential_column c =
     [''id'' \<mapsto> TextArg (cred_id c), ''application'' \<mapsto> TextArg (cred_application c),
      ''subject'' \<mapsto> TextArg (cred_subject c)]"

definition event_column :: "event \<Rightarrow> string \<Rightarrow> sql_arg option" where
  "event_column e =
     [''h.id'' \<mapsto> TextArg (ev_id e), ''h.application'' \<mapsto> TextArg (ev_application e),
      ''h.subject'' \<mapsto> TextArg (ev_subject e), ''h.occurred_at'' \<mapsto> TimeArg (ev_occurred_at e)]
     (''h.credential'' := map_option TextArg (ev_credential e))"

subsection \<open>The queries\<close>

definition admin_credential_columns :: string where
  "admin_credential_columns =
     ''id::text,application,subject,rp_id,algorithm,sign_count,transports,encode(aaguid,'' @ [nat_byte 39]
     @ ''hex'' @ [nat_byte 39] @ ''),backup_eligible,backup_state,created_at,used_at''"

definition credentials_statement :: "admin_filter \<Rightarrow> string" where
  "credentials_statement f =
     ''SELECT '' @ admin_credential_columns @ '' FROM credential'' @ sql_where (credentials_sql f)
     @ '' ORDER BY id'' @ (if cu_previous (fi_cursor f) then '' ASC'' else '' DESC'')
     @ '' LIMIT '' @ decimal (Suc admin_page_size)"

definition history_statement :: "admin_filter \<Rightarrow> string" where
  "history_statement f =
     (let order = (if cu_previous (fi_cursor f) then '' ASC'' else '' DESC''); empty = [nat_byte 39, nat_byte 39] in
      ''SELECT h.id::text,h.application,h.subject,COALESCE(h.credential::text,'' @ empty
      @ ''),h.kind,h.result,COALESCE(h.error,'' @ empty
      @ ''),h.details::text,h.occurred_at,EXISTS(SELECT 1 FROM credential c WHERE c.id=h.credential) FROM history h''
      @ sql_where (history_sql f) @ '' ORDER BY h.occurred_at'' @ order @ '',h.id'' @ order
      @ '' LIMIT '' @ decimal (Suc admin_page_size))"

definition scan_admin_credential :: "credential \<Rightarrow> admin_credential" where
  "scan_admin_credential c =
     \<lparr>cred_id = cred_id c, cred_application = cred_application c, cred_subject = cred_subject c,
      cred_rpid = cred_rpid c, cred_webauthn_id = [], cred_public_key = [],
      cred_algorithm = cred_algorithm c, cred_sign_count = cred_sign_count c,
      cred_transports = cred_transports c, cred_aaguid = [],
      cred_backup_eligible = cred_backup_eligible c, cred_backup_state = cred_backup_state c,
      cred_webauthn = [], cred_created_at = cred_created_at c, cred_used_at = cred_used_at c,
      ac_aaguid_text = hex_encode (cred_aaguid c)\<rparr>"

definition select_admin_credential :: "string \<Rightarrow> db \<Rightarrow> admin_credential option" where
  "select_admin_credential i d =
     map_option scan_admin_credential (find (\<lambda>c. cred_id c = i) (db_credential d))"

definition select_admin_credentials :: "admin_filter \<Rightarrow> db \<Rightarrow> admin_credential list" where
  "select_admin_credentials f d =
     map scan_admin_credential
       (take (Suc admin_page_size)
         (order_by cred_id (cu_previous (fi_cursor f))
           (filter (\<lambda>c. sql_selects (credentials_sql f) (credential_column c)) (db_credential d))))"

definition event_key :: "event \<Rightarrow> time \<times> string" where
  "event_key e = (ev_occurred_at e, ev_id e)"

definition scan_admin_event :: "((string \<times> string) list \<Rightarrow> string) \<Rightarrow> db \<Rightarrow> event \<Rightarrow> admin_event" where
  "scan_admin_event pretty d e =
     \<lparr>ae_id = ev_id e, ae_application = ev_application e, ae_subject = ev_subject e,
      ae_credential = (case ev_credential e of None \<Rightarrow> '''' | Some c \<Rightarrow> c), ae_kind = ev_kind e,
      ae_result = ev_result e, ae_error = (case ev_error e of None \<Rightarrow> '''' | Some t \<Rightarrow> t),
      ae_details = (if ev_details e \<noteq> [] then pretty (ev_details e) else ''''),
      ae_time = ev_occurred_at e,
      ae_credential_exists = list_ex (\<lambda>c. ev_credential e = Some (cred_id c)) (db_credential d)\<rparr>"

definition select_admin_history ::
  "((string \<times> string) list \<Rightarrow> string) \<Rightarrow> admin_filter \<Rightarrow> db \<Rightarrow> admin_event list" where
  "select_admin_history pretty f d =
     map (scan_admin_event pretty d)
       (take (Suc admin_page_size)
         (order_by event_key (cu_previous (fi_cursor f))
           (filter (\<lambda>e. sql_selects (history_sql f) (event_column e)) (db_history d))))"

definition admin_page :: "'a list \<Rightarrow> admin_cursor \<Rightarrow> 'a list \<times> bool \<times> bool" where
  "admin_page rows c = page_of rows (cu_id c \<noteq> '''') (cu_previous c)"

text \<open>The methods of \<open>adminPostgres\<close>: one statement each.\<close>

record admin_store =
  as_credentials :: "admin_filter \<Rightarrow> admin_credential list eff"
  as_credential :: "string \<Rightarrow> admin_credential option eff"
  as_history :: "admin_filter \<Rightarrow> admin_event list eff"

definition admin_postgres :: "env \<Rightarrow> ((string \<times> string) list \<Rightarrow> string) \<Rightarrow> admin_store" where
  "admin_postgres E pretty =
     \<lparr>as_credentials = (\<lambda>f. exec E (query (select_admin_credentials f))),
      as_credential = (\<lambda>i. exec E (query (select_admin_credential i))),
      as_history = (\<lambda>f. exec E (query (select_admin_history pretty f)))\<rparr>"

lemma admin_postgres_frame [frame]:
  "keeps_store (as_credentials (admin_postgres E pretty) f)"
  "keeps_store (as_credential (admin_postgres E pretty) i)"
  "keeps_store (as_history (admin_postgres E pretty) f)"
  by (simp_all add: admin_postgres_def frame)


subsection \<open>Placeholders and their arguments\<close>

fun clause_placeholders :: "sql_clause \<Rightarrow> nat list" where
  "clause_placeholders (Compare _ _ n) = [n]"
| "clause_placeholders (Compare_Pair _ m n) = [m, n]"

text \<open>Every argument has one placeholder, in order.\<close>

definition placed :: "admin_sql \<Rightarrow> bool" where
  "placed s \<longleftrightarrow> concat (map clause_placeholders (sq_clauses s)) = [1..<Suc (length (sq_args s))]"

lemma placed_no_sql: "placed no_sql"
  by (simp add: placed_def no_sql_def)

lemma placed_add: "placed s \<Longrightarrow> placed (sql_add column oper v s)"
  by (simp add: placed_def sql_add_def Let_def)

lemma placed_bounds: "placed s \<Longrightarrow> c \<in> set (sq_clauses s) \<Longrightarrow> n \<in> set (clause_placeholders c) \<Longrightarrow>
    1 \<le> n \<and> n \<le> length (sq_args s)"
proof -
  assume s: "placed s" and c: "c \<in> set (sq_clauses s)" "n \<in> set (clause_placeholders c)"
  then have "n \<in> set (concat (map clause_placeholders (sq_clauses s)))" by auto
  also have "\<dots> = set [1..<Suc (length (sq_args s))]" using s by (simp only: placed_def)
  finally show ?thesis by auto
qed

lemma placeholder_append:
  "1 \<le> n \<Longrightarrow> n \<le> length args \<Longrightarrow> placeholder (args @ rest) n = placeholder args n"
  by (auto simp: placeholder_def nth_append)

lemma sql_holds_append:
  "placed s \<Longrightarrow> c \<in> set (sq_clauses s) \<Longrightarrow>
    sql_holds column (sq_args s @ rest) c = sql_holds column (sq_args s) c"
  using placed_bounds [of s c] by (cases c) (simp_all add: placeholder_append)

lemma sql_selects_append:
  "placed s \<Longrightarrow> list_all (sql_holds column (sq_args s @ rest)) (sq_clauses s) = sql_selects s column"
  by (auto simp: sql_selects_def list_all_iff sql_holds_append)

lemma sql_selects_no_sql: "sql_selects no_sql column"
  by (simp add: sql_selects_def no_sql_def)

lemma sql_selects_record:
  "sql_selects \<lparr>sq_clauses = cs, sq_args = args\<rparr> column = list_all (sql_holds column args) cs"
  by (simp add: sql_selects_def)

lemma sql_selects_add:
  "placed s \<Longrightarrow> sql_selects (sql_add name oper v s) column
    \<longleftrightarrow> sql_selects s column \<and> (\<exists>x. column name = Some x \<and> sql_compare oper x v)"
  by (auto simp: sql_add_def Let_def sql_selects_record sql_selects_append)
    (auto simp: placeholder_def split: option.splits)

text \<open>A condition that is only added for a filled field.\<close>

lemma sql_selects_add_if:
  "placed s \<Longrightarrow> sql_selects (if p then sql_add name oper v s else s) column
    \<longleftrightarrow> sql_selects s column \<and> (p \<longrightarrow> (\<exists>x. column name = Some x \<and> sql_compare oper x v))"
  "placed s \<Longrightarrow> placed (if p then sql_add name oper v s else s)"
  by (simp_all add: sql_selects_add placed_add)

lemma placed_scope: "placed s \<Longrightarrow> placed (sql_scope f pre s)"
  by (simp add: sql_scope_def Let_def placed_add)

lemma placed_credentials: "placed (credentials_sql f)"
  by (simp add: credentials_sql_def Let_def placed_add placed_scope placed_no_sql)

lemma placed_history_filter: "placed (history_filter_sql f)"
  by (simp add: history_filter_sql_def Let_def placed_add placed_scope placed_no_sql)

lemma placed_pair:
  "placed s \<Longrightarrow> placed \<lparr>sq_clauses = sq_clauses s @ [Compare_Pair oper (Suc (length (sq_args s)))
      (Suc (Suc (length (sq_args s))))], sq_args = sq_args s @ [x, y]\<rparr>"
  by (simp add: placed_def)

lemma placed_history: "placed (history_sql f)"
  by (simp add: history_sql_def Let_def placed_history_filter placed_pair)

subsection \<open>The rows a filter selects\<close>

text \<open>An empty text of the form is no condition.\<close>

definition unless_empty :: "string \<Rightarrow> bool \<Rightarrow> bool" where
  "unless_empty s b \<longleftrightarrow> s \<noteq> '''' \<longrightarrow> b"

definition credential_wanted :: "admin_filter \<Rightarrow> credential \<Rightarrow> bool" where
  "credential_wanted f c \<longleftrightarrow>
     unless_empty (fi_application f) (cred_application c = fi_application f)
     \<and> unless_empty (fi_subject f) (cred_subject c = fi_subject f)"

definition event_wanted :: "admin_filter \<Rightarrow> event \<Rightarrow> bool" where
  "event_wanted f e \<longleftrightarrow>
     unless_empty (fi_application f) (ev_application e = fi_application f)
     \<and> unless_empty (fi_subject f) (ev_subject e = fi_subject f)
     \<and> unless_empty (fi_credential f) (ev_credential e = Some (fi_credential f))
     \<and> unless_empty (fi_from f) (date_arg (fi_from f) \<le> ev_occurred_at e)
     \<and> unless_empty (fi_to f) (ev_occurred_at e < date_arg (fi_to f) + day_ns)"

definition beyond :: "'k::linorder \<Rightarrow> bool \<Rightarrow> 'k \<Rightarrow> bool" where
  "beyond c backwards k \<longleftrightarrow> (if backwards then c < k else k < c)"

lemma sql_compare_simps [simp]:
  "sql_compare ''='' x y \<longleftrightarrow> x = y" "sql_compare ''<'' x y \<longleftrightarrow> x < y"
  "sql_compare ''>'' x y \<longleftrightarrow> y < x" "sql_compare ''>='' x y \<longleftrightarrow> y \<le> x"
  by (simp_all add: sql_compare_def)

lemma selects_scope:
  "placed s \<Longrightarrow> sql_selects (sql_scope f pre s) column \<longleftrightarrow> sql_selects s column
    \<and> unless_empty (fi_application f) (column (pre @ ''application'') = Some (TextArg (fi_application f)))
    \<and> unless_empty (fi_subject f) (column (pre @ ''subject'') = Some (TextArg (fi_subject f)))"
  by (simp add: sql_scope_def Let_def sql_selects_add_if unless_empty_def split del: if_split)

lemma credentials_sql_selects:
  "sql_selects (credentials_sql f) (credential_column c) \<longleftrightarrow>
    credential_wanted f c
    \<and> unless_empty (cu_id (fi_cursor f)) (beyond (cu_id (fi_cursor f)) (cu_previous (fi_cursor f)) (cred_id c))"
  by (simp add: credentials_sql_def Let_def sql_selects_add_if selects_scope placed_scope placed_no_sql
      sql_selects_no_sql unless_empty_def split del: if_split)
    (simp add: credential_column_def credential_wanted_def unless_empty_def beyond_def)

lemma selects_pair:
  "placed s \<Longrightarrow> sql_selects \<lparr>sq_clauses = sq_clauses s @ [Compare_Pair oper (Suc (length (sq_args s)))
      (Suc (Suc (length (sq_args s))))], sq_args = sq_args s @ [TimeArg t, TextArg i]\<rparr> (event_column e)
    \<longleftrightarrow> sql_selects s (event_column e)
      \<and> sql_compare oper (TimeArg (ev_occurred_at e), TextArg (ev_id e)) (TimeArg t, TextArg i)"
  by (simp add: sql_selects_record sql_selects_append)
    (simp add: placeholder_def nth_append event_column_def)

lemma event_columns:
  "event_column e ''h.application'' = Some (TextArg (ev_application e))"
  "event_column e ''h.subject'' = Some (TextArg (ev_subject e))"
  "event_column e ''h.credential'' = map_option TextArg (ev_credential e)"
  "event_column e ''h.occurred_at'' = Some (TimeArg (ev_occurred_at e))"
  by (simp_all add: event_column_def)

lemma history_filter_selects:
  "sql_selects (history_filter_sql f) (event_column e) \<longleftrightarrow> event_wanted f e"
  by (simp add: history_filter_sql_def Let_def sql_selects_add_if selects_scope placed_scope placed_no_sql
      sql_selects_no_sql event_columns event_wanted_def unless_empty_def split del: if_split)

lemma history_sql_selects:
  "sql_selects (history_sql f) (event_column e) \<longleftrightarrow>
    event_wanted f e
    \<and> unless_empty (cu_id (fi_cursor f))
        (beyond (cu_time (fi_cursor f), cu_id (fi_cursor f)) (cu_previous (fi_cursor f)) (event_key e))"
  by (simp add: history_sql_def Let_def history_filter_selects selects_pair placed_history_filter
      unless_empty_def beyond_def event_key_def)

subsection \<open>The text of a statement\<close>

text \<open>Two filters that fill the same fields and walk the same way.\<close>

definition same_shape :: "admin_filter \<Rightarrow> admin_filter \<Rightarrow> bool" where
  "same_shape f g \<longleftrightarrow>
     (fi_application f = '''') = (fi_application g = '''') \<and> (fi_subject f = '''') = (fi_subject g = '''')
     \<and> (fi_credential f = '''') = (fi_credential g = '''') \<and> (fi_from f = '''') = (fi_from g = '''')
     \<and> (fi_to f = '''') = (fi_to g = '''')
     \<and> (cu_id (fi_cursor f) = '''') = (cu_id (fi_cursor g) = '''')
     \<and> cu_previous (fi_cursor f) = cu_previous (fi_cursor g)"

definition same_text :: "admin_sql \<Rightarrow> admin_sql \<Rightarrow> bool" where
  "same_text s t \<longleftrightarrow> sq_clauses s = sq_clauses t \<and> length (sq_args s) = length (sq_args t)"

lemma same_text_add: "same_text s t \<Longrightarrow> same_text (sql_add column oper v s) (sql_add column oper u t)"
  by (simp add: same_text_def sql_add_def Let_def)

lemma same_text_add_if:
  "same_text s t \<Longrightarrow> same_text (if p then sql_add column oper v s else s)
    (if p then sql_add column oper u t else t)"
  by (simp add: same_text_add)

lemma same_text_scope: "same_shape f g \<Longrightarrow> same_text (sql_scope f pre no_sql) (sql_scope g pre no_sql)"
  by (simp add: sql_scope_def Let_def same_shape_def) (simp add: same_text_def sql_add_def no_sql_def)

lemma same_text_credentials: "same_shape f g \<Longrightarrow> same_text (credentials_sql f) (credentials_sql g)"
  using same_text_scope [of f g "''''"] by (simp add: credentials_sql_def Let_def same_shape_def same_text_add)

lemma same_text_history_filter:
  "same_shape f g \<Longrightarrow> same_text (history_filter_sql f) (history_filter_sql g)"
  using same_text_scope [of f g "''h.''"]
  by (simp add: history_filter_sql_def Let_def same_shape_def same_text_add split del: if_split)
    (intro same_text_add_if)

lemma same_text_history: "same_shape f g \<Longrightarrow> same_text (history_sql f) (history_sql g)"
  using same_text_history_filter [of f g] by (simp add: history_sql_def Let_def same_shape_def same_text_def)

lemma same_statements:
  assumes "same_shape f g"
  shows "credentials_statement f = credentials_statement g" "history_statement f = history_statement g"
proof -
  have "sql_where s = sql_where t" if "same_text s t" for s t
    using that by (simp add: same_text_def sql_where_def)
  then show "credentials_statement f = credentials_statement g" "history_statement f = history_statement g"
    using same_text_credentials [OF assms] same_text_history [OF assms] assms
    by (simp_all add: credentials_statement_def history_statement_def Let_def same_shape_def)
qed

end
