(* ===== verification/Admin_Lists.thy ===== *)
theory Admin_Lists
  imports Admin_Queries
begin

section \<open>Walking the administration lists\<close>

text \<open>
  The cursor in a link is read back as the key of its row, the link keeps the other filters, and so
  following the links walks through the filtered table: the locale \<open>keyset\<close> interpreted on the
  credentials by id and on the history by time and id.
\<close>

subsection \<open>Cursors are read back\<close>

lemma uuid_bytes: "uuid_canonical i \<Longrightarrow> CHR ''|'' \<notin> set i"
proof -
  assume "uuid_canonical i"
  then obtain u where i: "i = uuid_string u" by (auto simp: uuid_canonical_def split: option.splits)
  have "CHR ''|'' \<notin> set hex_digits" by (simp add: hex_digits_def)
  then have "CHR ''|'' \<notin> set (hex_encode b)" for b using hex_encode_bytes [of b] by blast
  then show "CHR ''|'' \<notin> set i" by (simp add: i uuid_string_def)
qed

lemma digits_bytes: "list_all is_digit s \<Longrightarrow> CHR ''|'' \<notin> set s"
proof -
  have "\<not> is_digit CHR ''|''" by code_simp
  then show "list_all is_digit s \<Longrightarrow> ?thesis" by (auto simp: list_all_iff)
qed

lemma pad_bytes: "CHR ''|'' \<notin> set (pad w n)"
  using digits_bytes [OF digits_of_digits] digits_bytes [OF decimal_digits] by (simp add: pad_def)

lemma fraction_bytes: "CHR ''|'' \<notin> set (format_fraction ns)"
  using digits_bytes [OF digits_of_digits [of 9 "nat ns"]]
  by (auto simp: format_fraction_def dest: set_dropWhileD)

lemma rfc3339_bytes: "CHR ''|'' \<notin> set (format_rfc3339 t)"
  using pad_bytes fraction_bytes
  by (simp add: format_rfc3339_def format_date_def format_year_def format_clock_def split: prod.splits)

text \<open>The years a time is printed with four digits.\<close>

definition printable_time :: "time \<Rightarrow> bool" where
  "printable_time t \<longleftrightarrow> (case date_of_days (t div day_ns) of (y, _, _) \<Rightarrow> 0 \<le> y \<and> y \<le> 9999)"

lemma length_pad: "n < 10 ^ w \<Longrightarrow> length (pad w n) = w"
  by (simp add: pad_def)

lemma length_fraction: "length (format_fraction ns) \<le> 10"
  using length_dropWhile_le [of "\<lambda>c. c = CHR ''0''" "rev (digits_of 9 (nat ns))"]
  by (simp add: format_fraction_def)

lemma length_clock: "0 \<le> s \<Longrightarrow> s < 86400 \<Longrightarrow> length (format_clock s) = 8"
proof -
  assume s: "0 \<le> s" "s < 86400"
  have "s div 3600 < 100" using s div_bounds [of 3600 s] by linarith
  moreover have "s div 60 mod 60 < 100" "s mod 60 < 100"
    using pos_mod_bound [of 60 "s div 60"] pos_mod_bound [of 60 s] by linarith+
  ultimately show ?thesis by (simp add: format_clock_def length_pad nat_less_iff)
qed

lemma length_date:
  assumes "printable_time t"
  shows "length (format_date (date_of_days (t div day_ns))) = 10"
proof -
  obtain y m d where date: "date_of_days (t div day_ns) = (y, m, d)" by (cases "date_of_days (t div day_ns)")
  note parts = date_of_days [OF date]
  have "d \<le> 31" using parts(5) by (simp add: days_in_def split: if_splits)
  with parts assms show ?thesis
    by (simp add: date format_date_def format_year_def printable_time_def length_pad nat_less_iff)
qed

lemma length_rfc3339: "printable_time t \<Longrightarrow> length (format_rfc3339 t) \<le> 30"
proof -
  assume t: "printable_time t"
  let ?s = "t mod day_ns div second_ns"
  have "0 \<le> ?s" "?s < 86400"
    using pos_mod_bound [of day_ns t] pos_mod_sign [of day_ns t] div_bounds [of second_ns "t mod day_ns"]
    by (simp_all add: day_ns_def second_ns_def pos_imp_zdiv_nonneg_iff)
  then have "length (format_clock ?s) = 8" by (rule length_clock)
  with length_date [OF t] length_fraction [of "t mod second_ns"] show ?thesis
    by (simp add: format_rfc3339_def)
qed

definition stamp_of :: "time \<Rightarrow> string" where
  "stamp_of t = (if t \<noteq> zero_time then format_rfc3339 t else '''')"

lemma split_cursor:
  assumes "uuid_canonical i"
  shows "split_on CHR ''|'' ((if previous then ''previous'' else ''next'') @ ''|'' @ stamp_of t @ ''|'' @ i)
    = [if previous then ''previous'' else ''next'', stamp_of t, i]"
proof -
  have "CHR ''|'' \<notin> set (stamp_of t)" using rfc3339_bytes by (simp add: stamp_of_def)
  then show ?thesis
    using uuid_bytes [OF assms] by (cases previous) (simp_all add: split_on_append split_on_none)
qed

lemma parse_cursor_value:
  assumes "uuid_canonical i" and "length (stamp_of t) \<le> 30"
  shows "parse_cursor history (cursor_value i t previous) =
    (if history then map_option (\<lambda>t. \<lparr>cu_id = i, cu_time = t, cu_previous = previous\<rparr>)
        (parse_rfc3339 (stamp_of t))
     else if stamp_of t \<noteq> '''' then None
     else Some \<lparr>cu_id = i, cu_time = zero_time, cu_previous = previous\<rparr>)"
proof -
  let ?b = "(if previous then ''previous'' else ''next'') @ ''|'' @ stamp_of t @ ''|'' @ i"
  have v: "cursor_value i t previous = b64_encode ?b" by (simp add: cursor_value_def stamp_of_def)
  have "length ?b \<le> 76" using assms uuid_canonical_length [OF assms(1)] by simp
  then have "length (b64_encode ?b) \<le> 256" unfolding length_b64_encode by linarith
  then show ?thesis
    unfolding parse_cursor_def v using split_cursor [OF assms(1), of previous t] assms(1) by simp
qed

lemma cursor_credentials:
  "uuid_canonical i \<Longrightarrow> parse_cursor False (cursor_value i zero_time previous)
    = Some \<lparr>cu_id = i, cu_time = zero_time, cu_previous = previous\<rparr>"
  using parse_cursor_value [of i zero_time] by (simp add: stamp_of_def)

lemma cursor_history:
  assumes "uuid_canonical i" and "printable_time t" and "t \<noteq> zero_time"
  shows "parse_cursor True (cursor_value i t previous)
    = Some \<lparr>cu_id = i, cu_time = t, cu_previous = previous\<rparr>"
proof -
  from assms(2) have "parse_rfc3339 (format_rfc3339 t) = Some t"
    by (auto simp: printable_time_def intro: parse_format_rfc3339 split: prod.splits)
  with assms parse_cursor_value [of i t] length_rfc3339 [of t] show ?thesis
    by (simp add: stamp_of_def)
qed

lemma cursor_value_nonempty: "cursor_value i t previous \<noteq> ''''"
proof -
  have "length (b64_encode (x # xs)) \<noteq> 0" for x xs unfolding length_b64_encode by simp
  then have "b64_encode (x # xs) \<noteq> ''''" for x xs by (metis list.size(3))
  then show ?thesis by (cases previous) (simp_all add: cursor_value_def)
qed

subsection \<open>A link keeps the filters\<close>

lemma query_values_set:
  "query_values (values_set q k v) n = (if n = k then [v] else query_values q n)"
  by (auto simp: query_values_def values_set_def filter_empty_conv intro!: arg_cong [of _ _ "map snd"])
    (metis (mono_tags, lifting))

lemma query_get_set:
  "query_get (values_set q k v) n = (if n = k then v else query_get q n)"
  by (simp add: query_get_def query_values_set)

lemma query_get_sorted: "query_get (sort_key fst q) n = query_get q n"
  by (simp add: query_get_def query_values_sorted)

lemma parse_filter_link:
  assumes "parse_admin_filter q history = Some f" and "parse_cursor history text = Some c" and "text \<noteq> ''''"
  shows "parse_admin_filter (sort_key fst (values_set q ''cursor'' text)) history = Some (f\<lparr>fi_cursor := c\<rparr>)"
proof -
  let ?q = "sort_key fst (values_set q ''cursor'' text)"
  have ok: "list_all (\<lambda>p. length (query_values q (fst p)) = 1 \<and> fst p \<in> set (filter_keys history)) q"
    using assms(1) by (auto simp: parse_admin_filter_def Let_def split: if_splits)
  have "list_all (\<lambda>p. length (query_values ?q (fst p)) = 1 \<and> fst p \<in> set (filter_keys history)) ?q"
    using ok by (auto simp: list_all_iff query_values_sorted query_values_set)
      (auto simp: values_set_def filter_keys_def)
  moreover have "form_filter ?q = form_filter q"
    by (simp add: form_filter_def query_get_sorted query_get_set)
  moreover have "query_get ?q ''cursor'' = text" by (simp add: query_get_sorted query_get_set)
  moreover have "\<not> bad_filter (form_filter q)" "\<exists>c'. f = form_filter q\<lparr>fi_cursor := c'\<rparr>"
    using assms(1) by (auto simp: parse_admin_filter_def Let_def form_filter_def split: if_splits)
  ultimately show ?thesis using assms(2,3) by (auto simp: parse_admin_filter_def)
qed


text \<open>\<open>pageURL\<close>, from the query of the page on.\<close>

definition page_query :: "string \<Rightarrow> string \<Rightarrow> string" where
  "page_query raw cursor = values_encode (values_set (fst (parse_query raw)) ''cursor'' cursor)"

text \<open>The filter of a query string, when it is accepted.\<close>

definition query_filter :: "string \<Rightarrow> bool \<Rightarrow> admin_filter option" where
  "query_filter raw history =
     (case parse_query raw of (q, bad) \<Rightarrow> if bad then None else parse_admin_filter q history)"

lemma query_filter_link:
  assumes "query_filter raw history = Some f" and "parse_cursor history (cursor_value i t previous) = Some c"
  shows "query_filter (page_query raw (cursor_value i t previous)) history = Some (f\<lparr>fi_cursor := c\<rparr>)"
  using assms parse_filter_link [OF _ assms(2) cursor_value_nonempty]
  by (auto simp: query_filter_def page_query_def parse_query_encode split: prod.splits if_splits)

subsection \<open>The lists a reader sees\<close>

interpretation credential_list: keyset wf_db cred_id db_credential
  by unfold_locales (simp add: wf_db_def wf_credentials_def)

interpretation event_list: keyset wf_db event_key db_history
proof unfold_locales
  fix d :: db
  assume "wf_db d"
  then have "distinct (map ev_id (db_history d))" by (simp add: wf_db_def)
  then show "distinct (map event_key (db_history d))"
    by (auto simp: distinct_map inj_on_def event_key_def)
qed

text \<open>The page a query string leads to, as \<open>credentials\<close> and \<open>history\<close> make it; nothing for a bad one.\<close>

definition credentials_view :: "db \<Rightarrow> string \<Rightarrow> admin_credential list \<times> bool \<times> bool" where
  "credentials_view d raw =
     (case query_filter raw False of
        None \<Rightarrow> ([], False, False)
      | Some f \<Rightarrow> admin_page (select_admin_credentials f d) (fi_cursor f))"

definition history_view ::
  "((string \<times> string) list \<Rightarrow> string) \<Rightarrow> db \<Rightarrow> string \<Rightarrow> admin_event list \<times> bool \<times> bool"
where
  "history_view pretty d raw =
     (case query_filter raw True of
        None \<Rightarrow> ([], False, False)
      | Some f \<Rightarrow> admin_page (select_admin_history pretty f d) (fi_cursor f))"

definition credential_link :: "bool \<Rightarrow> string \<Rightarrow> admin_credential \<Rightarrow> string" where
  "credential_link previous raw c = page_query raw (cursor_value (cred_id c) zero_time previous)"

definition event_link :: "bool \<Rightarrow> string \<Rightarrow> admin_event \<Rightarrow> string" where
  "event_link previous raw e = page_query raw (cursor_value (ae_id e) (ae_time e) previous)"

lemma admin_page_map: "admin_page (map g rows) c = (case admin_page rows c of (p, a, b) \<Rightarrow> (map g p, a, b))"
  by (simp add: admin_page_def page_of_def Let_def take_map rev_map)

lemma wanted_cursor [simp]:
  "credential_wanted (f\<lparr>fi_cursor := c\<rparr>) = credential_wanted f"
  "event_wanted (f\<lparr>fi_cursor := c\<rparr>) = event_wanted f"
  by (simp_all add: fun_eq_iff credential_wanted_def event_wanted_def)

lemma query_filter_view:
  "query_filter raw False = Some f \<Longrightarrow> credentials_view d raw
    = (case page_of (take (Suc admin_page_size) (order_by cred_id (cu_previous (fi_cursor f))
          (filter (\<lambda>c. sql_selects (credentials_sql f) (credential_column c)) (db_credential d))))
        (cu_id (fi_cursor f) \<noteq> '''') (cu_previous (fi_cursor f))
      of (p, a, b) \<Rightarrow> (map scan_admin_credential p, a, b))"
  "query_filter raw True = Some f \<Longrightarrow> history_view pretty d raw
    = (case page_of (take (Suc admin_page_size) (order_by event_key (cu_previous (fi_cursor f))
          (filter (\<lambda>e. sql_selects (history_sql f) (event_column e)) (db_history d))))
        (cu_id (fi_cursor f) \<noteq> '''') (cu_previous (fi_cursor f))
      of (p, a, b) \<Rightarrow> (map (scan_admin_event pretty d) p, a, b))"
  by (simp_all add: credentials_view_def history_view_def select_admin_credentials_def
      select_admin_history_def admin_page_map) (simp_all add: admin_page_def)

lemma canonical_nonempty: "uuid_canonical i \<Longrightarrow> i \<noteq> ''''"
  using uuid_canonical_length by fastforce

lemma credentials_neighbour:
  assumes f: "query_filter raw False = Some f" and wf: "wf_db d"
    and split: "credential_list.listed d (credential_wanted f) = newer @ x # older"
    and x: "uuid_canonical (cred_id x)"
  shows "credentials_view d (credential_link previous raw (scan_admin_credential x)) =
    (if previous
     then (map scan_admin_credential (drop (length newer - admin_page_size) newer),
           admin_page_size < length newer, True)
     else (map scan_admin_credential (take admin_page_size older), True, admin_page_size < length older))"
proof -
  let ?raw = "credential_link previous raw (scan_admin_credential x)"
  have "query_filter ?raw False
    = Some (f\<lparr>fi_cursor := \<lparr>cu_id = cred_id x, cu_time = zero_time, cu_previous = previous\<rparr>\<rparr>)"
    using query_filter_link [OF f cursor_credentials [OF x]]
    by (simp add: credential_link_def scan_admin_credential_def)
  from query_filter_view(1) [OF this, of d] show ?thesis
    using credential_list.page_after [OF wf split] credential_list.page_before [OF wf split]
      canonical_nonempty [OF x]
    by (simp add: credentials_sql_selects unless_empty_def beyond_def)
qed


lemma history_neighbour:
  assumes f: "query_filter raw True = Some f" and wf: "wf_db d"
    and split: "event_list.listed d (event_wanted f) = newer @ x # older"
    and x: "uuid_canonical (ev_id x)" "printable_time (ev_occurred_at x)" "ev_occurred_at x \<noteq> zero_time"
  shows "history_view pretty d (event_link previous raw (scan_admin_event pretty d x)) =
    (if previous
     then (map (scan_admin_event pretty d) (drop (length newer - admin_page_size) newer),
           admin_page_size < length newer, True)
     else (map (scan_admin_event pretty d) (take admin_page_size older), True,
           admin_page_size < length older))"
proof -
  let ?raw = "event_link previous raw (scan_admin_event pretty d x)"
  have "query_filter ?raw True
    = Some (f\<lparr>fi_cursor := \<lparr>cu_id = ev_id x, cu_time = ev_occurred_at x, cu_previous = previous\<rparr>\<rparr>)"
    using query_filter_link [OF f cursor_history [OF x]]
    by (simp add: event_link_def scan_admin_event_def)
  from query_filter_view(2) [OF this, of pretty d] show ?thesis
    using event_list.page_after [OF wf split] event_list.page_before [OF wf split]
      canonical_nonempty [OF x(1)]
    by (simp add: history_sql_selects unless_empty_def beyond_def flip: event_key_def)
qed

lemma credentials_first:
  assumes "query_filter raw False = Some f" and "fi_cursor f = no_cursor"
  shows "credentials_view d raw =
    (map scan_admin_credential (take admin_page_size (credential_list.listed d (credential_wanted f))),
     False, admin_page_size < length (credential_list.listed d (credential_wanted f)))"
  using query_filter_view(1) [OF assms(1), of d] assms(2)
    credential_list.first_page [of "credential_wanted f" d]
  by (simp add: credentials_sql_selects unless_empty_def no_cursor_def)

lemma history_first:
  assumes "query_filter raw True = Some f" and "fi_cursor f = no_cursor"
  shows "history_view pretty d raw =
    (map (scan_admin_event pretty d) (take admin_page_size (event_list.listed d (event_wanted f))),
     False, admin_page_size < length (event_list.listed d (event_wanted f)))"
  using query_filter_view(2) [OF assms(1), of pretty d] assms(2)
    event_list.first_page [of "event_wanted f" d]
  by (simp add: history_sql_selects unless_empty_def no_cursor_def)

text \<open>A query string with the filters of \<open>f\<close>, whatever its cursor.\<close>

definition same_filters :: "bool \<Rightarrow> admin_filter \<Rightarrow> string \<Rightarrow> bool" where
  "same_filters history f raw \<longleftrightarrow> (\<exists>c. query_filter raw history = Some (f\<lparr>fi_cursor := c\<rparr>))"

lemma same_filters_start: "query_filter raw history = Some f \<Longrightarrow> same_filters history f raw"
  by (auto simp: same_filters_def intro!: exI [of _ "fi_cursor f"])

lemma same_filters_link:
  "same_filters history f raw \<Longrightarrow> parse_cursor history (cursor_value i t previous) = Some c \<Longrightarrow>
    same_filters history f (page_query raw (cursor_value i t previous))"
  by (fastforce simp: same_filters_def dest: query_filter_link)

lemma listed_rows:
  "x \<in> set (credential_list.listed d P) \<Longrightarrow> x \<in> set (db_credential d)"
  "y \<in> set (event_list.listed d Q) \<Longrightarrow> y \<in> set (db_history d)"
  by (auto simp: credential_list.listed_def event_list.listed_def order_by_def)

lemma credentials_browsed:
  assumes "wf_db d" and ids: "\<forall>c \<in> set (db_credential d). uuid_canonical (cred_id c)"
    and f: "query_filter raw False = Some f" "fi_cursor f = no_cursor"
    and n: "length (credential_list.listed d (credential_wanted f)) < n"
  shows "browse (credentials_view d) (credential_link False) n raw
    = Some (map (map scan_admin_credential) (pages (credential_list.listed d (credential_wanted f))))"
proof (rule credential_list.browse_rest [where newer = "[]" and I = "same_filters False f"])
  fix c newer x older
  assume c: "same_filters False f c"
    and split: "credential_list.listed d (credential_wanted f) = newer @ x # older"
  then have "x \<in> set (db_credential d)" by (intro listed_rows(1) [where P = "credential_wanted f"]) auto
  then have x: "uuid_canonical (cred_id x)" using ids by blast
  from c obtain k where k: "query_filter c False = Some (f\<lparr>fi_cursor := k\<rparr>)" by (auto simp: same_filters_def)
  show "same_filters False f (credential_link False c (scan_admin_credential x))
    \<and> credentials_view d (credential_link False c (scan_admin_credential x))
      = (map scan_admin_credential (take admin_page_size older), True, admin_page_size < length older)"
    using credentials_neighbour [OF k assms(1) _ x, of newer older False] split
      same_filters_link [OF c cursor_credentials [OF x]]
    by (simp add: credential_link_def scan_admin_credential_def)
qed (use n same_filters_start [OF f(1)] credentials_first [OF f] in auto)

text \<open>The times an event can have that a link can carry.\<close>

definition linkable :: "event \<Rightarrow> bool" where
  "linkable e \<longleftrightarrow>
     uuid_canonical (ev_id e) \<and> printable_time (ev_occurred_at e) \<and> ev_occurred_at e \<noteq> zero_time"

lemma history_browsed:
  assumes "wf_db d" and ids: "\<forall>e \<in> set (db_history d). linkable e"
    and f: "query_filter raw True = Some f" "fi_cursor f = no_cursor"
    and n: "length (event_list.listed d (event_wanted f)) < n"
  shows "browse (history_view pretty d) (event_link False) n raw
    = Some (map (map (scan_admin_event pretty d)) (pages (event_list.listed d (event_wanted f))))"
proof (rule event_list.browse_rest [where newer = "[]" and I = "same_filters True f"])
  fix c newer x older
  assume c: "same_filters True f c"
    and split: "event_list.listed d (event_wanted f) = newer @ x # older"
  then have "x \<in> set (db_history d)" by (intro listed_rows(2) [where Q = "event_wanted f"]) auto
  then have "linkable x" using ids by blast
  then have x: "uuid_canonical (ev_id x)" "printable_time (ev_occurred_at x)" "ev_occurred_at x \<noteq> zero_time"
    by (simp_all add: linkable_def)
  from c obtain k where k: "query_filter c True = Some (f\<lparr>fi_cursor := k\<rparr>)" by (auto simp: same_filters_def)
  show "same_filters True f (event_link False c (scan_admin_event pretty d x))
    \<and> history_view pretty d (event_link False c (scan_admin_event pretty d x))
      = (map (scan_admin_event pretty d) (take admin_page_size older), True, admin_page_size < length older)"
    using history_neighbour [OF k assms(1) _ x, of newer older pretty False] split
      same_filters_link [OF c cursor_history [OF x]]
    by (simp add: event_link_def scan_admin_event_def)
qed (use n same_filters_start [OF f(1)] history_first [OF f] in auto)

end
