(* ===== verification/Admin_Ui.thy ===== *)
theory Admin_Ui
  imports Admin_Session Admin_Lists
begin

section \<open>The administration UI: app/admin.go\<close>

text \<open>
  The handlers, guarded by the session cookie, and their routing. What the code takes from other
  packages is the record \<open>ui_lib\<close>: HMAC-SHA-256, bcrypt, \<open>url.Parse\<close>, the embedded style sheets, and the
  templates, parsed with the functions they may call, as one function from the name and the data of a
  page to its text, or \<^const>\<open>None\<close> when the execution fails. The store is the interface \<open>adminStore\<close>.
\<close>

record admin_page_data =
  pd_title :: string
  pd_active :: string
  pd_error :: string
  pd_previous :: string
  pd_next :: string
  pd_filter :: admin_filter
  pd_applications :: "application list"
  pd_credentials :: "admin_credential list"
  pd_credential :: "admin_credential option"
  pd_history :: "admin_event list"
  pd_compact :: bool

text \<open>The functions the templates may call.\<close>

record template_funcs =
  tf_date :: "time \<Rightarrow> string"
  tf_optional_date :: "time option \<Rightarrow> string"
  tf_join :: "string list \<Rightarrow> string \<Rightarrow> string"
  tf_credential_url :: "string \<Rightarrow> string"
  tf_subject_history :: "string \<Rightarrow> string \<Rightarrow> string"
  tf_application_url :: "string \<Rightarrow> string"

record ui_lib =
  ui_mac :: hmac
  ui_bcrypt :: "bytes \<Rightarrow> bytes \<Rightarrow> bool"
  ui_url_parse :: "string \<Rightarrow> url option"
  ui_asset :: "string \<Rightarrow> bytes option"
  ui_templates :: "template_funcs \<Rightarrow> err + (string \<Rightarrow> admin_page_data \<Rightarrow> bytes option)"

record admin_ui =
  au_config :: config
  au_store :: admin_store
  au_lib :: ui_lib
  au_template :: "string \<Rightarrow> admin_page_data \<Rightarrow> bytes option"

definition no_filter :: admin_filter where
  "no_filter =
     \<lparr>fi_application = '''', fi_subject = '''', fi_credential = '''', fi_from = '''', fi_to = '''',
      fi_cursor = no_cursor\<rparr>"

definition page_titled :: "string \<Rightarrow> admin_page_data" where
  "page_titled title =
     \<lparr>pd_title = title, pd_active = '''', pd_error = '''', pd_previous = '''', pd_next = '''',
      pd_filter = no_filter, pd_applications = [], pd_credentials = [], pd_credential = None,
      pd_history = [], pd_compact = False\<rparr>"

subsection \<open>Responses\<close>

definition html_type :: "string \<times> string" where
  "html_type = (''Content-Type'', ''text/html; charset=utf-8'')"

definition ui_render ::
  "admin_ui \<Rightarrow> nat \<Rightarrow> string \<Rightarrow> admin_page_data \<Rightarrow> (string \<times> string) list \<Rightarrow> http_response"
where
  "ui_render a status name data headers =
     (case au_template a name data of
        None \<Rightarrow> plain_error 500 ''Unable to display this page'' headers
      | Some text \<Rightarrow> \<lparr>rs_status = status, rs_headers = headers @ [html_type], rs_body = text\<rparr>)"

text \<open>\<open>http.Redirect\<close> with 303 to a path without special characters.\<close>

definition redirect :: "http_request \<Rightarrow> string \<Rightarrow> (string \<times> string) list \<Rightarrow> http_response" where
  "redirect rq target headers =
     \<lparr>rs_status = 303,
      rs_headers = headers @ [(''Location'', target)]
        @ (if rq_method rq = ''GET'' \<or> rq_method rq = ''HEAD'' then [html_type] else []),
      rs_body =
        (if rq_method rq = ''GET''
         then ''<a href='' @ [quote] @ target @ [quote] @ ''>See Other</a>.'' @ [newline_byte, newline_byte]
         else [])\<rparr>"

definition admin_cookie_name :: string where
  "admin_cookie_name = ''shellty_admin''"

text \<open>\<open>http.Cookie.String\<close> of the cookies the UI sets.\<close>

definition cookie_header :: "string \<Rightarrow> time \<Rightarrow> string \<Rightarrow> string \<times> string" where
  "cookie_header val expires max_age =
     (''Set-Cookie'', admin_cookie_name @ ''='' @ val @ ''; Path=/admin; Expires='' @ http_date expires
        @ ''; Max-Age='' @ max_age @ ''; HttpOnly; Secure; SameSite=Lax'')"

subsection \<open>Signing in and out\<close>

text \<open>The clock counts as read once for a single cookie, also where the cookie fails before its time matters.\<close>

definition ui_authorized :: "env \<Rightarrow> admin_ui \<Rightarrow> http_request \<Rightarrow> world \<Rightarrow> bool \<times> world" where
  "ui_authorized E a rq w =
     (case rq_cookies rq of
        [value] \<Rightarrow>
          (valid_cookie (ui_mac (au_lib a)) (cfg_admin (au_config a)) (clock E (ticks w)) value,
           w\<lparr>ticks := Suc (ticks w)\<rparr>)
      | _ \<Rightarrow> (False, w))"

definition protect :: "env \<Rightarrow> admin_ui \<Rightarrow> (http_request \<Rightarrow> handler) \<Rightarrow> http_request \<Rightarrow> handler" where
  "protect E a next_handler rq w =
     (case ui_authorized E a rq w of (ok, w1) \<Rightarrow>
        if \<not> ok then (redirect rq ''/admin/login'' [], w1) else next_handler rq w1)"

definition login_form :: "env \<Rightarrow> admin_ui \<Rightarrow> http_request \<Rightarrow> handler" where
  "login_form E a rq w =
     (case ui_authorized E a rq w of (ok, w1) \<Rightarrow>
        if ok then (redirect rq ''/admin/configuration'' [], w1)
        else (ui_render a 200 ''login'' (page_titled ''Sign in'') [], w1))"

definition max_form_bytes :: nat where
  "max_form_bytes = 4096"

text \<open>
  \<open>r.ParseForm\<close> and the checks on its result: the form of the body, when it can be read whole, is
  well-formed (the query string of the URL too), and has exactly one user name and one password.
\<close>

definition login_values :: "http_request \<Rightarrow> (string \<times> string) option" where
  "login_values rq =
     (case rq_body rq of
        None \<Rightarrow> None
      | Some body \<Rightarrow>
          (case parse_query body of (q, bad) \<Rightarrow>
             if length body > max_form_bytes \<or> bad \<or> snd (parse_query (rq_query rq))
               \<or> length (remdups (map fst q)) \<noteq> 2 \<or> length (query_values q ''username'') \<noteq> 1
               \<or> length (query_values q ''password'') \<noteq> 1
             then None
             else Some (query_get q ''username'', query_get q ''password'')))"

definition login_error :: "string \<Rightarrow> admin_page_data" where
  "login_error text = (page_titled ''Sign in'')\<lparr>pd_error := text\<rparr>"

definition login :: "env \<Rightarrow> admin_ui \<Rightarrow> http_request \<Rightarrow> handler" where
  "login E a rq w =
     (if rq_media rq \<noteq> Some ''application/x-www-form-urlencoded''
      then (plain_error 400 ''Invalid login form'' [], w)
      else
        (case login_values rq of
           None \<Rightarrow> (plain_error 400 ''Invalid login form'' [], w)
         | Some (username, password) \<Rightarrow>
             (case allow_login E w of (ok, w1) \<Rightarrow>
                if \<not> ok then
                  (ui_render a 429 ''login''
                     (login_error ''Too many sign-in attempts. Please try again shortly.'')
                     [(''Retry-After'', ''12'')], w1)
                else if \<not> ui_bcrypt (au_lib a) (adm_password_hash (cfg_admin (au_config a))) password
                  \<or> length password > 72 \<or> username \<noteq> adm_username (cfg_admin (au_config a))
                then
                  (ui_render a 401 ''login'' (login_error ''Invalid username or password.'') [], w1)
                else
                  (let now = clock E (ticks w1);
                       value = cookie_value (ui_mac (au_lib a)) (cfg_admin (au_config a)) now in
                   (redirect rq ''/admin/configuration''
                      [cookie_header value (now + admin_cookie_age)
                         (format_int (admin_cookie_age div seconds 1))],
                    w1\<lparr>ticks := Suc (ticks w1)\<rparr>)))))"

definition logout :: "http_request \<Rightarrow> handler" where
  "logout rq w = (redirect rq ''/admin/login'' [cookie_header '''' (seconds 1) ''0''], w)"


subsection \<open>The pages\<close>

definition ui_static :: "admin_ui \<Rightarrow> string \<Rightarrow> handler" where
  "ui_static a name w =
     (if name \<noteq> ''pico-2.1.1.min.css'' \<and> name \<noteq> ''admin.css'' then not_found w
      else
        (case ui_asset (au_lib a) (''static/'' @ name) of
           None \<Rightarrow> not_found w
         | Some b \<Rightarrow>
             (\<lparr>rs_status = 200, rs_headers = [(''Content-Type'', ''text/css; charset=utf-8'')],
               rs_body = b\<rparr>, w)))"

definition ui_configuration :: "admin_ui \<Rightarrow> handler" where
  "ui_configuration a w =
     (ui_render a 200 ''configuration''
        ((page_titled ''Configuration'')
           \<lparr>pd_active := ''configuration'', pd_applications := cfg_applications (au_config a)\<rparr>) [], w)"

text \<open>The error is logged and its text is not shown.\<close>

definition ui_failure :: "admin_ui \<Rightarrow> http_response" where
  "ui_failure a =
     ui_render a 500 ''error''
       ((page_titled ''Unable to load data'')
          \<lparr>pd_error := ''Data is temporarily unavailable. Please try again.''\<rparr>) []"

definition bad_filters :: "admin_ui \<Rightarrow> http_response" where
  "bad_filters a =
     ui_render a 400 ''error''
       ((page_titled ''Invalid filters'')
          \<lparr>pd_error := ''Check the filters, date range and page link, then try again.''\<rparr>) []"

definition request_path :: "http_request \<Rightarrow> string" where
  "request_path rq = concat (map (\<lambda>s. CHR ''/'' # s) (rq_path rq))"

definition page_url :: "http_request \<Rightarrow> string \<Rightarrow> string" where
  "page_url rq cursor = request_path rq @ ''?'' @ page_query (rq_query rq) cursor"

definition credentials_page ::
  "admin_ui \<Rightarrow> http_request \<Rightarrow> admin_filter \<Rightarrow> admin_credential list \<Rightarrow> http_response"
where
  "credentials_page a rq f found =
     (case admin_page found (fi_cursor f) of (rows, prev, following) \<Rightarrow>
        ui_render a 200 ''credentials''
          ((page_titled ''Credentials'')
             \<lparr>pd_active := ''credentials'',
              pd_previous :=
                (if rows \<noteq> [] \<and> prev
                 then page_url rq (cursor_value (cred_id (hd rows)) zero_time True) else ''''),
              pd_next :=
                (if rows \<noteq> [] \<and> following
                 then page_url rq (cursor_value (cred_id (last rows)) zero_time False) else ''''),
              pd_filter := f, pd_applications := cfg_applications (au_config a),
              pd_credentials := rows\<rparr>) [])"

definition ui_credentials :: "admin_ui \<Rightarrow> http_request \<Rightarrow> handler" where
  "ui_credentials a rq w =
     (case query_filter (rq_query rq) False of
        None \<Rightarrow> (bad_filters a, w)
      | Some f \<Rightarrow>
          (case as_credentials (au_store a) f w of
             (Inl _, w1) \<Rightarrow> (ui_failure a, w1)
           | (Inr found, w1) \<Rightarrow> (credentials_page a rq f found, w1)))"

definition history_page ::
  "http_request \<Rightarrow> admin_page_data \<Rightarrow> admin_event list \<Rightarrow> admin_cursor \<Rightarrow> admin_page_data"
where
  "history_page rq data found c =
     (case admin_page found c of (rows, prev, following) \<Rightarrow>
        data
          \<lparr>pd_history := rows,
           pd_previous :=
             (if rows \<noteq> [] \<and> prev
              then page_url rq (cursor_value (ae_id (hd rows)) (ae_time (hd rows)) True)
              else pd_previous data),
           pd_next :=
             (if rows \<noteq> [] \<and> following
              then page_url rq (cursor_value (ae_id (last rows)) (ae_time (last rows)) False)
              else pd_next data)\<rparr>)"

definition ui_history :: "admin_ui \<Rightarrow> http_request \<Rightarrow> handler" where
  "ui_history a rq w =
     (case query_filter (rq_query rq) True of
        None \<Rightarrow> (bad_filters a, w)
      | Some f \<Rightarrow>
          (case as_history (au_store a) f w of
             (Inl _, w1) \<Rightarrow> (ui_failure a, w1)
           | (Inr found, w1) \<Rightarrow>
               (ui_render a 200 ''history''
                  (history_page rq
                     ((page_titled ''History'')
                        \<lparr>pd_active := ''history'', pd_filter := f,
                         pd_applications := cfg_applications (au_config a)\<rparr>) found (fi_cursor f)) [],
                w1)))"

definition credential_filter :: "string \<Rightarrow> string \<Rightarrow> admin_filter option" where
  "credential_filter i raw =
     (case parse_query raw of (q, bad) \<Rightarrow>
        if bad \<or> \<not> list_all (\<lambda>p. fst p = ''cursor'') q then None
        else map_option (\<lambda>f. f\<lparr>fi_credential := i\<rparr>) (parse_admin_filter q True))"

definition ui_credential :: "admin_ui \<Rightarrow> string \<Rightarrow> http_request \<Rightarrow> handler" where
  "ui_credential a i rq w =
     (if \<not> uuid_canonical i then not_found w
      else
        (case credential_filter i (rq_query rq) of
           None \<Rightarrow> (plain_error 400 ''Invalid page link'' [], w)
         | Some f \<Rightarrow>
             (case as_credential (au_store a) i w of
                (Inl _, w1) \<Rightarrow> (ui_failure a, w1)
              | (Inr None, w1) \<Rightarrow>
                  (ui_render a 404 ''error''
                     ((page_titled ''Credential not found'')
                        \<lparr>pd_error := ''This credential does not exist or has been deleted. ''
                            @ ''Its recorded events remain in History.''\<rparr>) [], w1)
              | (Inr (Some c), w1) \<Rightarrow>
                  (case as_history (au_store a) f w1 of
                     (Inl _, w2) \<Rightarrow> (ui_failure a, w2)
                   | (Inr found, w2) \<Rightarrow>
                       (ui_render a 200 ''credential''
                          (history_page rq
                             ((page_titled ''Credential'')
                                \<lparr>pd_active := ''credentials'', pd_credential := Some c,
                                 pd_compact := True\<rparr>) found (fi_cursor f)) [], w2)))))"

subsection \<open>Routing\<close>

text \<open>Letters are compared without case; the sign K and the long s fold to the letters k and s.\<close>

fun fold_case :: "string \<Rightarrow> string" where
  "fold_case [] = []"
| "fold_case (c # r) =
     (let n = byte_nat c in
      if 65 \<le> n \<and> n \<le> 90 then nat_byte (n + 32) # fold_case r
      else
        (case r of
           d # e # r2 \<Rightarrow>
             if n = 226 \<and> byte_nat d = 132 \<and> byte_nat e = 170 then CHR ''k'' # fold_case r2
             else if n = 197 \<and> byte_nat d = 191 then CHR ''s'' # fold_case (e # r2)
             else c # fold_case r
         | [d] \<Rightarrow> if n = 197 \<and> byte_nat d = 191 then ''s'' else c # fold_case r
         | [] \<Rightarrow> [c]))"

definition admin_same_origin :: "ui_lib \<Rightarrow> http_request \<Rightarrow> bool" where
  "admin_same_origin lib rq =
     (if \<not> rq_tls rq then False
      else
        (case rq_origins rq of
           [text] \<Rightarrow>
             (case ui_url_parse lib text of
                None \<Rightarrow> False
              | Some origin \<Rightarrow>
                  url_scheme origin = ''https'' \<and> fold_case (url_host origin) = fold_case (rq_host rq)
                  \<and> \<not> url_has_user origin \<and> url_path origin = '''' \<and> url_raw_query origin = ''''
                  \<and> \<not> url_force_query origin \<and> url_fragment origin = '''')
         | _ \<Rightarrow> False))"

definition admin_mux :: "env \<Rightarrow> admin_ui \<Rightarrow> http_request \<Rightarrow> handler" where
  "admin_mux E a rq =
     (let p = rq_path rq in
      if p = [''admin'', ''''] then with_method ''GET'' (Pair (redirect rq ''/admin/configuration'' [])) rq
      else if p = [''admin'', ''login''] then
        (if rq_method rq = ''GET'' \<or> rq_method rq = ''HEAD'' then login_form E a rq
         else if rq_method rq = ''POST'' then login E a rq
         else Pair (plain_error 405 ''Method Not Allowed'' [(''Allow'', ''GET, HEAD, POST'')]))
      else if p = [''admin'', ''logout''] then with_method ''POST'' (logout rq) rq
      else if p = [''admin'', ''configuration'']
      then with_method ''GET'' (protect E a (\<lambda>_. ui_configuration a) rq) rq
      else if p = [''admin'', ''credentials'']
      then with_method ''GET'' (protect E a (ui_credentials a) rq) rq
      else if p = [''admin'', ''history''] then with_method ''GET'' (protect E a (ui_history a) rq) rq
      else
        (case p of
           [d, s, i] \<Rightarrow>
             if d = ''admin'' \<and> s = ''credentials'' \<and> i \<noteq> ''''
             then with_method ''GET'' (protect E a (ui_credential a i) rq) rq
             else if d = ''admin'' \<and> s = ''static'' \<and> i \<noteq> ''''
             then with_method ''GET'' (ui_static a i) rq
             else not_found
         | _ \<Rightarrow> not_found))"

definition admin_headers :: "(string \<times> string) list" where
  "admin_headers =
     (let none = [nat_byte 39] @ ''none'' @ [nat_byte 39]; self = [nat_byte 39] @ ''self'' @ [nat_byte 39] in
      [(''Cache-Control'', ''no-store''), (''X-Content-Type-Options'', ''nosniff''),
       (''Content-Security-Policy'',
        ''default-src '' @ none @ ''; style-src '' @ self @ ''; img-src '' @ self
        @ '' data:; form-action '' @ self @ ''; frame-ancestors '' @ none @ ''; base-uri '' @ none),
       (''Referrer-Policy'', ''same-origin'')])"

definition admin_handler :: "env \<Rightarrow> admin_ui \<Rightarrow> http_request \<Rightarrow> handler" where
  "admin_handler E a rq w =
     (case
        (if rq_method rq = ''POST'' \<and> \<not> admin_same_origin (au_lib a) rq
         then (plain_error 403 ''Invalid request origin'' [], w)
         else admin_mux E a rq w)
      of (r, w1) \<Rightarrow> (r\<lparr>rs_headers := admin_headers @ rs_headers r\<rparr>, w1))"

definition template_date :: "time \<Rightarrow> string" where
  "template_date t =
     format_date (date_of_days (t div day_ns)) @ '' '' @ format_clock (t mod day_ns div second_ns) @ '' UTC''"

definition admin_funcs :: template_funcs where
  "admin_funcs =
     \<lparr>tf_date = template_date,
      tf_optional_date = (\<lambda>t. case t of None \<Rightarrow> ''Never'' | Some t \<Rightarrow> template_date t),
      tf_join = (\<lambda>ss sep. join_with sep ss),
      tf_credential_url = (\<lambda>i. ''/admin/credentials/'' @ i),
      tf_subject_history = (\<lambda>application subject.
        ''/admin/history?'' @ values_encode [(''application'', application), (''subject'', subject)]),
      tf_application_url = (\<lambda>code. ''/admin/credentials?'' @ values_encode [(''application'', code)])\<rparr>"

text \<open>\<open>newAdmin\<close>: no handler when the UI is not enabled; the limiter starts full.\<close>

definition new_admin ::
  "env \<Rightarrow> config \<Rightarrow> admin_store \<Rightarrow> ui_lib \<Rightarrow> (http_request \<Rightarrow> handler) option eff"
where
  "new_admin E cfg st lib w =
     (if \<not> adm_enabled (cfg_admin cfg) then (Inr None, w)
      else
        (case ui_templates lib admin_funcs of
           Inl e \<Rightarrow> (Inl (Wrapped ''parse admin templates'' e), w)
         | Inr template \<Rightarrow>
             (Inr (Some (admin_handler E
                \<lparr>au_config = cfg, au_store = st, au_lib = lib, au_template = template\<rparr>)),
              w\<lparr>ticks := Suc (ticks w), limiter := new_limiter (clock E (ticks w))\<rparr>)))"

end
