(* ===== verification/Admin_Access.thy ===== *)
theory Admin_Access
  imports Admin_Ui
begin

section \<open>Who gets into the administration UI, and what it does\<close>

text \<open>
  Over any store that only reads (the locale \<open>admin_store_contract\<close>, interpreted on the server's
  own) the UI never changes the database. A request without a valid session makes no database call,
  and a session cookie is only handed out for the configured user name and password.
\<close>

locale admin_store_contract =
  fixes st :: admin_store
  assumes credentials_frame: "keeps_store (as_credentials st f)"
  and credential_frame: "keeps_store (as_credential st i)"
  and history_frame: "keeps_store (as_history st f)"
begin

lemma keeps_credentials: "au_store a = st \<Longrightarrow> handler_keeps (ui_credentials a rq)"
  using credentials_frame unfolding handler_keeps_def keeps_store_def ui_credentials_def
  by (auto split: option.splits prod.splits sum.splits) (metis snd_conv)+

lemma keeps_history: "au_store a = st \<Longrightarrow> handler_keeps (ui_history a rq)"
  using history_frame unfolding handler_keeps_def keeps_store_def ui_history_def
  by (auto split: option.splits prod.splits sum.splits) (metis snd_conv)+

lemma keeps_credential: "au_store a = st \<Longrightarrow> handler_keeps (ui_credential a i rq)"
  using history_frame credential_frame unfolding handler_keeps_def keeps_store_def ui_credential_def
  by (auto simp: not_found_def split: option.splits prod.splits sum.splits) (metis snd_conv)+

end

interpretation admin_postgres_store: admin_store_contract "admin_postgres E pretty" for E pretty
  by unfold_locales (simp_all add: frame)

lemma ui_authorized_keeps:
  "store (snd (ui_authorized E a rq w)) = store w" "calls (snd (ui_authorized E a rq w)) = calls w"
  by (simp_all add: ui_authorized_def split: list.splits)

lemma ui_authorized_store:
  "ui_authorized E a rq (w\<lparr>store := d\<rparr>)
    = (fst (ui_authorized E a rq w), (snd (ui_authorized E a rq w))\<lparr>store := d\<rparr>)"
  by (simp add: ui_authorized_def split: list.splits)

lemma keeps_protect: "handler_keeps (h rq) \<Longrightarrow> handler_keeps (protect E a h rq)"
  by (simp add: handler_keeps_def protect_def case_prod_unfold ui_authorized_keeps)

lemma keeps_session:
  "handler_keeps (login_form E a rq)" "handler_keeps (login E a rq)" "handler_keeps (logout rq)"
  "handler_keeps (ui_static a name)" "handler_keeps (ui_configuration a)"
  by (simp_all add: handler_keeps_def login_form_def login_def logout_def ui_static_def not_found_def
      ui_configuration_def allow_login_def Let_def case_prod_unfold ui_authorized_keeps
      split: option.splits)

lemma admin_response:
  "snd (admin_handler E a rq w) =
    (if rq_method rq = ''POST'' \<and> \<not> admin_same_origin (au_lib a) rq then w else snd (admin_mux E a rq w))"
  "fst (admin_handler E a rq w) =
    (let r = (if rq_method rq = ''POST'' \<and> \<not> admin_same_origin (au_lib a) rq
        then plain_error 403 ''Invalid request origin'' [] else fst (admin_mux E a rq w)) in
     r\<lparr>rs_headers := admin_headers @ rs_headers r\<rparr>)"
  by (simp_all add: admin_handler_def case_prod_unfold Let_def)

context admin_store_contract
begin

lemma keeps_mux:
  assumes "au_store a = st"
  shows "handler_keeps (admin_mux E a rq)"
  using keeps_credentials [OF assms] keeps_history [OF assms] keeps_credential [OF assms]
    keeps_session handler_keeps_basic(1,3)
  by (simp add: admin_mux_def Let_def keeps_protect handler_keeps_method split: list.splits)

lemma keeps_admin: "au_store a = st \<Longrightarrow> handler_keeps (admin_handler E a rq)"
  using keeps_mux by (simp add: handler_keeps_def admin_response)

end

subsection \<open>Requests without a session\<close>

definition signed_in :: "env \<Rightarrow> admin_ui \<Rightarrow> http_request \<Rightarrow> world \<Rightarrow> bool" where
  "signed_in E a rq w \<longleftrightarrow> fst (ui_authorized E a rq w)"

text \<open>No database call, and a response that does not depend on the database.\<close>

definition blind :: "handler \<Rightarrow> world \<Rightarrow> bool" where
  "blind h w \<longleftrightarrow> calls (snd (h w)) = calls w \<and> (\<forall>d. fst (h (w\<lparr>store := d\<rparr>)) = fst (h w))"

lemma blind_protect: "\<not> signed_in E a rq w \<Longrightarrow> blind (protect E a h rq) w"
  by (simp add: blind_def protect_def signed_in_def case_prod_unfold ui_authorized_keeps
      ui_authorized_store)

lemma blind_session:
  "blind (login_form E a rq) w" "blind (login E a rq) w" "blind (logout rq) w"
  "blind (ui_static a name) w" "blind not_found w" "blind (Pair r) w"
  by (simp_all add: blind_def login_form_def login_def logout_def ui_static_def not_found_def
      allow_login_def Let_def case_prod_unfold ui_authorized_keeps ui_authorized_store
      split: option.splits)

lemma blind_method: "blind h w \<Longrightarrow> blind (with_method m h rq) w"
  by (simp add: blind_def with_method_def)

lemma blind_mux:
  assumes "\<not> signed_in E a rq w"
  shows "blind (admin_mux E a rq) w"
  using blind_protect [OF assms] blind_session
  by (simp add: admin_mux_def Let_def blind_method split: list.splits)

lemma blind_admin: "\<not> signed_in E a rq w \<Longrightarrow> blind (admin_handler E a rq) w"
  using blind_mux by (simp add: blind_def admin_response)

subsection \<open>Who is handed a session\<close>

text \<open>The response hands the browser the cookie value \<open>v\<close>; an attribute starts at a semicolon.\<close>

definition sets_session :: "http_response \<Rightarrow> string \<Rightarrow> bool" where
  "sets_session r v \<longleftrightarrow>
     CHR '';'' \<notin> set v
     \<and> (\<exists>rest. (''Set-Cookie'', admin_cookie_name @ ''='' @ v @ '';'' @ rest) \<in> set (rs_headers r))"

definition sets_no_cookie :: "http_response \<Rightarrow> bool" where
  "sets_no_cookie r \<longleftrightarrow> ''Set-Cookie'' \<notin> fst ` set (rs_headers r)"

lemma sets_no_cookieD: "sets_no_cookie r \<Longrightarrow> \<not> sets_session r v"
  by (force simp: sets_no_cookie_def sets_session_def)

lemma no_cookie_responses:
  "''Set-Cookie'' \<notin> fst ` set hs \<Longrightarrow> sets_no_cookie (ui_render a status name data hs)"
  "''Set-Cookie'' \<notin> fst ` set hs \<Longrightarrow> sets_no_cookie (plain_error status msg hs)"
  "''Set-Cookie'' \<notin> fst ` set hs \<Longrightarrow> sets_no_cookie (redirect rq target hs)"
  by (auto simp: sets_no_cookie_def ui_render_def plain_error_def redirect_def html_type_def
      split: option.splits)

lemma no_cookie_pages:
  "sets_no_cookie (fst (not_found w))" "sets_no_cookie (fst (ui_configuration a w))"
  "sets_no_cookie (fst (ui_static a name w))" "sets_no_cookie (fst (ui_credentials a rq w))"
  "sets_no_cookie (fst (ui_history a rq w))" "sets_no_cookie (fst (ui_credential a i rq w))"
  "sets_no_cookie (fst (login_form E a rq w))"
  by (simp_all add: not_found_def ui_configuration_def ui_static_def ui_credentials_def
      ui_history_def ui_credential_def login_form_def credentials_page_def ui_failure_def
      bad_filters_def no_cookie_responses case_prod_unfold split: option.splits sum.splits)
    (simp add: sets_no_cookie_def)

lemma no_cookie_protect:
  "(\<And>w. sets_no_cookie (fst (h rq w))) \<Longrightarrow> sets_no_cookie (fst (protect E a h rq w))"
  by (simp add: protect_def case_prod_unfold no_cookie_responses)

lemma no_cookie_method:
  "sets_no_cookie (fst (h w)) \<Longrightarrow> sets_no_cookie (fst (with_method m h rq w))"
  by (simp add: with_method_def no_cookie_responses)

lemma sets_session_outer:
  "sets_session (r\<lparr>rs_headers := admin_headers @ rs_headers r\<rparr>) v \<longleftrightarrow> sets_session r v"
  by (auto simp: sets_session_def admin_headers_def Let_def)

lemma sets_session_redirect:
  "CHR '';'' \<notin> set v \<Longrightarrow> sets_session (redirect rq target [cookie_header v t age]) v"
  by (fastforce simp: sets_session_def redirect_def cookie_header_def)

lemma session_unique:
  assumes "sets_session (redirect rq target [cookie_header v t age]) v'" and "CHR '';'' \<notin> set v"
  shows "v' = v"
proof -
  have cut: "takeWhile (\<lambda>c. c \<noteq> CHR '';'') (v @ CHR '';'' # r) = v" if "CHR '';'' \<notin> set v" for v r
    using that by (induction v) auto
  from assms(1) obtain rest rest' where "CHR '';'' \<notin> set v'" "v' @ CHR '';'' # rest = v @ CHR '';'' # rest'"
    by (auto simp: sets_session_def redirect_def cookie_header_def html_type_def split: if_splits)
  then show ?thesis using cut assms(2) by metis
qed

lemma logout_session: "sets_session (fst (logout rq w)) v \<Longrightarrow> v = ''''"
  unfolding logout_def fst_conv by (erule session_unique) simp

lemma cookie_value_plain: "CHR '';'' \<notin> set (cookie_value mac cfg now)"
proof -
  have "\<not> is_digit CHR '';''" by code_simp
  then have "CHR '';'' \<notin> set (format_int i)" for i
    using decimal_digits [of "nat i"] decimal_digits [of "nat (- i)"]
    by (auto simp: format_int_def list_all_iff)
  moreover have "CHR '';'' \<notin> set (hex_encode b)" for b
    using hex_encode_bytes [of b] by (auto simp: hex_digits_def)
  ultimately show ?thesis by (simp add: cookie_value_def Let_def)
qed

lemma login_session:
  assumes "sets_session (fst (login E a rq w)) v"
  obtains username password where "login_values rq = Some (username, password)"
    "fst (allow_login E w)" "length password \<le> 72"
    "ui_bcrypt (au_lib a) (adm_password_hash (cfg_admin (au_config a))) password"
    "username = adm_username (cfg_admin (au_config a))"
    "v = cookie_value (ui_mac (au_lib a)) (cfg_admin (au_config a))
      (clock E (ticks (snd (allow_login E w))))"
proof -
  from assms show ?thesis
    using that sets_no_cookieD [OF no_cookie_responses(1)] sets_no_cookieD [OF no_cookie_responses(2)]
      session_unique [OF _ cookie_value_plain]
    by (auto simp: login_def Let_def case_prod_unfold split: if_splits option.splits)
qed

lemma admin_session:
  assumes "sets_session (fst (admin_handler E a rq w)) v" and "v \<noteq> ''''"
  shows "rq_method rq = ''POST'' \<and> rq_path rq = [''admin'', ''login''] \<and> admin_same_origin (au_lib a) rq
    \<and> sets_session (fst (login E a rq w)) v"
proof -
  from assms have origin: "rq_method rq = ''POST'' \<longrightarrow> admin_same_origin (au_lib a) rq"
    and mux: "sets_session (fst (admin_mux E a rq w)) v"
    using sets_no_cookieD [OF no_cookie_responses(2)]
    by (auto simp: admin_response sets_session_outer Let_def split: if_splits)
  have other: "\<not> sets_session (fst (with_method m h rq w)) v" if "sets_no_cookie (fst (h w))" for m h
    using that by (intro sets_no_cookieD no_cookie_method)
  have out: "\<not> sets_session (fst (with_method ''POST'' (logout rq) rq w)) v"
    using logout_session [of rq w v] assms(2) sets_no_cookieD [OF no_cookie_responses(2)]
    by (auto simp: with_method_def)
  show ?thesis
    using mux origin other out no_cookie_pages no_cookie_protect no_cookie_responses(3) [of "[]"]
      sets_no_cookieD [OF no_cookie_responses(2)] sets_no_cookieD [OF no_cookie_pages(1)]
      sets_no_cookieD [OF no_cookie_pages(7)]
    by (simp add: admin_mux_def Let_def split: if_splits list.splits)
qed

end
