(* ===== verification/Migrations.thy ===== *)
theory Migrations
  imports Contracts Go_Numbers "HOL-Library.Option_ord"
begin

section \<open>Migrations and readiness: app/database.go\<close>

text \<open>
  \<open>Migrate\<close> and \<open>CheckSchema\<close>. The embedded directory is the list of its entries, each with its name
  and its content or the error of reading it; executing a script on the database is PostgreSQL's, the
  argument \<open>A\<close>. The migration statements run in one session, so the advisory lock is a session's lock
  (the field \<open>sessions\<close> of the world) and not a transaction's.
\<close>

type_synonym script = "bytes \<Rightarrow> db \<Rightarrow> err + db"
type_synonym entry = "string \<times> (err + bytes)"

definition schema_version :: int where
  "schema_version = 2"

definition migration_lock :: int where
  "migration_lock = 739245761834"

subsection \<open>The statements\<close>

text \<open>A statement outside a transaction commits by itself: a lost reply does not undo it.\<close>

definition exec_auto :: "env \<Rightarrow> (db \<Rightarrow> err + 'a \<times> db) \<Rightarrow> 'a eff" where
  "exec_auto E stmt w =
     (let w1 = w\<lparr>calls := Suc (calls w)\<rparr>;
          done_anyway = (case stmt (store w) of Inl _ \<Rightarrow> w1 | Inr (_, d) \<Rightarrow> w1\<lparr>store := d\<rparr>) in
      case fault E (calls w) of
        None \<Rightarrow>
          (case stmt (store w) of Inl e \<Rightarrow> (Inl e, w1) | Inr (x, _) \<Rightarrow> (Inr x, done_anyway))
      | Some (Failed t) \<Rightarrow> (Inl (Plain t), w1)
      | Some (Lost t) \<Rightarrow> (Inl (Plain t), done_anyway))"

definition create_migration :: "db \<Rightarrow> err + unit \<times> db" where
  "create_migration d =
     Inr ((), case db_migration d of None \<Rightarrow> d\<lparr>db_migration := Some []\<rparr> | Some _ \<Rightarrow> d)"

definition no_table :: err where
  "no_table = Plain ''relation migration does not exist''"

definition select_checksum :: "int \<Rightarrow> db \<Rightarrow> err + string option \<times> db" where
  "select_checksum v d =
     (case db_migration d of None \<Rightarrow> Inl no_table | Some rows \<Rightarrow> Inr (map_of rows v, d))"

text \<open>\<open>COALESCE(max(version),0)\<close>\<close>

fun max_version :: "(int \<times> string) list \<Rightarrow> int" where
  "max_version [] = 0"
| "max_version (r # rs) = fold max (map fst rs) (fst r)"

definition select_latest :: "db \<Rightarrow> err + int \<times> db" where
  "select_latest d =
     (case db_migration d of None \<Rightarrow> Inl no_table | Some rows \<Rightarrow> Inr (max_version rows, d))"

definition insert_migration :: "int \<Rightarrow> string \<Rightarrow> db \<Rightarrow> err + unit \<times> db" where
  "insert_migration v checksum d =
     (case db_migration d of
        None \<Rightarrow> Inl no_table
      | Some rows \<Rightarrow>
          if v \<in> fst ` set rows then Inl (violation ''migration_pkey'')
          else Inr ((), d\<lparr>db_migration := Some (rows @ [(v, checksum)])\<rparr>))"

definition select_versions :: "db \<Rightarrow> err + (nat \<times> int) \<times> db" where
  "select_versions d =
     (case db_migration d of
        None \<Rightarrow> Inl no_table | Some rows \<Rightarrow> Inr ((length rows, max_version rows), d))"

definition run_script :: "script \<Rightarrow> bytes \<Rightarrow> db \<Rightarrow> err + unit \<times> db" where
  "run_script A sql d = (case A sql d of Inl e \<Rightarrow> Inl e | Inr d' \<Rightarrow> Inr ((), d'))"

subsection \<open>CheckSchema\<close>

definition check_schema :: "env \<Rightarrow> unit eff" where
  "check_schema E =
     and_then (exec E select_versions) (\<lambda>(count, latest).
       if int count \<noteq> schema_version \<or> latest \<noteq> schema_version
       then fail (Plain ''unsupported database schema'') else ret ())"

subsection \<open>Migrate\<close>

text \<open>
  \<open>pg_advisory_lock\<close> and the deferred \<open>pg_advisory_unlock\<close> around \<open>body\<close>. When unlocking fails the
  connection is closed, which ends the session and with it its locks.
\<close>

definition session_lock :: "env \<Rightarrow> int \<Rightarrow> unit eff" where
  "session_lock E key w =
     (case exec E no_op w of
        (Inl e, w1) \<Rightarrow> (Inl e, w1)
      | (Inr _, w1) \<Rightarrow> (Inr (), w1\<lparr>sessions := key # sessions w1\<rparr>))"

definition session_unlock :: "env \<Rightarrow> int \<Rightarrow> world \<Rightarrow> world" where
  "session_unlock E key w =
     (case exec E no_op w of
        (Inr _, w1) \<Rightarrow> w1\<lparr>sessions := remove1 key (sessions w1)\<rparr>
      | (Inl _, w1) \<Rightarrow> w1\<lparr>calls := Suc (calls w1), sessions := remove1 key (sessions w1)\<rparr>)"

definition with_lock :: "env \<Rightarrow> int \<Rightarrow> 'a eff \<Rightarrow> 'a eff" where
  "with_lock E key body =
     and_then (session_lock E key) (\<lambda>_ w. case body w of (r, w1) \<Rightarrow> (r, session_unlock E key w1))"

definition checksum_of :: "env \<Rightarrow> bytes \<Rightarrow> string" where
  "checksum_of E sql = hex_encode (sha256 E sql)"

definition apply_migration :: "env \<Rightarrow> script \<Rightarrow> int \<Rightarrow> bytes \<Rightarrow> unit eff" where
  "apply_migration E A v sql =
     transaction E
       (wrapping (''migration '' @ format_int v)
         (and_then (exec E (run_script A sql)) (\<lambda>_. exec E (insert_migration v (checksum_of E sql)))))"

definition migrate_entry :: "env \<Rightarrow> script \<Rightarrow> int \<Rightarrow> entry \<Rightarrow> unit eff" where
  "migrate_entry E A v entry =
     (if \<not> has_prefix (fst entry) (pad 3 (nat v) @ ''_'') then fail (Plain ''invalid migration sequence'')
      else
        (case snd entry of
           Inl e \<Rightarrow> fail e
         | Inr sql \<Rightarrow>
             and_then (exec E (select_checksum v)) (\<lambda>stored.
               case stored of
                 Some s \<Rightarrow>
                   if checksum_of E sql \<noteq> s
                   then fail (Plain (''migration '' @ format_int v @ '' checksum mismatch'')) else ret ()
               | None \<Rightarrow>
                   and_then (exec E select_latest) (\<lambda>latest.
                     if latest \<noteq> v - 1 then fail (Plain ''unsupported or noncontiguous schema'')
                     else apply_migration E A v sql))))"

fun migrate_entries :: "env \<Rightarrow> script \<Rightarrow> nat \<Rightarrow> entry list \<Rightarrow> unit eff" where
  "migrate_entries E A i [] = ret ()"
| "migrate_entries E A i (entry # rest) =
     and_then (migrate_entry E A (int i + 1) entry) (\<lambda>_. migrate_entries E A (Suc i) rest)"

definition migrate :: "env \<Rightarrow> script \<Rightarrow> err + entry list \<Rightarrow> unit eff" where
  "migrate E A directory =
     and_then (exec E no_op) (\<lambda>_.
       with_lock E migration_lock
         (and_then (exec_auto E create_migration) (\<lambda>_.
          and_then (of_result directory) (\<lambda>entries.
          and_then (migrate_entries E A 0 entries) (\<lambda>_. check_schema E)))))"

subsection \<open>The session's lock and the readiness check\<close>

lemma keeps_check_schema [frame]: "keeps_store (check_schema E)"
  by (auto simp: check_schema_def case_prod_unfold select_versions_def split: option.splits
      intro!: frame)

lemma check_schema_Inr:
  "check_schema E w = (Inr u, w') \<Longrightarrow>
    \<exists>rows. db_migration (store w) = Some rows \<and> length rows = 2 \<and> max_version rows = 2"
  by (auto simp: check_schema_def success select_versions_def schema_version_def
      split: option.splits if_splits)

definition keeps_sessions :: "'a eff \<Rightarrow> bool" where
  "keeps_sessions m \<longleftrightarrow> (\<forall>w. sessions (snd (m w)) = sessions w)"

named_theorems session_frame \<open>operations that leave the session locks as they are\<close>

lemma keeps_sessions_basic [session_frame]:
  "keeps_sessions (ret x)" "keeps_sessions (fail e)" "keeps_sessions (of_result r)"
  "keeps_sessions (exec E stmt)" "keeps_sessions (exec_auto E auto)"
  by (auto simp: keeps_sessions_def ret_def fail_def of_result_def exec_def exec_auto_def Let_def
      split: option.splits sum.splits fault.splits)

lemma keeps_sessions_and_then [session_frame]:
  "keeps_sessions m \<Longrightarrow> (\<And>x. keeps_sessions (f x)) \<Longrightarrow> keeps_sessions (and_then m f)"
  by (auto simp: keeps_sessions_def and_then_def split: prod.splits sum.splits) (metis snd_conv)+

lemma keeps_sessions_wrapping [session_frame]: "keeps_sessions m \<Longrightarrow> keeps_sessions (wrapping t m)"
  by (auto simp: keeps_sessions_def wrapping_def split: prod.splits sum.splits) (metis snd_conv)+

lemma keeps_sessions_transaction [session_frame]:
  assumes "keeps_sessions body"
  shows "keeps_sessions (transaction E body)"
  unfolding keeps_sessions_def
proof
  fix w
  have "sessions (snd (body w1)) = sessions w1" for w1 using assms by (simp add: keeps_sessions_def)
  from this [of "w\<lparr>calls := Suc (calls w)\<rparr>"]
  show "sessions (snd (transaction E body w)) = sessions w"
    by (auto simp: transaction_def exec_def no_op_def Let_def
        split: option.splits sum.splits prod.splits fault.splits)
qed

lemma keeps_sessions_entry [session_frame]: "keeps_sessions (migrate_entry E A v entry)"
  by (auto simp: migrate_entry_def apply_migration_def intro!: session_frame
      split: sum.splits option.splits)

lemma keeps_sessions_entries [session_frame]: "keeps_sessions (migrate_entries E A i entries)"
  by (induction entries arbitrary: i) (auto intro!: session_frame)

lemma keeps_sessions_check [session_frame]: "keeps_sessions (check_schema E)"
  by (auto simp: check_schema_def case_prod_unfold intro!: session_frame)

lemma with_lock_sessions:
  assumes "keeps_sessions body"
  shows "keeps_sessions (with_lock E key body)"
  unfolding keeps_sessions_def
proof
  fix w
  have "sessions (snd (body w1)) = sessions w1" for w1 using assms by (simp add: keeps_sessions_def)
  from this [of "w\<lparr>calls := Suc (calls w), sessions := key # sessions w\<rparr>"]
  show "sessions (snd (with_lock E key body w)) = sessions w"
    by (auto simp: with_lock_def session_lock_def session_unlock_def and_then_def exec_def no_op_def
        Let_def split: option.splits sum.splits prod.splits)
qed

lemma migrate_sessions: "keeps_sessions (migrate E A directory)"
  unfolding migrate_def by (intro session_frame with_lock_sessions)

subsection \<open>The life of a database under a release\<close>

text \<open>
  The abstract state of a deployment is whether the table of migrations is there and how many of the
  release's scripts the database has had. \<open>lived\<close> relates it to databases: the only ways there are to
  create the table, to run the next script and record it, and to serve requests; so a database at
  \<open>Some n\<close> has had the first \<open>n\<close> scripts, in their order and once each.
\<close>

definition rows_of :: "(bytes \<Rightarrow> string) \<Rightarrow> bytes list \<Rightarrow> nat \<Rightarrow> (int \<times> string) list" where
  "rows_of chk sqls n = map (\<lambda>i. (int i + 1, chk (sqls ! i))) [0..<n]"

inductive lived :: "script \<Rightarrow> (bytes \<Rightarrow> string) \<Rightarrow> bytes list \<Rightarrow> nat option \<Rightarrow> db \<Rightarrow> bool"
  for A chk sqls where
  fresh: "db_migration d = None \<Longrightarrow> lived A chk sqls None d"
| created: "lived A chk sqls None d \<Longrightarrow> lived A chk sqls (Some 0) (d\<lparr>db_migration := Some []\<rparr>)"
| ran: "lived A chk sqls (Some n) d \<Longrightarrow> n < length sqls \<Longrightarrow> A (sqls ! n) d = Inr d' \<Longrightarrow>
    lived A chk sqls (Some (Suc n)) (d'\<lparr>db_migration := Some (rows_of chk sqls (Suc n))\<rparr>)"
| used: "lived A chk sqls p d \<Longrightarrow> db_step d d' \<Longrightarrow> lived A chk sqls p d'"

text \<open>A script does not change the table of migrations.\<close>

definition keeps_migration :: "script \<Rightarrow> bool" where
  "keeps_migration A \<longleftrightarrow> (\<forall>sql d d'. A sql d = Inr d' \<longrightarrow> db_migration d' = db_migration d)"

lemma rows_of_Suc: "rows_of chk sqls (Suc n) = rows_of chk sqls n @ [(int n + 1, chk (sqls ! n))]"
  by (simp add: rows_of_def)

lemma length_rows_of [simp]: "length (rows_of chk sqls n) = n"
  by (simp add: rows_of_def)

lemma versions_of: "fst ` set (rows_of chk sqls n) = {1..int n}"
  by (induction n) (auto simp: rows_of_Suc, simp add: rows_of_def)

lemma map_of_rows_of:
  "map_of (rows_of chk sqls n) (int i + 1) = (if i < n then Some (chk (sqls ! i)) else None)"
  by (induction n) (auto simp: rows_of_Suc map_add_def less_Suc_eq rows_of_def)

lemma max_version_snoc:
  "\<forall>r \<in> set rs. fst r \<le> v \<Longrightarrow> 0 \<le> v \<Longrightarrow> max_version (rs @ [(v, c)]) = v"
proof (cases rs)
  case (Cons r rest)
  assume "\<forall>r \<in> set rs. fst r \<le> v"
  moreover have "fold max xs a \<le> v" if "\<forall>x \<in> set xs. x \<le> v" "a \<le> v" for xs and a :: int
    using that by (induction xs arbitrary: a) auto
  ultimately show ?thesis using Cons by (simp add: max_absorb2 max_absorb1)
qed simp

lemma max_version_rows_of: "max_version (rows_of chk sqls n) = int n"
proof (cases n)
  case (Suc m)
  have "fst r \<le> int m + 1" if "r \<in> set (rows_of chk sqls m)" for r
  proof -
    from that have "fst r \<in> fst ` set (rows_of chk sqls m)" by simp
    then show ?thesis by (simp add: versions_of)
  qed
  then show ?thesis using Suc by (simp add: rows_of_Suc max_version_snoc)
qed (simp add: rows_of_def)

subsection \<open>Every run of Migrate moves the deployment forward or leaves it\<close>

lemma statement_migration:
  "insert_ceremony t c d = Inr ((), d') \<Longrightarrow> db_migration d' = db_migration d"
  "insert_history e d = Inr ((), d') \<Longrightarrow> db_migration d' = db_migration d"
  "insert_credential cr d = Inr (n, d') \<Longrightarrow> db_migration d' = db_migration d"
  "update_state t st i d = Inr ((), d') \<Longrightarrow> db_migration d' = db_migration d"
  "update_auth_credential cid i d = Inr ((), d') \<Longrightarrow> db_migration d' = db_migration d"
  "update_credential sc bs wa now i a s rpid d = Inr (n, d') \<Longrightarrow> db_migration d' = db_migration d"
  "delete_credential i a s d = Inr (n, d') \<Longrightarrow> db_migration d' = db_migration d"
  by (auto simp: insert_ceremony_def insert_history_def insert_credential_def update_state_def
      update_auth_credential_def update_credential_def delete_credential_def set_table_def Let_def
      split: if_splits)

lemma db_step_migration: "db_step d d' \<Longrightarrow> db_migration d' = db_migration d"
  by (auto elim!: db_step.cases started.cases finished.cases deleted.cases
      dest!: statement_migration)

lemma lived_rows:
  "lived A chk sqls p d \<Longrightarrow>
    (case p of None \<Rightarrow> db_migration d = None
     | Some n \<Rightarrow> db_migration d = Some (rows_of chk sqls n) \<and> n \<le> length sqls)"
  by (induction rule: lived.induct) (auto simp: rows_of_def db_step_migration split: option.splits)

lemma lived_Some: "lived A chk sqls (Some n) d \<Longrightarrow>
    db_migration d = Some (rows_of chk sqls n) \<and> n \<le> length sqls"
  using lived_rows by fastforce

lemma lived_Suc:
  assumes "keeps_migration A" and "lived A chk sqls (Some n) d" and "n < length sqls"
    and "run_script A (sqls ! n) d = Inr (u, d2)"
    and "insert_migration (int n + 1) (chk (sqls ! n)) d2 = Inr (u', d')"
  shows "lived A chk sqls (Some (Suc n)) d'"
proof -
  from assms(4) have d2: "A (sqls ! n) d = Inr d2" by (simp add: run_script_def split: sum.splits)
  with assms(1) lived_Some [OF assms(2)] have "db_migration d2 = Some (rows_of chk sqls n)"
    by (simp add: keeps_migration_def)
  with assms(5) have "d' = d2\<lparr>db_migration := Some (rows_of chk sqls (Suc n))\<rparr>"
    by (auto simp: insert_migration_def rows_of_Suc split: if_splits)
  with ran [OF assms(2,3) d2] show ?thesis by simp
qed

lemma apply_migration_lived:
  assumes "keeps_migration A" and "lived A (checksum_of E) sqls (Some n) (store w)"
    and "n < length sqls" and "apply_migration E A (int n + 1) (sqls ! n) w = (r, w')"
  shows "isl r \<and> store w' = store w \<or> lived A (checksum_of E) sqls (Some (Suc n)) (store w')"
  using assms(4) unfolding apply_migration_def
proof (cases rule: transaction_cases)
  case (committed x w2)
  then show ?thesis using lived_Suc [OF assms(1-3)] by (auto simp: success)
next
  case (reply_lost x w2 t)
  then show ?thesis using lived_Suc [OF assms(1-3)] by (auto simp: success)
qed auto

definition readable :: "(string \<times> bytes) list \<Rightarrow> entry list" where
  "readable files = map (\<lambda>(name, sql). (name, Inr sql)) files"

text \<open>A read either fails and leaves everything, or its result goes on.\<close>

lemma read_then:
  assumes "stmt (store w) = Inr (x, store w)" and "and_then (exec E stmt) f w = (r, w')"
  shows "isl r \<and> store w' = store w \<or> f x (w\<lparr>calls := Suc (calls w)\<rparr>) = (r, w')"
  using assms by (auto simp: and_then_def exec_def Let_def split: option.splits)

lemma migrate_entry_lived:
  assumes ign: "keeps_migration A" and at: "lived A (checksum_of E) sqls (Some n) (store w)"
    and i: "i \<le> n" "i < length sqls"
    and run: "migrate_entry E A (int i + 1) (name, Inr (sqls ! i)) w = (r, w')"
  shows "(isl r \<or> i < n) \<and> store w' = store w
    \<or> i = n \<and> lived A (checksum_of E) sqls (Some (Suc n)) (store w')"
proof (cases "has_prefix name (pad 3 (nat (int i + 1)) @ ''_'')")
  case False
  with run show ?thesis by (auto simp: migrate_entry_def fail_def)
next
  case True
  note rows = lived_Some [OF at]
  let ?w1 = "w\<lparr>calls := Suc (calls w)\<rparr>" and ?w2 = "w\<lparr>calls := Suc (Suc (calls w))\<rparr>"
  have "select_checksum (int i + 1) (store w)
      = Inr (if i < n then Some (checksum_of E (sqls ! i)) else None, store w)"
    using rows by (simp add: select_checksum_def map_of_rows_of)
  from read_then [where stmt = "select_checksum (int i + 1)" and w = w, OF this] True run consider "isl r" "store w' = store w"
    | "i < n" "(r, w') = ret () ?w1"
    | "i = n" "and_then (exec E select_latest) (\<lambda>latest.
        if latest \<noteq> int n then fail (Plain ''unsupported or noncontiguous schema'')
        else apply_migration E A (int n + 1) (sqls ! n)) ?w1 = (r, w')"
    using i(1) by (fastforce simp: migrate_entry_def split: if_splits)
  then show ?thesis
  proof cases
    case 3
    have "select_latest (store ?w1) = Inr (int n, store ?w1)"
      using rows by (simp add: select_latest_def max_version_rows_of)
    from read_then [where stmt = select_latest and w = ?w1, OF this 3(2)] consider "isl r" "store w' = store w"
      | "apply_migration E A (int n + 1) (sqls ! n) ?w2 = (r, w')" by auto
    then show ?thesis using apply_migration_lived [OF ign, of E sqls n ?w2] at i(2) 3(1) by cases auto
  qed (auto simp: ret_def)
qed

lemma migrate_entry_progress:
  assumes "keeps_migration A" and "lived A (checksum_of E) sqls (Some n) (store w)"
    and "i \<le> n" "i < length sqls" and "migrate_entry E A (int i + 1) (name, Inr (sqls ! i)) w = (r, w')"
  shows "\<exists>k \<ge> n. lived A (checksum_of E) sqls (Some k) (store w') \<and> (isl r \<or> Suc i \<le> k)
    \<and> (k = n \<longrightarrow> store w' = store w)"
  using migrate_entry_lived [OF assms]
proof
  assume "(isl r \<or> i < n) \<and> store w' = store w"
  with assms(2) show ?thesis by (intro exI [of _ n]) auto
next
  assume "i = n \<and> lived A (checksum_of E) sqls (Some (Suc n)) (store w')"
  then show ?thesis by (intro exI [of _ "Suc n"]) auto
qed

lemma readable_drop:
  assumes "f # rest = drop i files"
  shows "i < length files" and "files ! i = f" and "rest = drop (Suc i) files"
    and "readable (drop i files) = (fst f, Inr (map snd files ! i)) # readable (drop (Suc i) files)"
proof -
  from assms show i: "i < length files" by (metis drop_eq_Nil list.distinct(1) not_le)
  from Cons_nth_drop_Suc [OF this] assms show f: "files ! i = f" "rest = drop (Suc i) files"
    by (metis list.inject)+
  from i f(1) show "readable (drop i files)
      = (fst f, Inr (map snd files ! i)) # readable (drop (Suc i) files)"
    by (simp add: readable_def case_prod_unfold flip: Cons_nth_drop_Suc)
qed

lemma migrate_entries_lived:
  assumes "keeps_migration A" and "lived A (checksum_of E) (map snd files) (Some n) (store w)"
    and "i \<le> n" and "migrate_entries E A i (readable (drop i files)) w = (r, w')"
  shows "\<exists>m \<ge> n. lived A (checksum_of E) (map snd files) (Some m) (store w')
    \<and> (isl r \<or> m = length files) \<and> (m = n \<longrightarrow> store w' = store w)"
  using assms(2-)
proof (induction "drop i files" arbitrary: i n w)
  case Nil
  then have "n = length files" using lived_Some [OF Nil.prems(1)] by simp
  with Nil show ?case by (auto simp: readable_def ret_def)
next
  case (Cons f rest)
  note i = readable_drop [OF Cons.hyps(2)]
  obtain r1 w1 where run1: "migrate_entry E A (int i + 1) (fst f, Inr (map snd files ! i)) w = (r1, w1)"
    by fastforce
  from migrate_entry_progress [OF assms(1) Cons.prems(1,2) _ run1] i(1)
  obtain k where k: "n \<le> k" "lived A (checksum_of E) (map snd files) (Some k) (store w1)"
    "isl r1 \<or> Suc i \<le> k" "k = n \<longrightarrow> store w1 = store w" by auto
  show ?case
  proof (cases r1)
    case (Inl e)
    with Cons.prems(3) run1 i(4) k show ?thesis by (auto simp: and_then_def)
  next
    case (Inr u)
    with Cons.prems(3) run1 i(4) have "migrate_entries E A (Suc i) (readable (drop (Suc i) files)) w1 = (r, w')"
      by (simp add: and_then_def)
    from Cons.hyps(1) [OF i(3) k(2) _ this] k(3) Inr obtain m where "k \<le> m"
      "lived A (checksum_of E) (map snd files) (Some m) (store w')" "isl r \<or> m = length files"
      "m = k \<longrightarrow> store w' = store w1" by auto
    with k(1,4) show ?thesis by (intro exI [of _ m]) auto
  qed
qed

lemma session_unlock_store [simp]: "store (session_unlock E key w) = store w"
  by (simp add: session_unlock_def exec_def no_op_def Let_def split: option.splits)

lemma with_lock_run:
  assumes "with_lock E key body w = (r, w')"
  shows "isl r \<and> store w' = store w
    \<or> (\<exists>w1 w2. store w1 = store w \<and> body w1 = (r, w2) \<and> store w' = store w2)"
proof (cases "fault E (calls w)")
  case None
  let ?w1 = "w\<lparr>calls := Suc (calls w), sessions := key # sessions w\<rparr>"
  obtain r2 w2 where body: "body ?w1 = (r2, w2)" by fastforce
  with assms None have "r = r2" "w' = session_unlock E key w2"
    by (auto simp: with_lock_def session_lock_def and_then_def exec_def no_op_def Let_def)
  with body show ?thesis by (intro disjI2 exI [of _ ?w1] exI [of _ w2]) simp
qed (use assms in \<open>auto simp: with_lock_def session_lock_def and_then_def exec_def no_op_def Let_def\<close>)

lemma create_lived:
  assumes "lived A chk sqls p d" and "create_migration d = Inr (u, d')"
  shows "\<exists>m. p \<le> Some m \<and> lived A chk sqls (Some m) d' \<and> (p = Some m \<longrightarrow> d' = d)"
proof (cases p)
  case None
  with assms have "lived A chk sqls (Some 0) (d\<lparr>db_migration := Some []\<rparr>)"
    by (auto intro: created)
  moreover from None assms have "d' = d\<lparr>db_migration := Some []\<rparr>"
    using lived_rows by (fastforce simp: create_migration_def)
  ultimately show ?thesis using None by auto
next
  case (Some m)
  with assms have "d' = d" by (auto simp: create_migration_def dest: lived_Some)
  with Some assms(1) show ?thesis by auto
qed

lemma create_auto:
  assumes "lived A chk sqls n (store w)" and "exec_auto E create_migration w = (r, w')"
  shows "\<exists>m \<ge> n. lived A chk sqls m (store w') \<and> (isl r \<or> m \<noteq> None)
    \<and> (m = n \<longrightarrow> store w' = store w)"
proof -
  have "store w' = store w \<and> isl r \<or> create_migration (store w) = Inr ((), store w')"
    using assms(2) by (auto simp: exec_auto_def Let_def create_migration_def
        split: option.splits fault.splits sum.splits)
  then show ?thesis
  proof
    assume "create_migration (store w) = Inr ((), store w')"
    from create_lived [OF assms(1) this] obtain m where "n \<le> Some m" "lived A chk sqls (Some m) (store w')"
      "n = Some m \<longrightarrow> store w' = store w" by blast
    then show ?thesis by (intro exI [of _ "Some m"]) auto
  qed (use assms(1) in auto)
qed

text \<open>
  A run of \<open>Migrate\<close>, by whichever node and under whichever failures, takes the database from one of
  these states to the same or a later one; it reports success only at the release's schema version.
\<close>

lemma migrate_lived:
  assumes ign: "keeps_migration A" and at: "lived A (checksum_of E) (map snd files) n (store w)"
    and run: "migrate E A (Inr (readable files)) w = (r, w')"
  shows "\<exists>m \<ge> n. lived A (checksum_of E) (map snd files) m (store w')
    \<and> (isl r \<or> m = Some (length files) \<and> length files = 2) \<and> (m = n \<longrightarrow> store w' = store w)"
proof -
  let ?dep = "lived A (checksum_of E) (map snd files)"
  let ?rest = "and_then (of_result (Inr (readable files))) (\<lambda>entries.
    and_then (migrate_entries E A 0 entries) (\<lambda>_. check_schema E))"
  have kept: "?thesis" if "isl r" "store w' = store w" using at that by auto
  from run consider "isl r" "store w' = store w"
    | w1 w2 where "store w1 = store w" "store w' = store w2"
      "and_then (exec_auto E create_migration) (\<lambda>_. ?rest) w1 = (r, w2)"
    unfolding migrate_def
    by (auto simp: and_then_def exec_def no_op_def Let_def split: option.splits dest!: with_lock_run)
  then show ?thesis
  proof cases
    case 2
    obtain r1 w3 where created: "exec_auto E create_migration w1 = (r1, w3)" by fastforce
    from create_auto [OF _ this] at 2(1)
    obtain m where m: "n \<le> m" "?dep m (store w3)" "isl r1 \<or> m \<noteq> None"
      "m = n \<longrightarrow> store w3 = store w" by metis
    show ?thesis
    proof (cases r1)
      case (Inl e)
      with 2(2,3) created m show ?thesis by (auto simp: and_then_def)
    next
      case (Inr u)
      with m obtain k where k: "m = Some k" "lived A (checksum_of E) (map snd files) (Some k) (store w3)"
        by auto
      obtain r2 w4 where entries: "migrate_entries E A 0 (readable (drop 0 files)) w3 = (r2, w4)" by fastforce
      from migrate_entries_lived [OF ign k(2) _ this]
      obtain j where j: "k \<le> j" "lived A (checksum_of E) (map snd files) (Some j) (store w4)"
        "isl r2 \<or> j = length files" "j = k \<longrightarrow> store w4 = store w3" by auto
      have "store w2 = store w4 \<and> (isl r \<or> j = length files \<and> length files = 2)"
      proof (cases r2)
        case (Inl e)
        with 2(3) created entries Inr show ?thesis by (auto simp: and_then_def of_result_def)
      next
        case (Inr v)
        with 2(3) created entries \<open>r1 = _\<close> have check: "check_schema E w4 = (r, w2)"
          by (simp add: and_then_def of_result_def)
        then have "store w2 = store w4" by (rule keeps_storeD [OF keeps_check_schema])
        moreover have "isl r \<or> j = 2"
          using check check_schema_Inr [of E w4] lived_Some [OF j(2)] \<open>store w2 = store w4\<close>
          by (cases r) auto
        ultimately show ?thesis using j(3) Inr by auto
      qed
      moreover have "n \<le> Some j" "Some j = n \<longrightarrow> store w4 = store w"
        using m(1,4) k(1) j(1,4) by (cases n; auto)+
      ultimately show ?thesis using j(2) 2(2) by (intro exI [of _ "Some j"]) auto
    qed
  qed (rule kept)
qed

subsection \<open>Without failures Migrate completes\<close>

definition named :: "nat \<Rightarrow> string \<Rightarrow> bool" where
  "named i name \<longleftrightarrow> has_prefix name (pad 3 (nat (int i + 1)) @ ''_'')"

text \<open>Every script can be run on the databases it is for.\<close>

definition runnable :: "script \<Rightarrow> (bytes \<Rightarrow> string) \<Rightarrow> bytes list \<Rightarrow> bool" where
  "runnable A chk sqls \<longleftrightarrow>
     (\<forall>n d. lived A chk sqls (Some n) d \<longrightarrow> n < length sqls \<longrightarrow> \<not> isl (A (sqls ! n) d))"

lemma insert_next:
  "db_migration d = Some (rows_of chk sqls n) \<Longrightarrow>
    insert_migration (int n + 1) c d
      = Inr ((), d\<lparr>db_migration := Some (rows_of chk sqls n @ [(int n + 1, c)])\<rparr>)"
  by (simp add: insert_migration_def versions_of)

lemma apply_migration_run:
  assumes "no_faults E" and "keeps_migration A"
    and "lived A (checksum_of E) sqls (Some n) (store w)" and "A (sqls ! n) (store w) = Inr d2"
  shows "\<exists>w'. apply_migration E A (int n + 1) (sqls ! n) w = (Inr (), w')"
proof -
  let ?w1 = "w\<lparr>calls := Suc (calls w)\<rparr>" and ?w2 = "w\<lparr>calls := Suc (Suc (calls w)), store := d2\<rparr>"
  let ?body = "wrapping (''migration '' @ format_int (int n + 1)) (and_then (exec E (run_script A (sqls ! n)))
    (\<lambda>_. exec E (insert_migration (int n + 1) (checksum_of E (sqls ! n)))))"
  have "db_migration d2 = Some (rows_of (checksum_of E) sqls n)"
    using assms(2,4) lived_Some [OF assms(3)] by (simp add: keeps_migration_def)
  note insert = insert_next [OF this]
  have "exec E (run_script A (sqls ! n)) ?w1 = (Inr (), ?w2)"
    using exec_run [OF assms(1), of "run_script A (sqls ! n)" ?w1] assms(4) by (simp add: run_script_def)
  moreover obtain w3 where
    "exec E (insert_migration (int n + 1) (checksum_of E (sqls ! n))) ?w2 = (Inr (), w3)"
    using exec_run [OF assms(1), of _ ?w2] insert by fastforce
  ultimately have body: "?body ?w1 = (Inr (), w3)" by (simp add: wrapping_def and_then_def)
  have "fault E k = None" for k using assms(1) by (simp add: no_faults_def)
  from transaction_run [where body = ?body, OF this body] show ?thesis
    unfolding apply_migration_def by blast
qed

lemma migrate_entry_run:
  assumes "no_faults E" and "keeps_migration A" and "runnable A (checksum_of E) sqls"
    and at: "lived A (checksum_of E) sqls (Some n) (store w)"
    and i: "i \<le> n" "i < length sqls" and "named i name"
  shows "\<exists>w'. migrate_entry E A (int i + 1) (name, Inr (sqls ! i)) w = (Inr (), w')"
proof -
  note rows = lived_Some [OF at]
  let ?w1 = "w\<lparr>calls := Suc (calls w)\<rparr>" and ?w2 = "w\<lparr>calls := Suc (Suc (calls w))\<rparr>"
  have "select_checksum (int i + 1) (store w)
      = Inr (if i < n then Some (checksum_of E (sqls ! i)) else None, store w)"
    using rows by (simp add: select_checksum_def map_of_rows_of)
  note stored = exec_read_run [OF assms(1), of "select_checksum (int i + 1)", OF this]
  have "select_latest (store ?w1) = Inr (int n, store ?w1)"
    using rows by (simp add: select_latest_def max_version_rows_of)
  note latest = exec_read_run [OF assms(1), of select_latest ?w1, OF this]
  show ?thesis
  proof (cases "i < n")
    case True
    with stored assms(7) show ?thesis by (simp add: migrate_entry_def and_then_def named_def ret_def)
  next
    case False
    with i have n: "i = n" by simp
    with assms(3) at i(2) have "\<not> isl (A (sqls ! n) (store w))" by (simp add: runnable_def)
    then obtain d2 where "A (sqls ! n) (store w) = Inr d2" by (cases "A (sqls ! n) (store w)") auto
    then obtain w' where "apply_migration E A (int n + 1) (sqls ! n) ?w2 = (Inr (), w')"
      using apply_migration_run [OF assms(1,2), of sqls n ?w2] at by auto
    with stored latest assms(7) n show ?thesis
      by (simp add: migrate_entry_def and_then_def named_def)
  qed
qed

lemma migrate_entries_run:
  assumes "no_faults E" and "keeps_migration A" and "runnable A (checksum_of E) (map snd files)"
    and "\<forall>i < length files. named i (fst (files ! i))"
    and "lived A (checksum_of E) (map snd files) (Some n) (store w)" and "i \<le> n"
  shows "\<exists>w'. migrate_entries E A i (readable (drop i files)) w = (Inr (), w')
    \<and> lived A (checksum_of E) (map snd files) (Some (length files)) (store w')"
  using assms(5,6)
proof (induction "drop i files" arbitrary: i n w)
  case Nil
  then have "n = length files" using lived_Some [OF Nil.prems(1)] by simp
  with Nil show ?case by (auto simp: readable_def ret_def)
next
  case (Cons f rest)
  note i = readable_drop [OF Cons.hyps(2)]
  from migrate_entry_run [OF assms(1-3) Cons.prems(1,2)] i(1,2) assms(4)
  obtain w1 where run1: "migrate_entry E A (int i + 1) (fst f, Inr (map snd files ! i)) w = (Inr (), w1)"
    by fastforce
  from migrate_entry_progress [OF assms(2) Cons.prems(1,2) _ run1] i(1)
  obtain k where k: "lived A (checksum_of E) (map snd files) (Some k) (store w1)" "Suc i \<le> k" by auto
  from Cons.hyps(1) [OF i(3) k] obtain w' where
    "migrate_entries E A (Suc i) (readable (drop (Suc i) files)) w1 = (Inr (), w')"
    "lived A (checksum_of E) (map snd files) (Some (length files)) (store w')" by blast
  with run1 i(4) show ?case by (auto simp: and_then_def)
qed

lemma check_schema_run:
  assumes "no_faults E" and "db_migration (store w) = Some rows" and "length rows = 2"
    and "max_version rows = 2"
  shows "check_schema E w = (Inr (), w\<lparr>calls := Suc (calls w)\<rparr>)"
proof -
  have "select_versions (store w) = Inr ((2, 2), store w)"
    using assms(2-4) by (simp add: select_versions_def)
  from exec_read_run [OF assms(1), of select_versions, OF this]
  show ?thesis by (simp add: check_schema_def and_then_def schema_version_def ret_def)
qed

lemma migrate_run:
  assumes "no_faults E" and "keeps_migration A" and "runnable A (checksum_of E) (map snd files)"
    and "\<forall>i < length files. named i (fst (files ! i))" and "length files = 2"
    and "lived A (checksum_of E) (map snd files) p (store w)"
  shows "\<exists>w'. migrate E A (Inr (readable files)) w = (Inr (), w')
    \<and> lived A (checksum_of E) (map snd files) (Some 2) (store w')"
proof -
  let ?w1 = "w\<lparr>calls := Suc (Suc (calls w)), sessions := migration_lock # sessions w\<rparr>"
  obtain r2 w2 where created: "exec_auto E create_migration ?w1 = (r2, w2)" by fastforce
  then have "r2 = Inr ()" using assms(1) by (auto simp: exec_auto_def no_faults_def create_migration_def)
  from create_auto [OF _ created, of A "checksum_of E" "map snd files" p] assms(6) this
  obtain n where n: "lived A (checksum_of E) (map snd files) (Some n) (store w2)" by auto
  from migrate_entries_run [OF assms(1-4) n, of 0] assms(5) obtain w3 where
    entries: "migrate_entries E A 0 (readable files) w2 = (Inr (), w3)"
    and w3: "lived A (checksum_of E) (map snd files) (Some 2) (store w3)" by auto
  from check_schema_run [OF assms(1), of w3] lived_Some [OF w3]
  have check: "check_schema E w3 = (Inr (), w3\<lparr>calls := Suc (calls w3)\<rparr>)"
    by (simp add: max_version_rows_of)
  have "migrate E A (Inr (readable files)) w
      = (Inr (), session_unlock E migration_lock (w3\<lparr>calls := Suc (calls w3)\<rparr>))"
    by (simp add: migrate_def and_then_def exec_no_op_run [OF assms(1)] with_lock_def session_lock_def
        created \<open>r2 = Inr ()\<close> of_result_def entries check)
  with w3 show ?thesis by simp
qed

subsection \<open>What a success means on any database\<close>

definition extends :: "db \<Rightarrow> db \<Rightarrow> bool" where
  "extends d d' \<longleftrightarrow>
     (\<forall>rows. db_migration d = Some rows \<longrightarrow> (\<exists>new. db_migration d' = Some (rows @ new)))"

definition recorded :: "env \<Rightarrow> nat \<Rightarrow> entry \<Rightarrow> db \<Rightarrow> bool" where
  "recorded E i entry d \<longleftrightarrow>
     named i (fst entry)
     \<and> (\<exists>sql rows. snd entry = Inr sql \<and> db_migration d = Some rows
          \<and> map_of rows (int i + 1) = Some (checksum_of E sql))"

lemma extends_refl: "extends d d"
  by (simp add: extends_def)

lemma extends_trans: "extends d1 d2 \<Longrightarrow> extends d2 d3 \<Longrightarrow> extends d1 d3"
  by (fastforce simp: extends_def)

lemma recorded_extends: "recorded E i entry d \<Longrightarrow> extends d d' \<Longrightarrow> recorded E i entry d'"
  by (fastforce simp: recorded_def extends_def)

lemma apply_migration_Inr:
  assumes "keeps_migration A" and "db_migration (store w) = Some rows" and "map_of rows v = None"
    and "apply_migration E A v sql w = (Inr u, w')"
  shows "db_migration (store w') = Some (rows @ [(v, checksum_of E sql)])"
  using assms(4) unfolding apply_migration_def
proof (cases rule: transaction_cases)
  case (committed x w2)
  then obtain d where d: "A sql (store w) = Inr d"
    "insert_migration v (checksum_of E sql) d = Inr ((), store w2)"
    by (auto simp: success run_script_def split: sum.splits)
  with assms(1,2) have "db_migration d = Some rows" by (simp add: keeps_migration_def)
  with d(2) have "store w2 = d\<lparr>db_migration := Some (rows @ [(v, checksum_of E sql)])\<rparr>"
    by (auto simp: insert_migration_def split: if_splits)
  with committed(2) show ?thesis by simp
qed auto

lemma migrate_entry_Inr:
  assumes "keeps_migration A" and "migrate_entry E A (int i + 1) entry w = (Inr u, w')"
  shows "recorded E i entry (store w') \<and> extends (store w) (store w')"
proof -
  from assms(2) obtain sql rows where sql: "snd entry = Inr sql" and name: "named i (fst entry)"
    and rows: "db_migration (store w) = Some rows"
    by (auto simp: migrate_entry_def named_def success select_checksum_def
        split: if_splits sum.splits option.splits)
  show ?thesis
  proof (cases "map_of rows (int i + 1)")
    case (Some s)
    with assms(2) sql name rows have "s = checksum_of E sql" "store w' = store w"
      by (auto simp: migrate_entry_def named_def success select_checksum_def split: if_splits)
    with Some sql name rows show ?thesis by (auto simp: recorded_def extends_refl)
  next
    case None
    with assms(2) sql name rows
    have "apply_migration E A (int i + 1) sql (w\<lparr>calls := Suc (Suc (calls w))\<rparr>) = (Inr u, w')"
      by (auto simp: migrate_entry_def named_def success select_checksum_def select_latest_def
          split: if_splits)
    from apply_migration_Inr [OF assms(1) _ None this] rows
    have "db_migration (store w') = Some (rows @ [(int i + 1, checksum_of E sql)])" by simp
    with sql name rows None show ?thesis by (auto simp: recorded_def extends_def map_add_def)
  qed
qed

lemma migrate_entries_Inr:
  assumes "keeps_migration A" and "migrate_entries E A i entries w = (Inr u, w')"
  shows "(\<forall>j < length entries. recorded E (i + j) (entries ! j) (store w'))
    \<and> extends (store w) (store w')"
  using assms(2)
proof (induction entries arbitrary: i w)
  case (Cons entry rest)
  then obtain w1 where "migrate_entry E A (int i + 1) entry w = (Inr (), w1)"
    "migrate_entries E A (Suc i) rest w1 = (Inr u, w')" by (auto simp: success)
  with migrate_entry_Inr [OF assms(1)] Cons.IH
  have step: "recorded E i entry (store w1)" "extends (store w) (store w1)"
    and rest: "\<forall>j < length rest. recorded E (Suc i + j) (rest ! j) (store w')"
      "extends (store w1) (store w')" by blast+
  have "recorded E (i + j) ((entry # rest) ! j) (store w')" if "j < length (entry # rest)" for j
    using that recorded_extends [OF step(1) rest(2)] rest(1) by (cases j) auto
  with extends_trans [OF step(2) rest(2)] show ?case by blast
qed (auto simp: ret_def extends_refl)

text \<open>
  \<open>Migrate\<close> returns nil only when every file has the name of its version and is recorded under its
  own checksum, and exactly the versions the program was built for are there.
\<close>

definition schema_current :: "db \<Rightarrow> bool" where
  "schema_current d \<longleftrightarrow> (\<exists>rows. db_migration d = Some rows \<and> length rows = 2 \<and> max_version rows = 2)"

lemma migrate_success:
  assumes "migrate E A directory w = (Inr u, w')"
  obtains entries w3 w4 where "directory = Inr entries"
    "migrate_entries E A 0 entries w3 = (Inr (), w4)" "store w' = store w4" "schema_current (store w')"
proof -
  from assms obtain w0 where "with_lock E migration_lock
      (and_then (exec_auto E create_migration) (\<lambda>_. and_then (of_result directory) (\<lambda>entries.
        and_then (migrate_entries E A 0 entries) (\<lambda>_. check_schema E)))) w0 = (Inr u, w')"
    by (auto simp: migrate_def success)
  from with_lock_run [OF this] obtain w3 w2 w4 entries where "directory = Inr entries"
    and entries: "migrate_entries E A 0 entries w3 = (Inr (), w4)"
    and check: "check_schema E w4 = (Inr u, w2)" and w2: "store w' = store w2"
    by (auto simp: success)
  moreover have "store w2 = store w4" using check by (rule keeps_storeD [OF keeps_check_schema])
  moreover note check_schema_Inr [OF check]
  ultimately show ?thesis using that by (simp add: schema_current_def)
qed

lemma migrate_records:
  assumes "keeps_migration A" and "migrate E A directory w = (Inr u, w')"
  obtains entries where "directory = Inr entries"
    "\<forall>j < length entries. recorded E j (entries ! j) (store w')" "schema_current (store w')"
proof -
  from assms(2) obtain entries w3 w4 where m: "directory = Inr entries"
    "migrate_entries E A 0 entries w3 = (Inr (), w4)" "store w' = store w4" "schema_current (store w')"
    by (rule migrate_success)
  from migrate_entries_Inr [OF assms(1) m(2)] m(3)
  have "\<forall>j < length entries. recorded E j (entries ! j) (store w')" by simp
  with m show ?thesis using that by blast
qed

lemma check_schema_current:
  assumes "schema_current (store w)"
  shows "isl (fst (check_schema E w)) \<longleftrightarrow> fault E (calls w) \<noteq> None"
  using assms
  by (auto simp: check_schema_def and_then_def exec_def Let_def select_versions_def schema_current_def
      schema_version_def ret_def split: option.splits)

subsection \<open>What the scripts keep, Migrate keeps\<close>

definition preserves :: "(db \<Rightarrow> bool) \<Rightarrow> 'a eff \<Rightarrow> bool" where
  "preserves P m \<longleftrightarrow> (\<forall>w. P (store w) \<longrightarrow> P (store (snd (m w))))"

named_theorems preserving \<open>operations that keep a property of the database\<close>

lemma preserves_keeps: "keeps_store m \<Longrightarrow> preserves P m"
  by (simp add: preserves_def keeps_store_def)

lemma preserves_basic [preserving]:
  "preserves P (ret x)" "preserves P (fail e)" "preserves P (of_result r)" "preserves P (exec E no_op)"
  "preserves P (check_schema E)"
  by (rule preserves_keeps, rule frame)+

lemma preserves_and_then [preserving]:
  "preserves P m \<Longrightarrow> (\<And>x. preserves P (f x)) \<Longrightarrow> preserves P (and_then m f)"
  by (auto simp: preserves_def and_then_def split: prod.splits sum.splits)

lemma preserves_wrapping [preserving]: "preserves P m \<Longrightarrow> preserves P (wrapping t m)"
  by (auto simp: preserves_def wrapping_def split: prod.splits sum.splits)

lemma preserves_transaction [preserving]:
  assumes "preserves P body"
  shows "preserves P (transaction E body)"
  unfolding preserves_def
proof (intro allI impI)
  fix w :: world
  assume P: "P (store w)"
  obtain r w' where t: "transaction E body w = (r, w')" by fastforce
  have body: "P (store (snd (body (w\<lparr>calls := Suc (calls w)\<rparr>))))"
    using assms P by (simp add: preserves_def)
  from t have "P (store w')" by (cases rule: transaction_cases) (use P body in auto)
  with t show "P (store (snd (transaction E body w)))" by simp
qed

lemma preserves_exec:
  assumes "\<And>d x d'. stmt d = Inr (x, d') \<Longrightarrow> P d \<Longrightarrow> P d'"
  shows "preserves P (exec E stmt)" "preserves P (exec_auto E stmt)"
  using assms
  by (auto simp: preserves_def exec_def exec_auto_def Let_def split: option.splits sum.splits fault.splits)

lemma preserves_lock [preserving]: "preserves P m \<Longrightarrow> preserves P (with_lock E key m)"
  unfolding preserves_def
proof (intro allI impI)
  fix w :: world
  assume m: "\<forall>w. P (store w) \<longrightarrow> P (store (snd (m w)))" and P: "P (store w)"
  obtain r w' where lock: "with_lock E key m w = (r, w')" by fastforce
  from with_lock_run [OF this] m P have "P (store w')" by (metis snd_conv)
  with lock show "P (store (snd (with_lock E key m w)))" by simp
qed

lemma migrate_preserves:
  assumes "\<And>sql d d'. A sql d = Inr d' \<Longrightarrow> P d \<Longrightarrow> P d'" and "\<And>d m. P (d\<lparr>db_migration := m\<rparr>) = P d"
  shows "preserves P (migrate E A directory)"
proof -
  have script: "preserves P (exec E (run_script A sql))" for sql
    by (rule preserves_exec) (auto simp: run_script_def intro: assms(1) split: sum.splits)
  have insert: "preserves P (exec E (insert_migration v c))" for v c
    by (rule preserves_exec) (auto simp: insert_migration_def assms(2) split: option.splits if_splits)
  have create: "preserves P (exec_auto E create_migration)"
    by (rule preserves_exec) (auto simp: create_migration_def assms(2) split: option.splits)
  have reads: "preserves P (exec E (select_checksum v))" "preserves P (exec E select_latest)" for v
    by (rule preserves_exec; auto simp: select_checksum_def select_latest_def split: option.splits)+
  have apply_one: "preserves P (apply_migration E A v sql)" for v sql
    unfolding apply_migration_def by (intro preserving script insert)
  have entry: "preserves P (migrate_entry E A v e)" for v e
    by (auto simp: migrate_entry_def intro!: preserving reads apply_one
        split: sum.splits option.splits)
  have entries: "preserves P (migrate_entries E A i es)" for i es
    by (induction es arbitrary: i) (auto intro!: preserving entry)
  show ?thesis
    unfolding migrate_def
    by (intro preserving create entries)
qed

end
