(* ===== verification/Product.thy ===== *)
theory Product
  imports Admin_Access Migrations
begin

section \<open>The HTTP server of the product: app/server.go\<close>

text \<open>
  \<open>Run\<close> puts the parts together: the service over the configured applications, the readiness check,
  and the administration UI over the same database when it is enabled.
\<close>

definition product_api ::
  "env \<Rightarrow> ('s, 'o, 'c, 'a) wa_lib \<Rightarrow> rps \<Rightarrow> config \<Rightarrow> (http_request \<Rightarrow> handler) option \<Rightarrow> encoder
    \<Rightarrow> (http_request \<Rightarrow> http_response) \<Rightarrow> api"
where
  "product_api E lib rps cfg admin enc redir =
     \<lparr>api_service = service_passkeys E (passkey_server E lib rps (cfg_applications cfg)),
      api_ready = check_schema E, api_encoder = enc, api_admin = admin, api_redirect = redir\<rparr>"

text \<open>The handler \<open>newAdmin\<close> makes, over the server's own store.\<close>

definition product_admin ::
  "env \<Rightarrow> config \<Rightarrow> ((string \<times> string) list \<Rightarrow> string) \<Rightarrow> ui_lib \<Rightarrow> (http_request \<Rightarrow> handler) option eff"
where
  "product_admin E cfg pretty ui = new_admin E cfg (admin_postgres E pretty) ui"

lemma product_admin_keeps:
  assumes "product_admin E cfg pretty ui w = (Inr (Some h), w')"
  shows "handler_keeps (h rq)"
  using assms admin_postgres_store.keeps_admin
  by (auto simp: product_admin_def new_admin_def split: if_splits sum.splits)

lemma product_api_step:
  assumes "product_admin E cfg pretty ui w = (Inr adm, w')"
  shows "handler_step (api_handler E (product_api E lib rps cfg adm enc redir) rq)"
proof (rule passkeys_api.handler_one_step)
  fix h
  assume "api_admin (product_api E lib rps cfg adm enc redir) = Some h"
  then show "handler_step (h rq)"
    using assms product_admin_keeps handler_step_keeps by (fastforce simp: product_api_def)
qed (auto simp: product_api_def passkey_server_def intro: frame)

lemma product_safe:
  assumes "rq_method rq = ''GET'' \<or> rq_method rq = ''HEAD''"
    and "product_admin E cfg pretty ui w = (Inr adm, w')"
  shows "handler_keeps (api_handler E (product_api E lib rps cfg adm enc redir) rq)"
proof (rule passkeys_api.handler_safe [OF assms(1)])
  fix h
  assume "api_admin (product_api E lib rps cfg adm enc redir) = Some h"
  then show "handler_keeps (h rq)"
    using assms(2) product_admin_keeps by (fastforce simp: product_api_def)
qed (auto simp: product_api_def passkey_server_def intro: frame)

lemma serves_steps:
  assumes "serves E (product_api E lib rps cfg adm enc redir) w w'"
    and "product_admin E cfg pretty ui w0 = (Inr adm, w1)" and "wf_db (store w)"
  shows "db_step\<^sup>*\<^sup>* (store w) (store w')"
  using assms
proof (induction rule: serves.induct)
  case (served w w1 rq r w2)
  then have steps: "db_step\<^sup>*\<^sup>* (store w) (store w1)" by simp
  from product_api_step [OF served.prems(1)]
  have "store w2 = store w1 \<or> db_step (store w1) (store w2)"
    using steps_wf [OF steps served.prems(2)] served.hyps(2)
    unfolding handler_step_def by (metis snd_conv)
  with steps show ?case by auto
qed simp

end
