(* ===== verification/Go_Flag.thy ===== *)
theory Go_Flag
  imports Passkey_Domain Go_Numbers
begin

section \<open>Command lines: the packages flag and net\<close>

text \<open>
  \<open>FlagSet.Parse\<close> of Go's package \<open>flag\<close> over a table of flags, each boolean or a string and each with
  the variable it sets, and the addresses \<open>net.SplitHostPort\<close> and \<open>net.JoinHostPort\<close> take apart and
  put together.
\<close>

datatype 'f flag_kind = BoolFlag "bool \<Rightarrow> 'f \<Rightarrow> 'f" | StringFlag "string \<Rightarrow> 'f \<Rightarrow> 'f"

definition parse_bool :: "string \<Rightarrow> bool option" where
  "parse_bool s =
     (if s \<in> set [''1'', ''t'', ''T'', ''TRUE'', ''true'', ''True''] then Some True
      else if s \<in> set [''0'', ''f'', ''F'', ''FALSE'', ''false'', ''False''] then Some False
      else None)"

text \<open>\<open>name\<close> and \<open>value\<close> of \<open>name=value\<close>; the sign cannot come first.\<close>

definition flag_name :: "string \<Rightarrow> string \<times> string option" where
  "flag_name s =
     (case s of
        [] \<Rightarrow> ([], None)
      | c # r \<Rightarrow>
          (let a = takeWhile (\<lambda>c. c \<noteq> CHR ''='') r in
           (c # a, if length a < length r then Some (drop (Suc (length a)) r) else None)))"

text \<open>What an argument is to \<open>FlagSet.parseOne\<close>: no flag, the end \<open>--\<close>, bad syntax, or a flag.\<close>

datatype argument = Positional | Terminator | BadSyntax | Flag string

definition argument_of :: "string \<Rightarrow> argument" where
  "argument_of s =
     (case s of
        c # d # r \<Rightarrow>
          if c \<noteq> CHR ''-'' then Positional
          else if d = CHR ''-'' \<and> r = [] then Terminator
          else
            (let name = (if d = CHR ''-'' then r else d # r) in
             if hd name = CHR ''-'' \<or> hd name = CHR ''='' then BadSyntax else Flag name)
      | _ \<Rightarrow> Positional)"

definition err_help :: err where
  "err_help = Plain ''flag: help requested''"

text \<open>A boolean flag has its value after \<open>=\<close> only; a string flag also takes the next argument.\<close>

fun parse_flags ::
  "(string \<rightharpoonup> 'f flag_kind) \<Rightarrow> string list \<Rightarrow> 'f \<Rightarrow> err + 'f \<times> string list"
where
  "parse_flags F [] f = Inr (f, [])"
| "parse_flags F (s # args) f =
     (case argument_of s of
        Positional \<Rightarrow> Inr (f, s # args)
      | Terminator \<Rightarrow> Inr (f, args)
      | BadSyntax \<Rightarrow> Inl (Plain (''bad flag syntax: '' @ s))
      | Flag text \<Rightarrow>
          (let name = fst (flag_name text) in
           case F name of
             None \<Rightarrow>
               if name = ''help'' \<or> name = ''h'' then Inl err_help
               else Inl (Plain (''flag provided but not defined: -'' @ name))
           | Some (BoolFlag set_value) \<Rightarrow>
               (case snd (flag_name text) of
                  None \<Rightarrow> parse_flags F args (set_value True f)
                | Some v \<Rightarrow>
                    (case parse_bool v of
                       None \<Rightarrow> Inl (Plain ''invalid boolean value'')
                     | Some b \<Rightarrow> parse_flags F args (set_value b f)))
           | Some (StringFlag set_value) \<Rightarrow>
               (case snd (flag_name text) of
                  Some v \<Rightarrow> parse_flags F args (set_value v f)
                | None \<Rightarrow>
                    (case args of
                       [] \<Rightarrow> Inl (Plain (''flag needs an argument: -'' @ name))
                     | v # rest \<Rightarrow> parse_flags F rest (set_value v f)))))"

declare parse_flags.simps(2) [simp del]

text \<open>\<open>errors.Is\<close> for a target that is one value, and the exit code of a \<open>main\<close> that ignores \<open>flag.ErrHelp\<close>.\<close>

fun wraps :: "err \<Rightarrow> err \<Rightarrow> bool" where
  "wraps (Wrapped t e) target = (Wrapped t e = target \<or> wraps e target)"
| "wraps e target = (e = target)"

definition exit_code :: "err option \<Rightarrow> nat" where
  "exit_code e = (case e of None \<Rightarrow> 0 | Some e \<Rightarrow> if wraps e err_help then 0 else 1)"

subsection \<open>Arguments that name every flag\<close>

text \<open>\<open>-name=value\<close> for each string flag, in any order: what a program's operator writes.\<close>

definition flag_argument :: "string \<times> string \<Rightarrow> string" where
  "flag_argument p = CHR ''-'' # fst p @ CHR ''='' # snd p"

definition flag_word :: "string \<Rightarrow> bool" where
  "flag_word n \<longleftrightarrow> n \<noteq> [] \<and> hd n \<noteq> CHR ''-'' \<and> CHR ''='' \<notin> set n"

fun set_flags :: "(string \<rightharpoonup> 'f flag_kind) \<Rightarrow> (string \<times> string) list \<Rightarrow> 'f \<Rightarrow> 'f" where
  "set_flags F [] f = f"
| "set_flags F (p # ps) f =
     set_flags F ps (case F (fst p) of Some (StringFlag g) \<Rightarrow> g (snd p) f | _ \<Rightarrow> f)"

lemma flag_argument_of: "flag_word n \<Longrightarrow> argument_of (flag_argument (n, v)) = Flag (n @ CHR ''='' # v)"
  by (cases n) (auto simp: flag_word_def flag_argument_def argument_of_def)

lemma flag_name_word: "flag_word n \<Longrightarrow> flag_name (n @ CHR ''='' # v) = (n, Some v)"
proof (cases n)
  case (Cons c r)
  assume "flag_word n"
  with Cons have "takeWhile (\<lambda>c. c \<noteq> CHR ''='') (r @ CHR ''='' # v) = r"
    by (subst takeWhile_append2) (auto simp: flag_word_def)
  with Cons show ?thesis by (simp add: flag_name_def Let_def)
qed (simp add: flag_word_def)

lemma parse_flag_arguments:
  "list_all (\<lambda>p. flag_word (fst p) \<and> (\<exists>g. F (fst p) = Some (StringFlag g))) ps \<Longrightarrow>
    parse_flags F (map flag_argument ps) f = Inr (set_flags F ps f, [])"
proof (induction ps arbitrary: f)
  case (Cons p ps)
  obtain n v where p: "p = (n, v)" by (cases p)
  with Cons.prems obtain g where "flag_word n" "F n = Some (StringFlag g)" by auto
  with Cons p show ?case
    by (simp add: parse_flags.simps(2) [of F "flag_argument (n, v)"] flag_argument_of flag_name_word)
qed simp

subsection \<open>The listen address\<close>

text \<open>Whether \<open>net.SplitHostPort\<close> accepts an address.\<close>

definition split_host_port :: "string \<Rightarrow> (string \<times> string) option" where
  "split_host_port s =
     (if CHR '':'' \<notin> set s then None
      else
        (let port = rev (takeWhile (\<lambda>c. c \<noteq> CHR '':'') (rev s));
             before = take (length s - Suc (length port)) s in
         if hd s = CHR ''['' then
           (let host = takeWhile (\<lambda>c. c \<noteq> CHR '']'') (tl s); after = drop (length host + 2) s in
            if CHR '']'' \<notin> set s then None
            else if after \<noteq> CHR '':'' # port then None
            else if CHR ''['' \<in> set (tl s) \<or> CHR '']'' \<in> set after then None
            else Some (host, port))
         else if CHR '':'' \<in> set before then None
         else if CHR ''['' \<in> set s \<or> CHR '']'' \<in> set s then None
         else Some (before, port)))"

text \<open>\<open>net.JoinHostPort\<close>: a host with a colon goes into brackets.\<close>

definition join_host_port :: "string \<Rightarrow> string \<Rightarrow> string" where
  "join_host_port host port =
     (if CHR '':'' \<in> set host
      then CHR ''['' # host @ '']:'' @ port else host @ CHR '':'' # port)"

lemma split_join_host_port:
  assumes "set port \<inter> {CHR '':'', CHR ''['', CHR '']''} = {}" and "set host \<inter> {CHR ''['', CHR '']''} = {}"
  shows "split_host_port (join_host_port host port) = Some (host, port)"
proof -
  have port: "takeWhile (\<lambda>c. c \<noteq> CHR '':'') (rev (x @ CHR '':'' # port)) = rev port" for x
    using assms(1) by (simp add: takeWhile_append takeWhile_tail)
  show ?thesis
  proof (cases "CHR '':'' \<in> set host")
    case True
    have "takeWhile (\<lambda>c. c \<noteq> CHR '']'') (host @ CHR '']'' # CHR '':'' # port) = host"
      using assms(2) by (subst takeWhile_append2) auto
    with True assms port [of "CHR ''['' # host @ '']''"] show ?thesis
      by (auto simp: split_host_port_def join_host_port_def Let_def)
  next
    case False
    then have "hd (host @ CHR '':'' # port) \<noteq> CHR ''[''" using assms(2) by (cases host) auto
    with False assms port [of host] show ?thesis
      by (auto simp: split_host_port_def join_host_port_def Let_def)
  qed
qed

end
