(* ===== verification/Server.thy ===== *)
theory Server
  imports Product Go_Flag
begin

section \<open>Starting the server: app/tls.go and app/server.go\<close>

text \<open>
  \<open>Run\<close> from the command line to the listening server, in the order the code checks things, over the
  command line of \<open>Go_Flag\<close>. The machine is the record \<open>machine\<close>: files, port names, key
  pairs, PEM blocks, the DSN parser, the listener.
\<close>

subsection \<open>TLS\<close>

datatype client_auth =
  NoClientCert | RequestClientCert | RequireAnyClientCert | VerifyClientCertIfGiven | RequireAndVerifyClientCert

record 'k tls_config =
  tls_min_version :: nat
  tls_certificates :: "'k list"
  tls_client_cas :: "bytes list"
  tls_client_auth :: client_auth

record 'k machine =
  mc_print :: "string \<Rightarrow> err option"
  mc_lookup_port :: "string \<Rightarrow> bool"
  mc_open :: "string \<Rightarrow> err + (err + bytes)"
  mc_key_pair :: "string \<Rightarrow> string \<Rightarrow> err + 'k"
  mc_read_file :: "string \<Rightarrow> err + bytes"
  mc_certificates :: "bytes \<Rightarrow> bytes list"
  mc_dsn_ok :: "string \<Rightarrow> bool"
  mc_pool_ok :: "string \<Rightarrow> bool"
  mc_listen :: "string \<Rightarrow> err option"

definition version_tls12 :: nat where
  "version_tls12 = 771"

text \<open>\<open>AppendCertsFromPEM\<close> reports whether the file had a certificate.\<close>

definition tls_setup :: "'k machine \<Rightarrow> string \<Rightarrow> string \<Rightarrow> string \<Rightarrow> err + 'k tls_config" where
  "tls_setup M cert_file key_file ca_file =
     (if cert_file = '''' \<or> key_file = '''' \<or> ca_file = ''''
      then Inl (Plain ''tls-cert, tls-key and client-ca are required'')
      else
        (case mc_key_pair M cert_file key_file of
           Inl e \<Rightarrow> Inl (Wrapped ''load server TLS certificate'' e)
         | Inr cert \<Rightarrow>
             (case mc_read_file M ca_file of
                Inl e \<Rightarrow> Inl (Wrapped ''read client CA'' e)
              | Inr pem \<Rightarrow>
                  if mc_certificates M pem = [] then Inl (Plain ''client CA contains no certificates'')
                  else Inr \<lparr>tls_min_version = version_tls12, tls_certificates = [cert],
                         tls_client_cas = mc_certificates M pem,
                         tls_client_auth = VerifyClientCertIfGiven\<rparr>)))"

subsection \<open>Flags\<close>

record run_flags =
  fl_version :: bool
  fl_listen :: string
  fl_config :: string
  fl_dsn :: string
  fl_cert :: string
  fl_key :: string
  fl_ca :: string

definition default_flags :: run_flags where
  "default_flags =
     \<lparr>fl_version = False, fl_listen = '':8443'', fl_config = '''', fl_dsn = '''', fl_cert = '''',
      fl_key = '''', fl_ca = ''''\<rparr>"

definition server_flags :: "string \<rightharpoonup> run_flags flag_kind" where
  "server_flags =
     map_of
       [(''version'', BoolFlag (\<lambda>b f. f\<lparr>fl_version := b\<rparr>)),
        (''listen'', StringFlag (\<lambda>v f. f\<lparr>fl_listen := v\<rparr>)),
        (''config'', StringFlag (\<lambda>v f. f\<lparr>fl_config := v\<rparr>)),
        (''database-dsn'', StringFlag (\<lambda>v f. f\<lparr>fl_dsn := v\<rparr>)),
        (''tls-cert'', StringFlag (\<lambda>v f. f\<lparr>fl_cert := v\<rparr>)),
        (''tls-key'', StringFlag (\<lambda>v f. f\<lparr>fl_key := v\<rparr>)),
        (''client-ca'', StringFlag (\<lambda>v f. f\<lparr>fl_ca := v\<rparr>))]"

subsection \<open>Run\<close>

record 'k http_server =
  srv_addr :: string
  srv_api :: api
  srv_tls :: "'k tls_config"
  srv_read_header_timeout :: time
  srv_read_timeout :: time
  srv_write_timeout :: time
  srv_idle_timeout :: time
  srv_max_header_bytes :: nat

text \<open>\<open>Run\<close> prints the version, or gets as far as serving; how serving ends is \<open>run_end\<close>.\<close>

datatype 'k started = Printed | Serving "'k http_server"

definition checked_flags :: "'k machine \<Rightarrow> string list \<Rightarrow> string \<Rightarrow> err + run_flags option" where
  "checked_flags M args vers =
     (case parse_flags server_flags args default_flags of
        Inl e \<Rightarrow> Inl e
      | Inr (f, rest) \<Rightarrow>
          if fl_version f \<and> rest = [] then
            (case mc_print M (''passkey-server '' @ vers @ [newline_byte]) of
               Some e \<Rightarrow> Inl e | None \<Rightarrow> Inr None)
          else if rest \<noteq> [] \<or> fl_config f = '''' \<or> fl_dsn f = ''''
          then Inl (Plain ''config and database-dsn are required; positional arguments are not supported'')
          else
            (let listen = (if mc_lookup_port M (fl_listen f) then '':'' @ fl_listen f else fl_listen f) in
             if split_host_port listen = None then Inl (Plain ''invalid listen address'')
             else Inr (Some (f\<lparr>fl_listen := listen\<rparr>))))"

definition open_config :: "'k machine \<Rightarrow> config_lib \<Rightarrow> string \<Rightarrow> err + config" where
  "open_config M L path =
     (case mc_open M path of
        Inl e \<Rightarrow> Inl (Wrapped ''open product configuration'' e)
      | Inr file \<Rightarrow> load_config L file)"

definition server_on :: "string \<Rightarrow> api \<Rightarrow> 'k tls_config \<Rightarrow> 'k http_server" where
  "server_on listen a tls =
     \<lparr>srv_addr = listen, srv_api = a, srv_tls = tls, srv_read_header_timeout = seconds 5,
      srv_read_timeout = seconds 15, srv_write_timeout = seconds 20, srv_idle_timeout = seconds 60,
      srv_max_header_bytes = 16 * 2 ^ 10\<rparr>"

text \<open>
  What \<open>Run\<close> is linked with: the machine, the parts of the standard library and of other packages the
  components take as arguments, the embedded files, PostgreSQL's execution of a script, the version.
\<close>

record ('k, 's, 'o, 'c, 'a) build =
  bd_machine :: "'k machine"
  bd_config :: config_lib
  bd_webauthn :: "('s, 'o, 'c, 'a) wa_lib"
  bd_ui :: ui_lib
  bd_pretty :: "(string \<times> string) list \<Rightarrow> string"
  bd_encoder :: encoder
  bd_redirect :: "http_request \<Rightarrow> http_response"
  bd_script :: script
  bd_migrations :: "err + entry list"
  bd_version :: string

text \<open>From the parsed options to the listening server.\<close>

definition launch ::
  "env \<Rightarrow> ('k, 's, 'o, 'c, 'a) build \<Rightarrow> run_flags \<Rightarrow> config \<Rightarrow> 'k tls_config \<Rightarrow> 'k started eff"
where
  "launch E B f cfg tls =
     and_then (guard (if mc_dsn_ok (bd_machine B) (fl_dsn f) then None
       else Some (Plain ''invalid database DSN''))) (\<lambda>_.
     and_then (guard (if mc_pool_ok (bd_machine B) (fl_dsn f) then None
       else Some (Plain ''initialize database pool''))) (\<lambda>_.
     and_then (wrapping ''database migration failed'' (migrate E (bd_script B) (bd_migrations B))) (\<lambda>_.
     and_then (of_result (new_webauthn (bd_webauthn B) (cfg_applications cfg))) (\<lambda>rps.
     and_then (product_admin E cfg (bd_pretty B) (bd_ui B)) (\<lambda>admin.
     and_then (guard (mc_listen (bd_machine B) (fl_listen f))) (\<lambda>_.
       ret (Serving (server_on (fl_listen f)
         (product_api E (bd_webauthn B) rps cfg admin (bd_encoder B) (bd_redirect B)) tls))))))))"

definition run_server :: "env \<Rightarrow> ('k, 's, 'o, 'c, 'a) build \<Rightarrow> string list \<Rightarrow> 'k started eff" where
  "run_server E B args =
     and_then (of_result (checked_flags (bd_machine B) args (bd_version B))) (\<lambda>parsed.
       case parsed of
         None \<Rightarrow> ret Printed
       | Some f \<Rightarrow>
           and_then (of_result (open_config (bd_machine B) (bd_config B) (fl_config f))) (\<lambda>cfg.
           and_then (of_result (tls_setup (bd_machine B) (fl_cert f) (fl_key f) (fl_ca f))) (\<lambda>tls.
             launch E B f cfg tls)))"

text \<open>
  The end of a serving process: \<open>ServeTLS\<close> returned, or the context was cancelled and \<open>Shutdown\<close>
  returned within its 15 seconds or did not.
\<close>

datatype serve_end = ServeReturned err | Cancelled "err option"

definition err_server_closed :: err where
  "err_server_closed = Plain ''http: Server closed''"

definition run_end :: "serve_end \<Rightarrow> err option" where
  "run_end s =
     (case s of
        ServeReturned e \<Rightarrow> if e = err_server_closed then None else Some e
      | Cancelled shutdown \<Rightarrow> shutdown)"

text \<open>The exit code of the command: of the error \<open>Run\<close> returns, which \<open>s\<close> decides once it serves.\<close>

definition server_main ::
  "env \<Rightarrow> ('k, 's, 'o, 'c, 'a) build \<Rightarrow> string list \<Rightarrow> serve_end \<Rightarrow> world \<Rightarrow> nat \<times> world"
where
  "server_main E B args s w =
     (case run_server E B args w of
        (Inl e, w') \<Rightarrow> (exit_code (Some e), w')
      | (Inr Printed, w') \<Rightarrow> (exit_code None, w')
      | (Inr (Serving _), w') \<Rightarrow> (exit_code (run_end s), w'))"

subsection \<open>A server that serves\<close>

lemma checked_flags_Inr:
  assumes "checked_flags M args vers = Inr (Some f)"
  shows "fl_config f \<noteq> ''''" and "fl_dsn f \<noteq> ''''" and "split_host_port (fl_listen f) \<noteq> None"
  using assms by (auto simp: checked_flags_def Let_def split: sum.splits if_splits option.splits prod.splits)

lemma tls_setup_Inr:
  assumes "tls_setup M c k ca = Inr t"
  shows "tls_min_version t = version_tls12" and "tls_client_auth t = VerifyClientCertIfGiven"
    and "tls_client_cas t \<noteq> []" and "\<exists>pem. mc_read_file M ca = Inr pem \<and> tls_client_cas t = mc_certificates M pem"
    and "\<exists>pair. mc_key_pair M c k = Inr pair \<and> tls_certificates t = [pair]"
  using assms by (auto simp: tls_setup_def split: if_splits sum.splits)

lemma product_admin_store: "product_admin E cfg pretty ui w = (r, w') \<Longrightarrow> store w' = store w"
  by (auto simp: product_admin_def new_admin_def split: if_splits sum.splits)

lemma run_server_Inr:
  assumes "run_server E B args w = (Inr (Serving s), w')"
  obtains f cfg tls rps adm w1
  where "checked_flags (bd_machine B) args (bd_version B) = Inr (Some f)"
    and "open_config (bd_machine B) (bd_config B) (fl_config f) = Inr cfg"
    and "tls_setup (bd_machine B) (fl_cert f) (fl_key f) (fl_ca f) = Inr tls"
    and "migrate E (bd_script B) (bd_migrations B) w = (Inr (), w1)"
    and "new_webauthn (bd_webauthn B) (cfg_applications cfg) = Inr rps"
    and "product_admin E cfg (bd_pretty B) (bd_ui B) w1 = (Inr adm, w')"
    and "s = server_on (fl_listen f)
      (product_api E (bd_webauthn B) rps cfg adm (bd_encoder B) (bd_redirect B)) tls"
  using assms
  by (auto simp: run_server_def launch_def success split: option.splits if_splits)

text \<open>Nothing before the migration and nothing after it touches the database.\<close>

lemma pure_then:
  "and_then (of_result r) f w = (case r of Inl e \<Rightarrow> (Inl e, w) | Inr x \<Rightarrow> f x w)"
  "and_then (guard c) g w = (case c of None \<Rightarrow> g () w | Some e \<Rightarrow> (Inl e, w))"
  by (simp_all add: and_then_def of_result_def guard_def ret_def fail_def split: sum.splits option.splits)

lemma wrapping_store: "store (snd (wrapping t m w)) = store (snd (m w))"
  by (auto simp: wrapping_def split: prod.splits sum.splits)

lemma keeps_product_admin [frame]: "keeps_store (product_admin E cfg pretty ui)"
  by (rule keeps_storeI) (rule product_admin_store)

lemma and_then_store:
  "(\<And>x. keeps_store (f x)) \<Longrightarrow> and_then m f w = (r, w') \<Longrightarrow> store w' = store (snd (m w))"
  by (auto simp: and_then_def keeps_store_def split: prod.splits sum.splits) (metis snd_conv)

lemma launch_store:
  assumes "launch E B f cfg tls w = (r, w')"
  shows "store w' = store w
    \<or> (\<exists>r1 w1. migrate E (bd_script B) (bd_migrations B) w = (r1, w1) \<and> store w' = store w1)"
proof (cases "mc_dsn_ok (bd_machine B) (fl_dsn f) \<and> mc_pool_ok (bd_machine B) (fl_dsn f)")
  case True
  with assms have "and_then (wrapping ''database migration failed''
      (migrate E (bd_script B) (bd_migrations B))) (\<lambda>_.
     and_then (of_result (new_webauthn (bd_webauthn B) (cfg_applications cfg))) (\<lambda>rps.
     and_then (product_admin E cfg (bd_pretty B) (bd_ui B)) (\<lambda>admin.
     and_then (guard (mc_listen (bd_machine B) (fl_listen f))) (\<lambda>_.
       ret (Serving (server_on (fl_listen f)
         (product_api E (bd_webauthn B) rps cfg admin (bd_encoder B) (bd_redirect B)) tls)))))) w = (r, w')"
    by (simp add: launch_def pure_then(2) [of None])
  then have "store w' = store (snd (wrapping ''database migration failed''
      (migrate E (bd_script B) (bd_migrations B)) w))"
    by (rule and_then_store [rotated]) (intro frame)
  then show ?thesis unfolding wrapping_store by (metis surjective_pairing)
qed (use assms in \<open>auto simp: launch_def pure_then split: if_splits\<close>)

lemma run_server_store:
  assumes "run_server E B args w = (r, w')"
  shows "store w' = store w
    \<or> (\<exists>r1 w1. migrate E (bd_script B) (bd_migrations B) w = (r1, w1) \<and> store w' = store w1)"
  using assms launch_store [of E B _ _ _ w r w']
  by (simp add: run_server_def pure_then ret_def split: sum.splits option.splits)

subsection \<open>A fleet over one database\<close>

text \<open>
  Nodes of one release, each on its own machine and with its own failures, start and serve requests
  over one database, in any order and any number of times.
\<close>

inductive fleet :: "('k, 's, 'o, 'c, 'a) build \<Rightarrow> (bytes \<Rightarrow> bytes) \<Rightarrow> db \<Rightarrow> bool" for B sha where
  new_database: "db_migration d = None \<Longrightarrow> fleet B sha d"
| node_starts: "fleet B sha (store w) \<Longrightarrow> sha256 E = sha \<Longrightarrow>
    run_server E (B\<lparr>bd_machine := M\<rparr>) args w = (r, w') \<Longrightarrow> fleet B sha (store w')"
| node_serves: "fleet B sha (store w) \<Longrightarrow> wf_db (store w) \<Longrightarrow>
    product_admin E cfg (bd_pretty B) (bd_ui B) w0 = (Inr adm, w1) \<Longrightarrow>
    serves E (product_api E (bd_webauthn B) rps cfg adm (bd_encoder B) (bd_redirect B)) w w' \<Longrightarrow>
    fleet B sha (store w')"

lemma lived_steps: "db_step\<^sup>*\<^sup>* d d' \<Longrightarrow> lived A chk sqls p d \<Longrightarrow> lived A chk sqls p d'"
  by (induction rule: rtranclp_induct) (auto intro: used)

lemma fleet_lived:
  assumes "fleet B sha d" and "keeps_migration (bd_script B)" and "bd_migrations B = Inr (readable files)"
  shows "\<exists>p. lived (bd_script B) (\<lambda>sql. hex_encode (sha sql)) (map snd files) p d"
  using assms(1)
proof (induction rule: fleet.induct)
  case (node_starts w E M args r w')
  then obtain p where p: "lived (bd_script B) (checksum_of E) (map snd files) p (store w)"
    by (auto simp: checksum_of_def [abs_def])
  have "\<exists>q. lived (bd_script B) (checksum_of E) (map snd files) q (store w')"
    using run_server_store [OF node_starts.hyps(3)] migrate_lived [OF assms(2) p] p assms(3)
    by (simp del: migrate_def) metis
  with node_starts.hyps(2) show ?case by (auto simp: checksum_of_def [abs_def])
next
  case (node_serves w E cfg w0 adm w1 rps w')
  then show ?case using serves_steps [OF node_serves.hyps(4,3,2)] lived_steps by blast
qed (auto intro: fresh)

lemma steps_migration: "db_step\<^sup>*\<^sup>* d d' \<Longrightarrow> db_migration d' = db_migration d"
  by (induction rule: rtranclp_induct) (auto simp: db_step_migration)

lemma schema_current_steps: "db_step\<^sup>*\<^sup>* d d' \<Longrightarrow> schema_current d' = schema_current d"
  by (simp add: schema_current_def steps_migration)

subsection \<open>The configuration in force\<close>

lemma config_may_act:
  assumes "config_ok L c"
  shows "may_act (new_service (cfg_applications c) R A) code fp
    \<longleftrightarrow> (\<exists>a \<in> set (cfg_applications c). app_code a = code \<and> fp \<in> set (app_clients a))"
proof -
  let ?apps = "cfg_applications c" and ?m = "svc_applications (new_service (cfg_applications c) R A)"
  have distinct: "distinct (map app_code ?apps)" using assms by (simp add: config_ok_def)
  have known: "?m (app_code a) = Some a" if "a \<in> set ?apps" for a
    using applications_map [OF distinct that] by (simp add: new_service_def)
  have from_list: "a \<in> set ?apps \<and> app_code a = code" if "?m code = Some a" for a
  proof -
    have "code \<in> dom ?m" using that by blast
    then obtain x where "x \<in> set ?apps" "app_code x = code" unfolding dom_new_service by blast
    with known [of x] that show ?thesis by simp
  qed
  have "fp \<noteq> ''''" if "a \<in> set ?apps" "fp \<in> set (app_clients a)" for a
    using assms that fingerprint_nonempty by (auto simp: config_ok_def application_ok_def list_all_iff)
  with known from_list show ?thesis unfolding may_act_def by metis
qed

lemma ready_status:
  assumes "rq_method rq = ''GET''" and "rq_path rq = [''ready'']"
    and "enc (StatusBody ''ready'') = Some data" and "enc (StatusBody ''not_ready'') = Some data'"
  shows "rs_status (fst (api_handler E (product_api E lib rps cfg adm enc redir) rq w))
    = (if isl (fst (check_schema E w)) then 503 else 200)"
  using assms
  by (auto simp: api_handler_def api_mux_def product_api_def with_method_def api_readiness_def write_json_def
      json_response_def split: prod.splits sum.splits)

lemma migrate_done:
  assumes "keeps_migration A" and "lived A (checksum_of E) (map snd files) (Some 2) (store w)"
    and "length files = 2" and "migrate E A (Inr (readable files)) w = (r, w')"
  shows "store w' = store w"
proof -
  from migrate_lived [OF assms(1,2,4)] obtain m where m: "Some 2 \<le> m"
    "lived A (checksum_of E) (map snd files) m (store w')" "m = Some 2 \<longrightarrow> store w' = store w" by blast
  from m(1) obtain k where k: "m = Some k" "2 \<le> k" by (cases m) auto
  with lived_Some [of A _ _ k] m(2) assms(3) have "k = 2" by fastforce
  with m(3) k(1) show ?thesis by simp
qed

end
