(* ===== verification/Json_Compact.thy ===== *)
theory Json_Compact
  imports Strict_Json
begin

section \<open>encoding/json: writing a raw value\<close>

text \<open>
  How \<open>json.Marshal\<close> writes a \<open>jsontext.Value\<close>: token by token, without white space, numbers as they
  are, strings escaped as \<open>Json_Text\<close> does, the comma or colon a token needs before it. What is
  written reads back as the same tokens, and it is never longer than what was read.
\<close>

fun token_text :: "jtoken \<Rightarrow> string" where
  "token_text TNull = ''null''"
| "token_text TTrue = ''true''"
| "token_text TFalse = ''false''"
| "token_text (TString s) = quote # escape s @ [quote]"
| "token_text (TNumber x) = x"
| "token_text TBeginObject = ''{''"
| "token_text TEndObject = ''}''"
| "token_text TBeginArray = ''[''"
| "token_text TEndArray = '']''"

definition separator :: "jstack \<Rightarrow> jtoken \<Rightarrow> string" where
  "separator st t =
     (case st of
        [] \<Rightarrow> ''''
      | FArray started # _ \<Rightarrow> if started \<and> t \<noteq> TEndArray then '','' else ''''
      | FObject ns due # _ \<Rightarrow> if due then '':'' else if ns \<noteq> [] \<and> t \<noteq> TEndObject then '','' else '''')"

definition written :: "jstack \<Rightarrow> jtoken \<Rightarrow> string" where
  "written st t = separator st t @ token_text t"

text \<open>
  The text of the value the decoder stands before with \<open>d\<close> containers open, as the encoder in the same
  state writes it; the decoder's new state and the unread text.
\<close>

function compact_value :: "nat \<Rightarrow> jstack \<Rightarrow> string \<Rightarrow> (string \<times> jstack \<times> string) option" where
  "compact_value d st s =
     (case read_token st s of
        JToken t st' r \<Rightarrow>
          if length st' \<le> d then Some (written st t, st', r)
          else map_option (\<lambda>(out, x). (written st t @ out, x)) (compact_value d st' r)
      | _ \<Rightarrow> None)"
  by pat_completeness auto
termination
  by (relation "measure (\<lambda>(d, st, s). length s)") (auto dest: read_token_shorter)

declare compact_value.simps [simp del]

lemma compact_skip:
  "map_option snd (compact_value d st s) = skip_value d st s"
proof (induction d st s rule: compact_value.induct)
  case (1 d st s)
  then show ?case
    by (auto simp: compact_value.simps [of d st s] skip_value.simps [of d st s] option.map_comp comp_def
        case_prod_beta split: jread.splits)
qed

subsection \<open>Numbers\<close>

definition ends_number :: "string \<Rightarrow> bool" where
  "ends_number r \<longleftrightarrow> r = [] \<or> \<not> is_digit (hd r) \<and> byte_nat (hd r) \<notin> {46, 69, 101}"

lemma take_digits_again:
  assumes "take_digits s = Some (d, r)"
  shows "s = d @ r" and "d \<noteq> []" and "is_digit (hd d)"
    and "r' = [] \<or> \<not> is_digit (hd r') \<Longrightarrow> take_digits (d @ r') = Some (d, r')"
proof -
  from assms have d: "d = takeWhile is_digit s" "d \<noteq> []" "r = dropWhile is_digit s"
    by (auto simp: take_digits_def Let_def split: if_splits)
  then show "s = d @ r" "d \<noteq> []" by simp_all
  have all: "\<forall>c \<in> set d. is_digit c" using d(1) set_takeWhileD by metis
  with d(2) show "is_digit (hd d)" by simp
  assume "r' = [] \<or> \<not> is_digit (hd r')"
  then have "takeWhile is_digit (d @ r') = d" "dropWhile is_digit (d @ r') = r'"
    using all by (cases r'; simp add: takeWhile_append dropWhile_append)+
  with d(2) show "take_digits (d @ r') = Some (d, r')" by (simp add: take_digits_def)
qed

lemma scan_integer_again:
  assumes "scan_integer s = Some (i, r)"
  shows "s = i @ r" and "i \<noteq> []" and "is_digit (hd i)"
    and "r' = [] \<or> \<not> is_digit (hd r') \<Longrightarrow> scan_integer (i @ r') = Some (i, r')"
proof -
  consider c where "s = c # r" "byte_nat c = 48" "i = [c]"
    | c s' where "s = c # s'" "byte_nat c \<noteq> 48" "take_digits s = Some (i, r)"
    using assms by (auto simp: scan_integer_def split: list.splits if_splits)
  then have "s = i @ r \<and> i \<noteq> [] \<and> is_digit (hd i)
    \<and> (r' = [] \<or> \<not> is_digit (hd r') \<longrightarrow> scan_integer (i @ r') = Some (i, r'))"
  proof cases
    case 1
    then show ?thesis by (simp add: scan_integer_def is_digit_def)
  next
    case 2
    note again = take_digits_again [OF 2(3)]
    then obtain i' where "i = hd i # i'" by (cases i) auto
    moreover have "hd i = c" using again(1,2) 2(1) by (cases i) auto
    ultimately show ?thesis using again 2(2) by (simp add: scan_integer_def split: list.splits)
  qed
  then show "s = i @ r" "i \<noteq> []" "is_digit (hd i)"
    "r' = [] \<or> \<not> is_digit (hd r') \<Longrightarrow> scan_integer (i @ r') = Some (i, r')" by blast+
qed

lemma digit_not_sign: "is_digit c \<Longrightarrow> byte_nat c \<notin> {43, 45, 46, 69, 101}"
  by (auto simp: is_digit_def)

lemma scan_fraction_again:
  assumes "scan_fraction s = Some (f, r)"
  shows "s = f @ r" and "f = [] \<or> byte_nat (hd f) = 46"
    and "r' = [] \<or> \<not> is_digit (hd r') \<and> byte_nat (hd r') \<noteq> 46 \<Longrightarrow> scan_fraction (f @ r') = Some (f, r')"
proof -
  consider "f = []" "r = s" | c s' d where "s = c # s'" "byte_nat c = 46" "take_digits s' = Some (d, r)" "f = c # d"
    using assms by (auto simp: scan_fraction_def prepend_Some split: list.splits if_splits)
  then have "s = f @ r \<and> (f = [] \<or> byte_nat (hd f) = 46)
    \<and> (r' = [] \<or> \<not> is_digit (hd r') \<and> byte_nat (hd r') \<noteq> 46 \<longrightarrow> scan_fraction (f @ r') = Some (f, r'))"
  proof cases
    case 1
    then show ?thesis by (auto simp: scan_fraction_def split: list.splits)
  next
    case 2
    then show ?thesis using take_digits_again(1-3) [OF 2(3)] take_digits_again(4) [OF 2(3), of r']
      by (auto simp: scan_fraction_def prepend_def)
  qed
  then show "s = f @ r" "f = [] \<or> byte_nat (hd f) = 46"
    "r' = [] \<or> \<not> is_digit (hd r') \<and> byte_nat (hd r') \<noteq> 46 \<Longrightarrow> scan_fraction (f @ r') = Some (f, r')"
    by blast+
qed

lemma scan_exponent_again:
  assumes "scan_exponent s = Some (e, r)"
  shows "s = e @ r" and "e = [] \<or> byte_nat (hd e) \<in> {69, 101}"
    and "ends_number r' \<Longrightarrow> scan_exponent (e @ r') = Some (e, r')"
proof -
  consider "e = []" "r = s"
    | c s' d where "s = c # s'" "byte_nat c \<in> {69, 101}" "take_digits s' = Some (d, r)" "e = c # d"
    | c g s' d where "s = c # g # s'" "byte_nat c \<in> {69, 101}" "byte_nat g = 43 \<or> byte_nat g = 45"
      "take_digits s' = Some (d, r)" "e = c # g # d"
    using assms by (auto simp: scan_exponent_def prepend_Some split: list.splits if_splits)
  then have "s = e @ r \<and> (e = [] \<or> byte_nat (hd e) \<in> {69, 101})
    \<and> (ends_number r' \<longrightarrow> scan_exponent (e @ r') = Some (e, r'))"
  proof cases
    case 1
    then show ?thesis by (auto simp: scan_exponent_def ends_number_def split: list.splits)
  next
    case 2
    note again = take_digits_again(1-3) [OF 2(3)] take_digits_again(4) [OF 2(3), of r']
    from again(2,3) obtain d1 d' where "d = d1 # d'" "is_digit d1" by (cases d) auto
    with 2 again(1,4) digit_not_sign [of d1] show ?thesis
      by (auto simp: scan_exponent_def prepend_def ends_number_def)
  next
    case 3
    with take_digits_again(1-3) [OF 3(4)] take_digits_again(4) [OF 3(4), of r'] show ?thesis
      by (auto simp: scan_exponent_def prepend_def ends_number_def)
  qed
  then show "s = e @ r" "e = [] \<or> byte_nat (hd e) \<in> {69, 101}"
    "ends_number r' \<Longrightarrow> scan_exponent (e @ r') = Some (e, r')" by blast+
qed

text \<open>The text of a number is its digits; the same number is read when it is followed by anything that ends it.\<close>

lemma scan_number_again:
  assumes "scan_number s = Some (x, r)"
  shows "s = x @ r" and "\<exists>c x'. x = c # x' \<and> (is_digit c \<or> byte_nat c = 45)"
    and "ends_number r' \<Longrightarrow> scan_number (x @ r') = Some (x, r')"
proof -
  define sign where "sign = (if s \<noteq> [] \<and> byte_nat (hd s) = 45 then [hd s] else [])"
  from assms obtain i s2 f s3 e where i: "scan_integer (drop (length sign) s) = Some (i, s2)"
    and f: "scan_fraction s2 = Some (f, s3)" and e: "scan_exponent s3 = Some (e, r)" and x: "x = sign @ i @ f @ e"
    by (auto simp: scan_number_def sign_def Let_def split: option.splits)
  note i' = scan_integer_again [OF i] and f' = scan_fraction_again [OF f] and e' = scan_exponent_again [OF e]
  have "s = sign @ drop (length sign) s" by (cases s) (auto simp: sign_def)
  with i'(1) f'(1) e'(1) x show "s = x @ r" by simp
  obtain c i1 where c: "i = c # i1" "is_digit c" using i'(2,3) by (cases i) auto
  then show "\<exists>c x'. x = c # x' \<and> (is_digit c \<or> byte_nat c = 45)" by (auto simp: x sign_def)
  assume r': "ends_number r'"
  have sign': "(if x @ r' \<noteq> [] \<and> byte_nat (hd (x @ r')) = 45 then [hd (x @ r')] else []) = sign"
    using c digit_not_sign [OF c(2)] by (auto simp: x sign_def)
  have "scan_exponent (e @ r') = Some (e, r')" using e'(3) r' .
  moreover have "scan_fraction (f @ e @ r') = Some (f, e @ r')"
    using e'(2) r' digit_not_sign by (intro f'(3)) (cases e; force simp: ends_number_def)
  moreover have "scan_integer (i @ f @ e @ r') = Some (i, f @ e @ r')"
    using f'(2) e'(2) r' digit_not_sign by (intro i'(4)) (cases f; cases e; force simp: ends_number_def)
  ultimately show "scan_number (x @ r') = Some (x, r')"
    unfolding scan_number_def Let_def sign' by (simp add: x)
qed

subsection \<open>Strings\<close>

lemma length_escape_char: "length (escape_char c) \<le> 6"
  by (simp add: escape_char_def Let_def hex_byte_def)

lemma escape_append: "escape (a @ b) = escape a @ escape b"
  by (simp add: escape_def)

lemma escape_wide_byte: "128 \<le> n \<Longrightarrow> n < 256 \<Longrightarrow> length (escape_char (nat_byte n)) = 1"
  by (simp add: escape_char_other)

lemma length_escape_utf8:
  assumes "n < 1114112"
  shows "length (escape (utf8_encode n)) \<le> 6" and "65536 \<le> n \<Longrightarrow> length (escape (utf8_encode n)) \<le> 12"
proof -
  have "n mod 64 < 64" "n div 64 mod 64 < 64" "n div 4096 mod 64 < 64" by simp_all
  then have cont: "length (escape_char (nat_byte (128 + n mod 64))) = 1"
    "length (escape_char (nat_byte (128 + n div 64 mod 64))) = 1"
    "length (escape_char (nat_byte (128 + n div 4096 mod 64))) = 1"
    by (simp_all add: escape_wide_byte)
  have "n < 2048 \<Longrightarrow> n div 64 < 32" "n < 65536 \<Longrightarrow> n div 4096 < 16" "n div 262144 < 16"
    using assms by (simp_all add: less_mult_imp_div_less)
  then have lead: "n < 2048 \<Longrightarrow> length (escape_char (nat_byte (192 + n div 64))) = 1"
    "n < 65536 \<Longrightarrow> length (escape_char (nat_byte (224 + n div 4096))) = 1"
    "length (escape_char (nat_byte (240 + n div 262144))) = 1"
    by (simp_all add: escape_wide_byte)
  show "length (escape (utf8_encode n)) \<le> 6" using cont lead length_escape_char [of "nat_byte n"]
    by (simp add: utf8_encode_def)
  then show "length (escape (utf8_encode n)) \<le> 12" by simp
qed

lemma hex_value_less: "hex_value c = Some n \<Longrightarrow> n < 16"
  by (auto simp: hex_value_def Let_def split: if_splits)

lemma hex4_less: "hex4 a b c d = Some n \<Longrightarrow> n < 65536"
  by (auto simp: hex4_def split: option.splits dest!: hex_value_less)

lemma length_escape_simple: "simple_escape e = Some x \<Longrightarrow> length (escape [x]) \<le> 2"
  by (auto simp: simple_escape_def escape_char_def Let_def split: if_splits)

lemma scan_string_unit:
  assumes "scan_string s = Some (t, r)"
  shows "(\<exists>c. s = c # r \<and> byte_nat c = 34 \<and> t = [])
    \<or> (\<exists>u a s' t'. s = u @ s' \<and> t = a @ t' \<and> u \<noteq> [] \<and> scan_string s' = Some (t', r)
        \<and> (\<forall>q. scan_string (u @ q) = prepend a (scan_string q)) \<and> length (escape a) \<le> length u)"
    (is "_ \<or> (\<exists>u a s' t'. ?unit u a s' t')")
proof (cases s)
  case (Cons c s1)
  consider (quote) "byte_nat c = 34" | (backslash) "byte_nat c = 92" | (plain) "byte_nat c \<noteq> 34" "byte_nat c \<noteq> 92"
    by blast
  then show ?thesis
  proof cases
    case quote
    with assms Cons show ?thesis by simp
  next
    case plain
    with assms Cons have ge: "32 \<le> byte_nat c" and pre: "prepend [c] (scan_string s1) = Some (t, r)"
      by (auto split: if_splits)
    from pre obtain t' where "scan_string s1 = Some (t', r)" "t = [c] @ t'" unfolding prepend_Some by blast
    moreover have "escape_char c = [c]" using plain ge by (simp add: escape_char_def Let_def)
    ultimately have "?unit [c] [c] s1 t'" using plain ge Cons by simp
    then show ?thesis by blast
  next
    case backslash
    with assms Cons obtain e s2 where s2: "s1 = e # s2" by (auto split: list.splits)
    show ?thesis
    proof (cases "byte_nat e = 117")
      case False
      with assms Cons backslash s2 obtain x where x: "simple_escape e = Some x"
        "prepend [x] (scan_string s2) = Some (t, r)" by (auto split: option.splits)
      then obtain t' where "scan_string s2 = Some (t', r)" "t = [x] @ t'" unfolding prepend_Some by blast
      with x(1) False backslash Cons s2 length_escape_simple [OF x(1)] have "?unit [c, e] [x] s2 t'" by simp
      then show ?thesis by blast
    next
      case True
      with assms Cons backslash s2 obtain a1 a2 a3 a4 s3 n where h: "s2 = a1 # a2 # a3 # a4 # s3"
        "hex4 a1 a2 a3 a4 = Some n" by (auto split: list.splits option.splits)
      show ?thesis
      proof (cases "55296 \<le> n \<and> n < 56320")
        case False
        with assms Cons backslash s2 True h have low: "\<not> (56320 \<le> n \<and> n < 57344)"
          and pre: "prepend (utf8_encode n) (scan_string s3) = Some (t, r)" by (auto split: if_splits)
        from pre obtain t' where "scan_string s3 = Some (t', r)" "t = utf8_encode n @ t'"
          unfolding prepend_Some by blast
        with False low True backslash Cons s2 h length_escape_utf8(1) [of n] hex4_less [OF h(2)]
        have "?unit [c, e, a1, a2, a3, a4] (utf8_encode n) s3 t'" by auto
        then show ?thesis by blast
      next
        case pair: True
        with assms Cons backslash s2 True h obtain b1 b2 c1 c2 c3 c4 s4 m where g:
          "s3 = b1 # b2 # c1 # c2 # c3 # c4 # s4" "hex4 c1 c2 c3 c4 = Some m" "byte_nat b1 = 92"
          "byte_nat b2 = 117" "56320 \<le> m" "m < 57344"
          "prepend (utf8_encode (65536 + (n - 55296) * 1024 + (m - 56320))) (scan_string s4) = Some (t, r)"
          by (auto split: list.splits option.splits if_splits)
        let ?v = "65536 + (n - 55296) * 1024 + (m - 56320)"
        from g(7) obtain t' where "scan_string s4 = Some (t', r)" "t = utf8_encode ?v @ t'"
          unfolding prepend_Some by blast
        moreover have "?v < 1114112" "65536 \<le> ?v" using pair g(5,6) by auto
        ultimately have "?unit [c, e, a1, a2, a3, a4, b1, b2, c1, c2, c3, c4] (utf8_encode ?v) s4 t'"
          using pair True backslash Cons s2 h g length_escape_utf8(2) [of ?v] by simp
        then show ?thesis by blast
      qed
    qed
  qed
qed (use assms in simp)

text \<open>A string is read from its own bytes only, and its canonical text is not longer.\<close>

lemma scan_string_text:
  assumes "scan_string s = Some (t, r)"
  obtains p where "s = p @ r" and "length (escape t) < length p" and "\<And>q. scan_string (p @ q) = Some (t, q)"
  using assms
proof (induction s arbitrary: t thesis rule: measure_induct_rule [where f = length])
  case (less s)
  from scan_string_unit [OF less.prems(2)] show ?case
  proof (elim disjE exE conjE)
    fix c
    assume "s = c # r" "byte_nat c = 34" "t = []"
    then show thesis using less.prems(1) [of "[c]"] by simp
  next
    fix u a s' t'
    assume u: "s = u @ s'" "t = a @ t'" "u \<noteq> []" "scan_string s' = Some (t', r)"
      "\<forall>q. scan_string (u @ q) = prepend a (scan_string q)" "length (escape a) \<le> length u"
    then have "length s' < length s" by simp
    from less.IH [OF this _ u(4)] obtain p where "s' = p @ r" "length (escape t') < length p"
      "\<And>q. scan_string (p @ q) = Some (t', q)" by blast
    with u show thesis by (intro less.prems(1) [of "u @ p"]) (simp_all add: prepend_def escape_append)
  qed
qed

subsection \<open>Tokens\<close>

definition ends_token :: "jtoken \<Rightarrow> string \<Rightarrow> bool" where
  "ends_token t q \<longleftrightarrow> (case t of TNumber _ \<Rightarrow> ends_number q | _ \<Rightarrow> True)"

lemma skip_ws_split: obtains w where "s = w @ skip_ws s" and "\<And>q. skip_ws (w @ q) = skip_ws q"
proof (induction s arbitrary: thesis)
  case (Cons c s)
  show ?case
  proof (cases "is_json_space c")
    case True
    obtain w where "s = w @ skip_ws s" "\<And>q. skip_ws (w @ q) = skip_ws q" using Cons.IH by blast
    with True show ?thesis by (intro Cons.prems [of "c # w"]) auto
  qed (use Cons.prems [of "[]"] in simp)
qed (use that [of "[]"] in simp)

lemma literal_text:
  assumes "literal w t st s = JToken t' st' r"
  shows "s = w @ r" and "t' = t" and "literal w t st (w @ q) = JToken t st' q"
  using assms
  by (auto simp: literal_def has_prefix_def split: if_splits) (metis append_take_drop_id)

lemma quote_not_close [simp]: "quote \<noteq> CHR '']''"
  by code_simp

lemma read_value_text:
  assumes "read_value st s = JToken t st' r"
  obtains p where "s = p @ r" and "length (token_text t) \<le> length p"
    and "\<And>q. ends_token t q \<Longrightarrow> read_value st (p @ q) = JToken t st' q"
    and "\<And>q. ends_token t q \<Longrightarrow> read_value st (token_text t @ q) = JToken t st' q"
    and "\<exists>c x. token_text t = c # x \<and> \<not> is_json_space c \<and> c \<noteq> CHR '']''"
proof -
  from assms obtain c s1 where s: "s = c # s1" by (cases s) (auto simp: read_value_def)
  consider (object) "c = CHR ''{''" | (array) "c = CHR ''[''" | (string) "byte_nat c = 34"
    | (null) "c = CHR ''n''" | (true) "c = CHR ''t''" | (false) "c = CHR ''f''"
    | (number) "c \<notin> {CHR ''{'', CHR ''['', CHR ''n'', CHR ''t'', CHR ''f''}" "byte_nat c \<noteq> 34"
    by blast
  then show thesis
  proof cases
    case object
    with assms s that [of "[c]"] show ?thesis
      by (auto simp: read_value_def open_container_def is_json_space_def byte_nat_def split: if_splits)
  next
    case array
    with assms s that [of "[c]"] show ?thesis
      by (auto simp: read_value_def open_container_def is_json_space_def byte_nat_def split: if_splits)
  next
    case string
    then have c: "c = quote" by (metis nat_byte_nat quote_def)
    with assms s obtain x where x: "t = TString x" "scan_string s1 = Some (x, r)" "utf8_valid x" "st' = value_done st"
      by (auto simp: read_value_def split: option.splits if_splits)
    obtain p where "s1 = p @ r" "length (escape x) < length p" "\<And>q. scan_string (p @ q) = Some (x, q)"
      using scan_string_text [OF x(2)] by blast
    with x c s show ?thesis
      by (intro that [of "c # p"]) (auto simp: read_value_def scan_escape ends_token_def)
  next
    case null
    with assms s have "literal ''null'' TNull st s = JToken t st' r" by (auto simp: read_value_def byte_nat_def)
    from literal_text [OF this] show ?thesis
      by (intro that [of "''null''"]) (auto simp: read_value_def byte_nat_def is_json_space_def)
  next
    case true
    with assms s have "literal ''true'' TTrue st s = JToken t st' r" by (auto simp: read_value_def byte_nat_def)
    from literal_text [OF this] show ?thesis
      by (intro that [of "''true''"]) (auto simp: read_value_def byte_nat_def is_json_space_def)
  next
    case false
    with assms s have "literal ''false'' TFalse st s = JToken t st' r" by (auto simp: read_value_def byte_nat_def)
    from literal_text [OF this] show ?thesis
      by (intro that [of "''false''"]) (auto simp: read_value_def byte_nat_def is_json_space_def)
  next
    case number
    with assms s obtain x where x: "t = TNumber x" "scan_number s = Some (x, r)" "st' = value_done st"
      by (auto simp: read_value_def split: option.splits)
    note again = scan_number_again [OF x(2)]
    from again(1,2) s have "hd x = c" "x = c # tl x" by auto
    with number have read: "read_value st (x @ q) = JToken t st' q" if "ends_token t q" for q
      using again(3) [of q] x that by (cases x) (auto simp: read_value_def ends_token_def)
    from again(2) have start: "\<exists>c y. x = c # y \<and> \<not> is_json_space c \<and> c \<noteq> CHR '']''"
      by (auto simp: is_json_space_def is_digit_def byte_nat_def)
    show ?thesis by (rule that [of x]) (use x again(1) read start in auto)
  qed
qed

lemma read_name_text:
  assumes "read_name ns up s = JToken t st' r"
  obtains p x where "t = TString x" and "s = p @ r" and "length (token_text t) \<le> length p"
    and "\<And>q. read_name ns up (p @ q) = JToken t st' q" and "\<And>q. read_name ns up (token_text t @ q) = JToken t st' q"
proof -
  from assms obtain s1 x where x: "s = quote # s1" "scan_string s1 = Some (x, r)" "utf8_valid x" "x \<notin> set ns"
    "t = TString x" "st' = FObject (x # ns) True # up"
    by (auto simp: read_name_def quote_def split: list.splits option.splits if_splits) (metis nat_byte_nat)
  obtain p where "s1 = p @ r" "length (escape x) < length p" "\<And>q. scan_string (p @ q) = Some (x, q)"
    using scan_string_text [OF x(2)] by blast
  with x show thesis by (intro that [of x "quote # p"]) (auto simp: read_name_def scan_escape)
qed

text \<open>
  A token is read from its own text, with the separator before it, and it is read again from the text
  the encoder writes for it.
\<close>

definition same_token :: "jstack \<Rightarrow> string \<Rightarrow> jtoken \<Rightarrow> jstack \<Rightarrow> string \<Rightarrow> string \<Rightarrow> bool" where
  "same_token st s t st' r p \<longleftrightarrow> s = p @ r \<and> length (written st t) \<le> length p
     \<and> (\<forall>q. ends_token t q \<longrightarrow> read_token st (p @ q) = JToken t st' q
          \<and> read_token st (written st t @ q) = JToken t st' q)"

lemma same_tokenI:
  assumes "s = p @ r" and "separator st t @ token_text t = x" and "length x \<le> length p"
    and "\<And>q. ends_token t q \<Longrightarrow> read_token st (p @ q) = JToken t st' q"
    and "\<And>q. ends_token t q \<Longrightarrow> read_token st (x @ q) = JToken t st' q"
  shows "\<exists>p. same_token st s t st' r p"
  unfolding same_token_def written_def using assms by blast

definition value_text :: "jstack \<Rightarrow> string \<Rightarrow> jtoken \<Rightarrow> jstack \<Rightarrow> string \<Rightarrow> string \<Rightarrow> bool" where
  "value_text st v t st' r p \<longleftrightarrow> v = p @ r \<and> length (token_text t) \<le> length p
     \<and> p \<noteq> [] \<and> hd p = hd v \<and> token_text t \<noteq> [] \<and> hd (token_text t) \<noteq> CHR '']''
     \<and> (\<forall>q. ends_token t q \<longrightarrow> read_value st (p @ q) = JToken t st' q
          \<and> read_value st (token_text t @ q) = JToken t st' q)
     \<and> (\<forall>q. skip_ws (p @ q) = p @ q \<and> skip_ws (token_text t @ q) = token_text t @ q)"

lemma read_value_front:
  assumes "read_value st v = JToken t st' r" and "skip_ws v = v"
  shows "\<exists>p. value_text st v t st' r p"
proof -
  obtain p where p: "v = p @ r" "length (token_text t) \<le> length p"
    "\<And>q. ends_token t q \<Longrightarrow> read_value st (p @ q) = JToken t st' q"
    "\<And>q. ends_token t q \<Longrightarrow> read_value st (token_text t @ q) = JToken t st' q"
    "\<exists>c x. token_text t = c # x \<and> \<not> is_json_space c \<and> c \<noteq> CHR '']''"
    using read_value_text [OF assms(1)] by blast
  from p(2,5) obtain c x where c: "p = c # x" by (cases p) auto
  with assms(2) p(1) have "\<not> is_json_space c" using skip_ws_Cons by fastforce
  with p c have "value_text st v t st' r p" unfolding value_text_def by auto
  then show ?thesis ..
qed

lemma read_name_quote: "read_name ns up (c # x) = JToken t st' r \<Longrightarrow> c = quote"
  by (auto simp: read_name_def quote_def nat_byte_eq split: if_splits)

definition name_text :: "string list \<Rightarrow> jstack \<Rightarrow> string \<Rightarrow> jtoken \<Rightarrow> jstack \<Rightarrow> string \<Rightarrow> string \<Rightarrow> bool" where
  "name_text ns up v t st' r p \<longleftrightarrow> v = p @ r \<and> length (token_text t) \<le> length p
     \<and> (\<exists>p'. p = quote # p') \<and> (\<exists>x. t = TString x)
     \<and> (\<forall>q. read_name ns up (p @ q) = JToken t st' q \<and> read_name ns up (token_text t @ q) = JToken t st' q)"

lemma read_name_front:
  assumes "read_name ns up v = JToken t st' r"
  shows "\<exists>p. name_text ns up v t st' r p"
proof -
  obtain p x where p: "t = TString x" "v = p @ r" "length (token_text t) \<le> length p"
    "\<And>q. read_name ns up (p @ q) = JToken t st' q" "\<And>q. read_name ns up (token_text t @ q) = JToken t st' q"
    using read_name_text [OF assms] by blast
  from p(1,3) have "p \<noteq> []" by auto
  moreover from this p(4) [of "[]"] have "hd p = quote" by (cases p) (auto dest: read_name_quote)
  ultimately have "name_text ns up v t st' r p" using p unfolding name_text_def by (cases p) auto
  then show ?thesis ..
qed

lemma read_token_text:
  assumes tok: "read_token st s = JToken t st' r"
  shows "\<exists>p. same_token st s t st' r p"
proof -
  obtain w where ws: "s = w @ skip_ws s" and w: "\<And>q. skip_ws (w @ q) = skip_ws q" using skip_ws_split by blast
  have idem: "skip_ws (skip_ws x) = skip_ws x" for x by (induction x) auto
  show ?thesis
  proof (cases "(st, s)" rule: read_token.cases)
    case (1 s0)
    with tok have st: "st = []" and v: "read_value [] (skip_ws s) = JToken t st' r" by (simp_all split: if_splits)
    from read_value_front [OF v idem] obtain p where p: "value_text [] (skip_ws s) t st' r p" ..
    then have rest: "skip_ws s = p @ r" by (simp add: value_text_def)
    show ?thesis
      by (rule same_tokenI [of _ "w @ p" _ _ _ "token_text t"])
        (use st ws [unfolded rest] p w in \<open>simp_all add: separator_def value_text_def\<close>)
  next
    case (2 started up s0)
    then obtain c v where v: "skip_ws s = c # v" using tok by (auto split: list.splits)
    have st: "st = FArray started # up" using 2 by simp
    consider (close) "c = CHR '']''" "t = TEndArray" "st' = up" "r = v"
      | (first) "c \<noteq> CHR '']''" "\<not> started" "read_value st (c # v) = JToken t st' r"
      | (next_value) "c = CHR '',''" "started" "read_value st (skip_ws v) = JToken t st' r"
      using tok st v by (auto split: if_splits)
    then show ?thesis
    proof cases
      case close
      show ?thesis
        by (rule same_tokenI [of _ "w @ [c]" _ _ _ "'']''"])
          (use st ws [unfolded v] close w in \<open>simp_all add: separator_def is_json_space_def byte_nat_def\<close>)
    next
      case first
      have "skip_ws (c # v) = c # v" using idem [of s] unfolding v .
      from read_value_front [OF first(3) this] obtain p where p: "value_text st (c # v) t st' r p" ..
      then have cv: "c # v = p @ r" and hd: "hd p = c" by (simp_all add: value_text_def)
      have front: "read_token st (x @ q) = read_value st (x @ q)"
        if "x \<noteq> []" "hd x \<noteq> CHR '']''" "skip_ws (x @ q) = x @ q" for x q
        using that first(2) by (cases x) (simp_all add: st)
      show ?thesis
        by (rule same_tokenI [of _ "w @ p" _ _ _ "token_text t"])
          (use ws [unfolded v cv] p w first(1,2) front hd in \<open>simp_all add: separator_def st value_text_def\<close>)
    next
      case next_value
      from read_value_front [OF next_value(3) idem] obtain p where p: "value_text st (skip_ws v) t st' r p" ..
      then have rest: "skip_ws v = p @ r" by (simp add: value_text_def)
      obtain u where us: "v = u @ skip_ws v" and u: "\<And>q. skip_ws (u @ q) = skip_ws q" using skip_ws_split by blast
      have "t \<noteq> TEndArray" using p by (auto simp: value_text_def)
      then show ?thesis
        by (intro same_tokenI [of _ "w @ CHR '','' # u @ p" _ _ _ "CHR '','' # token_text t"])
          (use ws [unfolded v us [unfolded rest]] p w u next_value(1,2)
            in \<open>simp_all add: separator_def st value_text_def\<close>)
    qed
  next
    case (3 ns up s0)
    then obtain c v where v: "skip_ws s = c # v" using tok by (auto split: list.splits)
    have st: "st = FObject ns False # up" using 3 by simp
    consider (close) "c = CHR ''}''" "t = TEndObject" "st' = up" "r = v"
      | (first) "c \<noteq> CHR ''}''" "ns = []" "read_name ns up (c # v) = JToken t st' r"
      | (next_name) "c = CHR '',''" "ns \<noteq> []" "read_name ns up (skip_ws v) = JToken t st' r"
      using tok st v by (auto split: if_splits)
    then show ?thesis
    proof cases
      case close
      show ?thesis
        by (rule same_tokenI [of _ "w @ [c]" _ _ _ "''}''"])
          (use st ws [unfolded v] close w in \<open>simp_all add: separator_def is_json_space_def byte_nat_def\<close>)
    next
      case first
      from read_name_front [OF first(3)] obtain p where p: "name_text ns up (c # v) t st' r p" ..
      then have cv: "c # v = p @ r" by (simp add: name_text_def)
      show ?thesis
        by (rule same_tokenI [of _ "w @ p" _ _ _ "token_text t"])
          (use ws [unfolded v cv] p w first(2) in \<open>auto simp add: separator_def st name_text_def\<close>)
    next
      case next_name
      from read_name_front [OF next_name(3)] obtain p where p: "name_text ns up (skip_ws v) t st' r p" ..
      then have rest: "skip_ws v = p @ r" by (simp add: name_text_def)
      obtain u where us: "v = u @ skip_ws v" and u: "\<And>q. skip_ws (u @ q) = skip_ws q" using skip_ws_split by blast
      show ?thesis
        by (rule same_tokenI [of _ "w @ CHR '','' # u @ p" _ _ _ "CHR '','' # token_text t"])
          (use ws [unfolded v us [unfolded rest]] p w u next_name(1,2)
            in \<open>auto simp add: separator_def st name_text_def\<close>)
    qed
  next
    case (4 ns up s0)
    then obtain c v where v: "skip_ws s = c # v" using tok by (auto split: list.splits)
    have st: "st = FObject ns True # up" using 4 by simp
    with tok v have c: "c = CHR '':''" and val: "read_value st (skip_ws v) = JToken t st' r" by (auto split: if_splits)
    from read_value_front [OF val idem] obtain p where p: "value_text st (skip_ws v) t st' r p" ..
    then have rest: "skip_ws v = p @ r" by (simp add: value_text_def)
    obtain u where us: "v = u @ skip_ws v" and u: "\<And>q. skip_ws (u @ q) = skip_ws q" using skip_ws_split by blast
    show ?thesis
      by (rule same_tokenI [of _ "w @ CHR '':'' # u @ p" _ _ _ "CHR '':'' # token_text t"])
        (use ws [unfolded v us [unfolded rest]] p w u c in \<open>simp_all add: separator_def st value_text_def\<close>)
  qed
qed

subsection \<open>Values\<close>

text \<open>After a number within a container only a comma, a name or the end of the container is read.\<close>

lemma number_top:
  assumes "read_token st s = JToken (TNumber x) st' r" and "st' \<noteq> []"
  shows "(\<exists>up. st' = FArray True # up) \<or> (\<exists>ns up. st' = FObject ns False # up)"
proof -
  have "st' = value_done st"
    using assms(1)
    by (cases "(st, s)" rule: read_token.cases)
      (auto simp: read_value_def read_name_def open_container_def literal_def
        split: if_splits list.splits option.splits)
  with assms(2) show ?thesis by (auto simp: value_done_def split: list.splits frame.splits)
qed

lemma ends_number_skip: "ends_number (skip_ws x) \<Longrightarrow> ends_number x"
  by (cases x) (auto simp: ends_number_def is_json_space_def is_digit_def split: if_splits)

lemma read_ends_number:
  assumes "read_token st x = JToken t st' r"
    and "(\<exists>up. st = FArray True # up) \<or> (\<exists>ns up. st = FObject ns False # up)"
  shows "ends_number x"
proof -
  have "ends_number (skip_ws x)"
    using assms
    by (auto simp: ends_number_def is_digit_def byte_nat_def read_name_def split: list.splits if_splits)
  then show ?thesis by (rule ends_number_skip)
qed

lemma compact_value_read:
  "compact_value d st s = Some x \<Longrightarrow> \<exists>t st' r. read_token st s = JToken t st' r"
  by (auto simp: compact_value.simps [of d st s] split: jread.splits)

lemma compact_ends_token:
  assumes "read_token st s = JToken t st1 r" and "st1 \<noteq> []" and "compact_value d st1 x = Some y"
  shows "ends_token t x"
proof (cases t)
  case (TNumber n)
  from compact_value_read [OF assms(3)] obtain t' st' r' where "read_token st1 x = JToken t' st' r'" by blast
  from read_ends_number [OF this number_top [OF assms(1) [unfolded TNumber] assms(2)]] TNumber
  show ?thesis by (simp add: ends_token_def)
qed (simp_all add: ends_token_def)

text \<open>A value is read from its own text, and what is written for it reads back as the same tokens.\<close>

lemma compact_value_text:
  assumes "compact_value d st s = Some (out, st', r)"
  shows "\<exists>p. s = p @ r \<and> length out \<le> length p
    \<and> (\<forall>q. ends_number q \<longrightarrow> compact_value d st (p @ q) = Some (out, st', q)
        \<and> compact_value d st (out @ q) = Some (out, st', q))"
  using assms
proof (induction d st s arbitrary: out rule: compact_value.induct)
  case (1 d st s)
  from compact_value_read [OF "1.prems"] obtain t st1 r1 where tok: "read_token st s = JToken t st1 r1" by blast
  from read_token_text [OF tok] obtain p where p: "s = p @ r1" "length (written st t) \<le> length p"
    "\<And>q. ends_token t q \<Longrightarrow> read_token st (p @ q) = JToken t st1 q"
    "\<And>q. ends_token t q \<Longrightarrow> read_token st (written st t @ q) = JToken t st1 q"
    by (auto simp: same_token_def)
  show ?case
  proof (cases "length st1 \<le> d")
    case True
    with "1.prems" tok have "out = written st t" "st' = st1" "r = r1"
      by (simp_all add: compact_value.simps [of d st s])
    moreover have "ends_number q \<Longrightarrow> ends_token t q" for q by (simp add: ends_token_def split: jtoken.splits)
    ultimately show ?thesis using p True
      by (intro exI [of _ p]) (simp add: compact_value.simps [of d st])
  next
    case False
    with "1.prems" tok obtain o2 where o2: "compact_value d st1 r1 = Some (o2, st', r)" "out = written st t @ o2"
      by (auto simp: compact_value.simps [of d st s])
    from "1.IH" [OF tok False o2(1)] obtain p2 where p2: "r1 = p2 @ r" "length o2 \<le> length p2"
      "\<And>q. ends_number q \<Longrightarrow> compact_value d st1 (p2 @ q) = Some (o2, st', q)"
      "\<And>q. ends_number q \<Longrightarrow> compact_value d st1 (o2 @ q) = Some (o2, st', q)" by blast
    from False have "st1 \<noteq> []" by auto
    note ends = compact_ends_token [OF tok this]
    have "compact_value d st (p @ p2 @ q) = Some (out, st', q) \<and> compact_value d st (out @ q) = Some (out, st', q)"
      if "ends_number q" for q
      using p(3) [OF ends [OF p2(3) [OF that]]] p(4) [OF ends [OF p2(4) [OF that]]] p2(3,4) [OF that] False
      by (simp add: o2(2) compact_value.simps [of d st])
    with p(1,2) p2(1,2) show ?thesis by (intro exI [of _ "p @ p2"]) (simp add: o2(2))
  qed
qed

subsection \<open>The containers around a value\<close>

text \<open>
  Reading a value depends on the open containers by their number and by the top one only: a member's
  value is the same in any object at the same depth.
\<close>

lemma read_value_shape:
  "\<exists>res. \<forall>st. read_value st s =
    (case res of None \<Rightarrow> JError
     | Some (t, opened, r) \<Rightarrow>
         if opened \<noteq> [] \<and> length st = max_nesting then JError else JToken t (opened @ value_done st) r)"
    (is "\<exists>res. \<forall>st. ?reads res st")
proof (cases s)
  case Nil
  then have "\<forall>st. ?reads None st" by (simp add: read_value_def)
  then show ?thesis by blast
next
  case (Cons c s1)
  have lit: "\<exists>res. \<forall>st. literal w t st s
    = (case res of None \<Rightarrow> JError
       | Some (t, opened, r) \<Rightarrow>
           if opened \<noteq> [] \<and> length st = max_nesting then JError else JToken t (opened @ value_done st) r)" for w t
    by (rule exI [of _ "if has_prefix s w then Some (t, [], drop (length w) s) else None"])
      (simp add: literal_def)
  consider (object) "c = CHR ''{''" | (array) "c = CHR ''[''" | (string) "c = quote"
    | (null) "c = CHR ''n''" | (true) "c = CHR ''t''" | (false) "c = CHR ''f''"
    | (number) "c \<notin> {CHR ''{'', CHR ''['', CHR ''n'', CHR ''t'', CHR ''f''}" "byte_nat c \<noteq> 34"
    using nat_byte_eq [of c 34] unfolding quote_def by blast
  then show ?thesis
  proof cases
    case object
    with Cons have "\<forall>st. ?reads (Some (TBeginObject, [FObject [] False], s1)) st"
      by (simp add: read_value_def open_container_def)
    then show ?thesis by blast
  next
    case array
    with Cons have "\<forall>st. ?reads (Some (TBeginArray, [FArray False], s1)) st"
      by (simp add: read_value_def open_container_def)
    then show ?thesis by blast
  next
    case string
    with Cons have "\<forall>st. ?reads (case scan_string s1 of None \<Rightarrow> None
      | Some (t, r2) \<Rightarrow> if utf8_valid t then Some (TString t, [], r2) else None) st"
      by (simp add: read_value_def split: option.splits)
    then show ?thesis by blast
  next
    case number
    with Cons have "\<forall>st. ?reads (case scan_number s of None \<Rightarrow> None | Some (t, r2) \<Rightarrow> Some (TNumber t, [], r2)) st"
      by (simp add: read_value_def split: option.splits)
    then show ?thesis by blast
  next
    case null
    then have "read_value st s = literal ''null'' TNull st s" for st
      using Cons by (simp add: read_value_def byte_nat_def)
    then show ?thesis using lit by simp
  next
    case true
    then have "read_value st s = literal ''true'' TTrue st s" for st
      using Cons by (simp add: read_value_def byte_nat_def)
    then show ?thesis using lit by simp
  next
    case false
    then have "read_value st s = literal ''false'' TFalse st s" for st
      using Cons by (simp add: read_value_def byte_nat_def)
    then show ?thesis using lit by simp
  qed
qed

lemma value_done_Cons: "\<exists>g. \<forall>up. value_done (f # up) = g # up"
  by (cases f) (auto simp: value_done_def)

lemma read_value_base:
  assumes "read_value (f # pre @ base) s = JToken t st' r" and "length base' = length base"
  shows "\<exists>pre'. st' = pre' @ base \<and> read_value (f # pre @ base') s = JToken t (pre' @ base') r"
proof -
  from read_value_shape [of s] obtain res where "\<And>st. read_value st s =
    (case res of None \<Rightarrow> JError
     | Some (t, opened, r) \<Rightarrow>
         if opened \<noteq> [] \<and> length st = max_nesting then JError else JToken t (opened @ value_done st) r)" by blast
  with assms obtain opened where o: "st' = opened @ value_done (f # pre @ base)"
    "read_value (f # pre @ base') s = JToken t (opened @ value_done (f # pre @ base')) r"
    by (auto split: option.splits if_splits)
  from value_done_Cons [of f] obtain g where "\<And>up. value_done (f # up) = g # up" by blast
  with o show ?thesis by (intro exI [of _ "opened @ g # pre"]) simp
qed

lemma read_name_base:
  "read_name ns (pre @ base) s = JToken t st' r \<Longrightarrow>
    \<exists>pre'. st' = pre' @ base \<and> read_name ns (pre @ base') s = JToken t (pre' @ base') r"
  by (auto simp: read_name_def split: if_splits option.splits list.splits)

lemma read_token_base:
  assumes "read_token (f # pre @ base) s = JToken t st' r" and "length base' = length base"
  shows "\<exists>pre'. st' = pre' @ base \<and> read_token (f # pre @ base') s = JToken t (pre' @ base') r"
proof (cases f)
  case (FArray started)
  with assms read_value_base [OF _ assms(2)] show ?thesis
    by (auto split: list.splits if_splits)
next
  case (FObject ns due)
  with assms read_value_base [OF _ assms(2)] read_name_base show ?thesis
    by (cases due) (auto split: list.splits if_splits)
qed

lemma written_top: "written (f # up) t = separator [f] t @ token_text t"
  by (simp add: written_def separator_def)

lemma compact_value_base:
  assumes "compact_value (length base) (f # pre @ base) s = Some (out, st', r)"
    and "length base' = length base"
  shows "st' = base \<and> compact_value (length base') (f # pre @ base') s = Some (out, base', r)"
  using assms
proof (induction "length base" "f # pre @ base" s arbitrary: f pre out rule: compact_value.induct)
  case (1 s f pre)
  from compact_value_read [OF "1.prems"(1)] obtain t st1 r1
    where tok: "read_token (f # pre @ base) s = JToken t st1 r1" by blast
  from read_token_base [OF tok "1.prems"(2)] obtain pre1 where pre1: "st1 = pre1 @ base"
    "read_token (f # pre @ base') s = JToken t (pre1 @ base') r1" by blast
  note step = compact_value.simps [of "length base" "f # pre @ base" s]
    compact_value.simps [of _ "f # pre @ base'" s]
  show ?case
  proof (cases pre1)
    case Nil
    with pre1 tok "1.prems" show ?thesis by (simp add: step written_top)
  next
    case (Cons g pre2)
    with "1.prems"(1) tok pre1 obtain o2 where o2: "compact_value (length base) (g # pre2 @ base) r1 = Some (o2, st', r)"
      "out = written (f # pre @ base) t @ o2" by (auto simp: step)
    have "st' = base \<and> compact_value (length base') (g # pre2 @ base') r1 = Some (o2, base', r)"
      by (rule "1.hyps") (use tok pre1 Cons o2 "1.prems"(2) in auto)
    with pre1 tok Cons o2 "1.prems"(2) show ?thesis by (simp add: step written_top)
  qed
qed

text \<open>The value of a member, moved to another object at the same depth.\<close>

lemma compact_member:
  assumes "compact_value (Suc (length up)) (FObject ns True # up) s = Some (out, st', r)"
    and "length up' = length up"
  shows "st' = FObject ns False # up
    \<and> compact_value (Suc (length up)) (FObject ns' True # up') s = Some (out, FObject ns' False # up', r)"
proof -
  from compact_value_read [OF assms(1)] obtain t st1 r1
    where tok: "read_token (FObject ns True # up) s = JToken t st1 r1" by blast
  then obtain v where v: "skip_ws s = CHR '':'' # v" "read_value (FObject ns True # up) (skip_ws v) = JToken t st1 r1"
    by (auto split: list.splits if_splits)
  from read_value_shape [of "skip_ws v"] obtain res where "\<And>st. read_value st (skip_ws v) =
    (case res of None \<Rightarrow> JError
     | Some (t, opened, r) \<Rightarrow>
         if opened \<noteq> [] \<and> length st = max_nesting then JError else JToken t (opened @ value_done st) r)" by blast
  with v assms(2) obtain opened where o: "st1 = opened @ FObject ns False # up"
    "read_token (FObject ns' True # up') s = JToken t (opened @ FObject ns' False # up') r1"
    by (auto simp: value_done_def split: option.splits if_splits)
  note step = compact_value.simps [of _ "FObject _ True # _" s]
  show ?thesis
  proof (cases opened)
    case Nil
    with tok o assms show ?thesis by (simp add: step written_top separator_def del: read_token.simps)
  next
    case (Cons g pre)
    with tok o assms obtain o2 where o2: "out = written (FObject ns True # up) t @ o2"
      "compact_value (length (FObject ns False # up)) (g # pre @ FObject ns False # up) r1 = Some (o2, st', r)"
      by (auto simp: step simp del: read_token.simps)
    from compact_value_base [OF o2(2), of "FObject ns' False # up'"] assms(2) o2(1) Cons o(2) show ?thesis
      by (simp add: step written_top separator_def del: read_token.simps)
  qed
qed

text \<open>The text of the value itself, without the white space before it and what follows it.\<close>

lemma compact_raw:
  assumes "compact_value d (FObject ns True # up) s = Some (out, st', r)"
  shows "compact_value d (FObject ns True # up) (CHR '':'' # raw_value s r) = Some (out, st', [])"
    and "length out \<le> Suc (length (raw_value s r))"
proof -
  let ?v = "skip_ws (drop 1 (skip_ws s))" and ?st = "FObject ns True # up"
  have "skip_ws (skip_ws x) = skip_ws x" for x by (induction x) auto
  moreover from compact_value_read [OF assms] have "\<exists>x. skip_ws s = CHR '':'' # x"
    by (auto split: list.splits if_splits)
  ultimately have "read_token ?st (CHR '':'' # ?v) = read_token ?st s" by auto
  then have "compact_value d ?st (CHR '':'' # ?v) = Some (out, st', r)"
    using assms unfolding compact_value.simps [of d ?st] by (simp del: read_token.simps)
  from compact_value_text [OF this] obtain p where p: "CHR '':'' # ?v = p @ r" "length out \<le> length p"
    "compact_value d ?st (p @ []) = Some (out, st', [])" by (auto simp: ends_number_def)
  have "p \<noteq> []" using compact_value_read [OF p(3)] by (auto split: list.splits)
  with p(1) obtain p' where p': "p = CHR '':'' # p'" "?v = p' @ r" by (cases p) auto
  then have "raw_value s r = p'" by (simp add: raw_value_def Let_def)
  with p p' show "compact_value d ?st (CHR '':'' # raw_value s r) = Some (out, st', [])"
    "length out \<le> Suc (length (raw_value s r))" by simp_all
qed

subsection \<open>A raw member\<close>

text \<open>
  The text \<open>json.Marshal\<close> writes for a \<open>jsontext.Value\<close> that is a member of a struct, or \<^const>\<open>None\<close> when
  it is not one value.
\<close>

definition compact_json :: "bytes \<Rightarrow> bytes option" where
  "compact_json raw =
     (case compact_value 1 [FObject [] True] (CHR '':'' # raw) of
        None \<Rightarrow> None
      | Some (out, _, r) \<Rightarrow> if skip_ws r = [] then Some (tl out) else None)"

lemma compact_value_front:
  assumes "compact_value d (FObject ns True # up) s = Some (out, x)"
  shows "\<exists>c. out = CHR '':'' # c \<and> c \<noteq> [] \<and> (\<forall>q. skip_ws (c @ q) = c @ q)"
proof -
  from compact_value_read [OF assms] obtain t st1 r1
    where tok: "read_token (FObject ns True # up) s = JToken t st1 r1" by blast
  then obtain v where v: "read_value (FObject ns True # up) (skip_ws v) = JToken t st1 r1"
    by (auto split: list.splits if_splits)
  have "skip_ws (skip_ws x) = skip_ws x" for x by (induction x) auto
  from read_value_front [OF v this] obtain p where "value_text (FObject ns True # up) (skip_ws v) t st1 r1 p" ..
  moreover from assms tok obtain o2 where "out = CHR '':'' # token_text t @ o2"
    by (auto simp: compact_value.simps [of d _ s] written_top separator_def simp del: read_token.simps split: if_splits)
  ultimately show ?thesis by (simp add: value_text_def)
qed

text \<open>In any object that is not nested the member is written the same and reads back as it was written.\<close>

lemma compact_in_object:
  assumes "compact_json raw = Some c" and "ends_number q"
  shows "compact_value 1 [FObject ns True] (CHR '':'' # c @ q) = Some (CHR '':'' # c, [FObject ns False], q)"
proof -
  from assms(1) obtain out st' r where cv: "compact_value 1 [FObject [] True] (CHR '':'' # raw) = Some (out, st', r)"
    and c: "c = tl out" by (auto simp: compact_json_def split: option.splits if_splits)
  from compact_value_front [OF cv] c have "out = CHR '':'' # c" by auto
  moreover have "compact_value (Suc (length ([] :: jstack))) [FObject ns True] (CHR '':'' # raw)
    = Some (out, [FObject ns False], r)"
    using compact_member [of "[]" "[]" "CHR '':'' # raw" out st' r "[]" ns] cv by simp
  ultimately show ?thesis using compact_value_text [of 1 "[FObject ns True]"] assms(2) by fastforce
qed

lemma compact_again: "compact_json raw = Some c \<Longrightarrow> compact_json c = Some c"
  using compact_in_object [of raw c "[]" "[]"] by (simp add: compact_json_def ends_number_def)

lemma compact_shorter:
  assumes "compact_json raw = Some c"
  shows "length c \<le> length raw"
proof -
  from assms obtain out st' r where cv: "compact_value 1 [FObject [] True] (CHR '':'' # raw) = Some (out, st', r)"
    and c: "c = tl out" by (auto simp: compact_json_def split: option.splits if_splits)
  from compact_value_text [OF cv] obtain p where "CHR '':'' # raw = p @ r" "length out \<le> length p" by blast
  then have "length out \<le> length (CHR '':'' # raw)" by (metis le_add1 length_append order_trans)
  with c show ?thesis by simp
qed

text \<open>What the decoder stored for a raw member can be written.\<close>

lemma raw_compact:
  assumes "skip_value 1 [FObject ns True] s = Some (st, r)"
  shows "\<exists>c. compact_json (raw_value s r) = Some c" and "st = [FObject ns False]"
proof -
  from assms obtain out where cv: "compact_value 1 [FObject ns True] s = Some (out, st, r)"
    using compact_skip [of 1 "[FObject ns True]" s] by auto
  from compact_raw [OF cv] compact_member [of "[]" ns "CHR '':'' # raw_value s r" out st "[]" "[]" "[]"]
  have "compact_value 1 [FObject [] True] (CHR '':'' # raw_value s r) = Some (out, [FObject [] False], [])" by simp
  then show "\<exists>c. compact_json (raw_value s r) = Some c" by (simp add: compact_json_def)
  from compact_member [of "[]" ns s out st r "[]" ns] cv show "st = [FObject ns False]" by simp
qed

subsection \<open>What decoding a struct has read\<close>

lemma read_member_name:
  "read_token (FObject ns False # up) s = JToken (TString n) st r \<Longrightarrow> st = FObject (n # ns) True # up"
  by (auto simp: read_name_def split: list.splits if_splits option.splits)

lemma read_token_utf8: "read_token st s = JToken (TString x) st' r \<Longrightarrow> utf8_valid x"
  by (cases "(st, s)" rule: read_token.cases)
    (auto simp: read_value_def read_name_def open_container_def literal_def
      split: if_splits list.splits option.splits)

lemma skip_value_below:
  "skip_value d st s = Some (st', r) \<Longrightarrow> d' < length st' \<Longrightarrow> d' \<le> d \<Longrightarrow> skip_value d' st s = skip_value d' st' r"
proof (induction d st s rule: skip_value.induct)
  case (1 d st s)
  then obtain t st1 r1 where tok: "read_token st s = JToken t st1 r1"
    by (auto simp: skip_value.simps [of d st s] split: jread.splits)
  with 1 show ?case
    by (auto simp: skip_value.simps [of d st s] skip_value.simps [of d' st s] split: if_splits)
qed

text \<open>The members of a struct after decoding: each raw one can be written, each string is UTF-8.\<close>

definition read_struct :: "struct_type \<Rightarrow> struct \<Rightarrow> bool" where
  "read_struct ty x \<longleftrightarrow>
     (\<forall>n. (ty n = Some RawMember \<longrightarrow> x n = [] \<or> (\<exists>c. compact_json (x n) = Some c))
        \<and> (ty n = Some StringMember \<longrightarrow> utf8_valid (x n)))"

lemma decode_members_read:
  "decode_members ty st s acc = Inr (x, r) \<Longrightarrow> st = [FObject ns False] \<Longrightarrow> read_struct ty acc \<Longrightarrow>
    read_struct ty x \<and> skip_value 0 st s = Some ([], r)"
proof (induction ty st s acc arbitrary: ns rule: decode_members.induct)
  case (1 ty st s acc)
  note unfold = decode_members.simps [of ty st s] and st = "1.prems"(2)
  from "1.prems"(1) obtain t st1 r1 where tok: "read_token st s = JToken t st1 r1"
    by (auto simp: unfold split: jread.splits)
  consider (end_object) "t = TEndObject" "x = acc" "r = r1" | (member) n where "t = TString n"
    using "1.prems"(1) tok by (auto simp: unfold split: jtoken.splits)
  then show ?case
  proof cases
    case end_object
    with tok st have "st1 = []" by (auto simp: read_name_def split: list.splits if_splits option.splits)
    with end_object tok "1.prems"(3) show ?thesis by (simp add: skip_value.simps [of 0 st s])
  next
    case (member n)
    from tok st member have st1: "st1 = [FObject (n # ns) True]" using read_member_name by metis
    from "1.prems"(1) tok member obtain m st2 r2 v where m: "ty n = Some m"
      "skip_value (length st) st1 r1 = Some (st2, r2)" "decode_member m st1 r1 r2 = Inr v"
      "decode_members ty st2 r2 (acc(n := v)) = Inr (x, r)"
      by (auto simp: unfold split: option.splits sum.splits)
    have skip: "skip_value 1 [FObject (n # ns) True] r1 = Some (st2, r2)" using m(2) st st1 by simp
    note raw = raw_compact [OF skip]
    have "m = RawMember \<longrightarrow> (\<exists>c. compact_json v = Some c)" using raw(1) m(3) by (auto simp: decode_member_def)
    moreover have "m = StringMember \<longrightarrow> utf8_valid v"
      using m(3) by (auto simp: decode_member_def split: jread.splits jtoken.splits dest: read_token_utf8)
    ultimately have "read_struct ty (acc(n := v))" using "1.prems"(3) m(1) by (simp add: read_struct_def)
    from "1.IH" [OF tok member m(1,2) refl m(3,4) raw(2) this]
    have "read_struct ty x \<and> skip_value 0 st2 r2 = Some ([], r)" .
    moreover have "skip_value 0 st s = skip_value 0 st2 r2"
      using skip_value_below [OF skip, of 0] raw(2) tok st1 by (simp add: skip_value.simps [of 0 st s])
    ultimately show ?thesis by simp
  qed
qed

lemma unmarshal_read:
  assumes "unmarshal ty s = Inr x"
  shows "read_struct ty x" and "json_valid s"
proof -
  from assms obtain st r r2 where tok: "read_token [] s = JToken TBeginObject st r"
    and dec: "decode_members ty st r empty_struct = Inr (x, r2)" and rest: "skip_ws r2 = []"
    by (auto simp: unmarshal_def split: jread.splits jtoken.splits sum.splits if_splits)
  from tok have st: "st = [FObject [] False]"
    by (auto simp: read_value_def open_container_def literal_def value_done_def
        split: if_splits list.splits option.splits)
  have "read_struct ty empty_struct" by (simp add: read_struct_def empty_struct_def)
  note decode_members_read [OF dec st this]
  with tok st rest show "read_struct ty x" "json_valid s"
    by (simp_all add: json_valid_def skip_value.simps [of 0 "[]" s])
qed

subsection \<open>What is written is UTF-8\<close>

lemma take_digits_ascii: "take_digits s = Some (d, r) \<Longrightarrow> \<forall>c \<in> set d. byte_nat c < 128"
  by (auto simp: take_digits_def Let_def is_digit_def dest: set_takeWhileD split: if_splits)

lemma scan_number_ascii:
  assumes "scan_number s = Some (x, r)"
  shows "\<forall>c \<in> set x. byte_nat c < 128"
proof -
  define sign where "sign = (if s \<noteq> [] \<and> byte_nat (hd s) = 45 then [hd s] else [])"
  from assms obtain i s2 f s3 e where "scan_integer (drop (length sign) s) = Some (i, s2)"
    "scan_fraction s2 = Some (f, s3)" "scan_exponent s3 = Some (e, r)" "x = sign @ i @ f @ e"
    by (auto simp: scan_number_def sign_def Let_def split: option.splits)
  moreover have "scan_integer s' = Some (i', r') \<Longrightarrow> \<forall>c \<in> set i'. byte_nat c < 128" for s' i' r'
    by (auto simp: scan_integer_def dest: take_digits_ascii split: list.splits if_splits)
  moreover have "scan_fraction s' = Some (i', r') \<Longrightarrow> \<forall>c \<in> set i'. byte_nat c < 128" for s' i' r'
    by (auto simp: scan_fraction_def prepend_Some dest!: take_digits_ascii split: list.splits if_splits)
  moreover have "scan_exponent s' = Some (i', r') \<Longrightarrow> \<forall>c \<in> set i'. byte_nat c < 128" for s' i' r'
    by (auto simp: scan_exponent_def prepend_Some dest!: take_digits_ascii split: list.splits if_splits)
  moreover have "\<forall>c \<in> set sign. byte_nat c < 128" by (simp add: sign_def)
  ultimately show ?thesis by (auto simp: ball_Un)
qed

lemma read_token_number: "read_token st s = JToken (TNumber x) st' r \<Longrightarrow> utf8_valid x"
  by (cases "(st, s)" rule: read_token.cases)
    (auto simp: read_value_def read_name_def open_container_def literal_def
      split: if_splits list.splits option.splits intro: utf8_ascii dest: scan_number_ascii)

lemma written_utf8:
  assumes "read_token st s = JToken t st' r"
  shows "utf8_valid (written st t)"
proof -
  have "utf8_valid (token_text t)"
  proof (cases t)
    case (TString x)
    with assms read_token_utf8 have "utf8_valid (escape x)" by (blast intro: escape_utf8)
    moreover have "utf8_valid [quote]" by (simp add: utf8_ascii_Cons)
    ultimately show ?thesis using TString by (simp add: utf8_append utf8_ascii_Cons)
  next
    case (TNumber x)
    with assms read_token_number show ?thesis by simp
  qed (simp_all add: utf8_valid_def byte_nat_def)
  moreover have "utf8_valid (separator st t)"
    by (simp add: separator_def utf8_ascii_Cons punctuation_nat split: list.splits frame.splits)
  ultimately show ?thesis by (simp add: written_def utf8_append)
qed

lemma compact_value_utf8: "compact_value d st s = Some (out, x) \<Longrightarrow> utf8_valid out"
proof (induction d st s arbitrary: out rule: compact_value.induct)
  case (1 d st s)
  from compact_value_read [OF "1.prems"] obtain t st1 r1 where tok: "read_token st s = JToken t st1 r1" by blast
  with "1" written_utf8 [OF tok] show ?case
    by (auto simp: compact_value.simps [of d st s] utf8_append split: if_splits)
qed

lemma compact_utf8: "compact_json raw = Some c \<Longrightarrow> utf8_valid c"
  using compact_value_front compact_value_utf8
  by (fastforce simp: compact_json_def utf8_ascii_Cons punctuation_nat split: option.splits if_splits)

end
