(* ===== verification/Demo.thy ===== *)
theory Demo
  imports Server Json_Compact
begin

section \<open>The demo client: cmd/demo/main.go\<close>

text \<open>
  A local web server for one application: it serves a page to the browser and forwards the page's calls
  to the passkey server over its own client certificate. The upstream is the argument \<open>send\<close>, which
  also changes the world outside the demo; its error covers a request that cannot be made. Of the
  upstream's response the demo reads one byte more than it accepts; the body is \<^const>\<open>None\<close> when
  that fails.
\<close>

record demo =
  dm_upstream :: string
  dm_application :: string
  dm_origin :: string
  dm_host :: string

record upstream_request =
  up_method :: string
  up_url :: string
  up_content_type :: string
  up_body :: bytes

record upstream_response =
  ur_status :: nat
  ur_body :: "bytes option"

type_synonym upstream = "upstream_request \<Rightarrow> world \<Rightarrow> (err + upstream_response) \<times> world"

definition response_limit :: nat where
  "response_limit = 2 ^ 20"

definition demo_json :: "nat \<Rightarrow> bytes \<Rightarrow> http_response" where
  "demo_json status data =
     \<lparr>rs_status = status, rs_headers = [(''Content-Type'', ''application/json'')], rs_body = data\<rparr>"

definition write_error :: "nat \<Rightarrow> string \<Rightarrow> http_response" where
  "write_error status code = demo_json status (object_text [(''error'', code)])"

subsection \<open>What the browser may send\<close>

text \<open>\<open>json.Marshal\<close> of a struct of strings fails on a string that is not UTF-8.\<close>

definition marshal_strings :: "(string \<times> string) list \<Rightarrow> bytes option" where
  "marshal_strings ms = (if list_all (\<lambda>m. utf8_valid (snd m)) ms then Some (object_text ms) else None)"

text \<open>The same for the input of a finish: the token, and the raw credential re-written token by token.\<close>

definition marshal_finish :: "string \<Rightarrow> bytes \<Rightarrow> bytes option" where
  "marshal_finish token credential =
     (if \<not> utf8_valid token then None
      else
        map_option
          (\<lambda>c. CHR ''{'' # member_text (''token'', token) @ CHR '','' # quote # ''credential''
             @ quote # CHR '':'' # c @ ''}'')
          (compact_json credential))"

definition start_input :: struct_type where
  "start_input = [''subject'' \<mapsto> StringMember]"

definition finish_input :: struct_type where
  "finish_input = [''token'' \<mapsto> StringMember, ''credential'' \<mapsto> RawMember]"

definition demo_payload :: "demo \<Rightarrow> bool \<Rightarrow> bytes \<Rightarrow> bytes option" where
  "demo_payload d start body =
     (if start then
        (case unmarshal start_input body of
           Inl _ \<Rightarrow> None
         | Inr x \<Rightarrow>
             (let subject = x ''subject'' in
              if subject = [] \<or> length subject > 256 \<or> \<not> utf8_valid subject \<or> nul \<in> set subject then None
              else marshal_strings [(''application'', dm_application d), (''subject'', subject)]))
      else
        (case unmarshal finish_input body of
           Inl _ \<Rightarrow> None
         | Inr x \<Rightarrow>
             (let credential = x ''credential'' in
              if length (x ''token'') \<noteq> 43 \<or> credential = [] \<or> length credential > 64 * 1024
                \<or> \<not> has_prefix (trim_space credential) ''{'' then None
              else marshal_finish (x ''token'') credential)))"

definition demo_request :: "demo \<Rightarrow> string \<Rightarrow> bool \<Rightarrow> http_request \<Rightarrow> upstream_request option" where
  "demo_request d path start rq =
     (if rq_media rq \<noteq> Some ''application/json'' \<or> rq_query rq \<noteq> '''' then None
      else
        (case rq_body rq of
           None \<Rightarrow> None
         | Some body \<Rightarrow>
             if length body > max_request_bytes \<or> trim_space body = [] \<or> hd (trim_space body) \<noteq> CHR ''{''
             then None
             else
               map_option
                 (\<lambda>payload. \<lparr>up_method = ''POST'', up_url = dm_upstream d @ path,
                    up_content_type = ''application/json'', up_body = payload\<rparr>)
                 (demo_payload d start body)))"

subsection \<open>What the browser gets\<close>

definition upstream_error_code :: "string \<Rightarrow> bool" where
  "upstream_error_code s \<longleftrightarrow>
     1 \<le> length s \<and> length s \<le> 64
     \<and> list_all (\<lambda>c. 97 \<le> byte_nat c \<and> byte_nat c \<le> 122 \<or> c = CHR ''_'') s"

text \<open>The struct with the member \<open>error\<close>; other members are read and dropped.\<close>

definition failure_type :: struct_type where
  "failure_type name = Some (if name = ''error'' then StringMember else RawMember)"

definition relay :: "upstream_response \<Rightarrow> http_response" where
  "relay r =
     (case ur_body r of
        None \<Rightarrow> write_error 502 ''invalid_upstream_response''
      | Some data \<Rightarrow>
          if length data > response_limit \<or> \<not> json_valid data
          then write_error 502 ''invalid_upstream_response''
          else if ur_status r \<noteq> 200 then
            (case unmarshal failure_type data of
               Inr x \<Rightarrow>
                 if 400 \<le> ur_status r \<and> ur_status r < 500 \<and> upstream_error_code (x ''error'')
                 then write_error (ur_status r) (x ''error'')
                 else write_error 502 ''upstream_failed''
             | Inl _ \<Rightarrow> write_error 502 ''upstream_failed'')
          else demo_json 200 data)"

definition forward :: "demo \<Rightarrow> upstream \<Rightarrow> string \<Rightarrow> bool \<Rightarrow> http_request \<Rightarrow> handler" where
  "forward d send path start rq w =
     (case demo_request d path start rq of
        None \<Rightarrow> (write_error 400 ''invalid_request'', w)
      | Some u \<Rightarrow>
          (case send u w of
             (Inl _, w') \<Rightarrow> (write_error 502 ''upstream_unavailable'', w')
           | (Inr r, w') \<Rightarrow> (relay r, w')))"

subsection \<open>The handler\<close>

definition demo_page :: "bytes \<Rightarrow> http_response" where
  "demo_page page =
     \<lparr>rs_status = 200, rs_headers = [(''Content-Type'', ''text/html; charset=utf-8'')], rs_body = page\<rparr>"

definition demo_mux :: "demo \<Rightarrow> upstream \<Rightarrow> bytes \<Rightarrow> http_request \<Rightarrow> handler" where
  "demo_mux d send page rq =
     (if rq_path rq = [''''] then with_method ''GET'' (Pair (demo_page page)) rq
      else
        (case rq_path rq of
           [api, ceremony, step] \<Rightarrow>
             if api = ''api'' \<and> ceremony \<in> set [''registrations'', ''authentications'']
               \<and> step \<in> set [''start'', ''finish'']
             then with_method ''POST''
               (forward d send (''/v1/'' @ ceremony @ ''/'' @ step) (step = ''start'') rq) rq
             else not_found
         | _ \<Rightarrow> not_found))"

definition demo_headers :: "(string \<times> string) list" where
  "demo_headers =
     (let q = (\<lambda>s. nat_byte 39 # s @ [nat_byte 39]) in
      [(''Cache-Control'', ''no-store''), (''X-Content-Type-Options'', ''nosniff''),
       (''Referrer-Policy'', ''no-referrer''),
       (''Content-Security-Policy'',
         ''default-src '' @ q ''none'' @ ''; script-src '' @ q ''unsafe-inline'' @ ''; style-src ''
         @ q ''unsafe-inline'' @ ''; connect-src '' @ q ''self'' @ ''; frame-ancestors '' @ q ''none''
         @ ''; base-uri '' @ q ''none'' @ ''; form-action '' @ q ''none'')])"

definition origin_header :: "http_request \<Rightarrow> string" where
  "origin_header rq = (case rq_origins rq of [] \<Rightarrow> '''' | o1 # _ \<Rightarrow> o1)"

definition demo_handler :: "demo \<Rightarrow> upstream \<Rightarrow> bytes \<Rightarrow> http_request \<Rightarrow> handler" where
  "demo_handler d send page rq w =
     (case
        (if rq_host rq \<noteq> dm_host d then (write_error 403 ''invalid_host'', w)
         else if rq_method rq = ''POST'' \<and> origin_header rq \<noteq> dm_origin d
         then (write_error 403 ''invalid_origin'', w)
         else demo_mux d send page rq w)
      of (r, w') \<Rightarrow> (r\<lparr>rs_headers := set_before demo_headers (rs_headers r)\<rparr>, w'))"

subsection \<open>Starting the demo\<close>

record demo_flags =
  df_listen :: string
  df_server :: string
  df_application :: string
  df_cert :: string
  df_key :: string
  df_client_cert :: string
  df_client_key :: string
  df_server_ca :: string

definition demo_defaults :: demo_flags where
  "demo_defaults =
     \<lparr>df_listen = ''127.0.0.1:3000'', df_server = ''https://localhost:8443'', df_application = ''shop'',
      df_cert = '''', df_key = '''', df_client_cert = '''', df_client_key = '''', df_server_ca = ''''\<rparr>"

definition demo_flag_table :: "string \<rightharpoonup> demo_flags flag_kind" where
  "demo_flag_table =
     map_of
       [(''listen'', StringFlag (\<lambda>v f. f\<lparr>df_listen := v\<rparr>)),
        (''passkey-server'', StringFlag (\<lambda>v f. f\<lparr>df_server := v\<rparr>)),
        (''application'', StringFlag (\<lambda>v f. f\<lparr>df_application := v\<rparr>)),
        (''tls-cert'', StringFlag (\<lambda>v f. f\<lparr>df_cert := v\<rparr>)),
        (''tls-key'', StringFlag (\<lambda>v f. f\<lparr>df_key := v\<rparr>)),
        (''client-cert'', StringFlag (\<lambda>v f. f\<lparr>df_client_cert := v\<rparr>)),
        (''client-key'', StringFlag (\<lambda>v f. f\<lparr>df_client_key := v\<rparr>)),
        (''server-ca'', StringFlag (\<lambda>v f. f\<lparr>df_server_ca := v\<rparr>))]"

record 'k http_client =
  hc_min_version :: nat
  hc_root_cas :: "bytes list"
  hc_certificates :: "'k list"
  hc_timeout :: time
  hc_follows_redirects :: bool

definition new_client :: "'k machine \<Rightarrow> string \<Rightarrow> string \<Rightarrow> string \<Rightarrow> err + 'k http_client" where
  "new_client M cert_file key_file ca_file =
     (case mc_key_pair M cert_file key_file of
        Inl e \<Rightarrow> Inl (Wrapped ''load mTLS certificate'' e)
      | Inr cert \<Rightarrow>
          (case mc_read_file M ca_file of
             Inl e \<Rightarrow> Inl (Wrapped ''read upstream CA'' e)
           | Inr ca \<Rightarrow>
               if mc_certificates M ca = [] then Inl (Plain ''upstream CA contains no certificates'')
               else Inr \<lparr>hc_min_version = version_tls12, hc_root_cas = mc_certificates M ca,
                      hc_certificates = [cert], hc_timeout = seconds 10, hc_follows_redirects = False\<rparr>))"

text \<open>
  The listen address: a loopback host and a port that is a number; \<open>loopback\<close> is \<open>net.ParseIP\<close> with
  \<open>IsLoopback\<close>. The result is the port.
\<close>

definition demo_port :: "(string \<Rightarrow> bool) \<Rightarrow> string \<Rightarrow> err + int" where
  "demo_port loopback listen =
     (case split_host_port listen of
        None \<Rightarrow> Inl (Plain ''listen must specify a loopback host and port'')
      | Some (host, port) \<Rightarrow>
          if host \<noteq> ''localhost'' \<and> \<not> loopback host then Inl (Plain ''demo must listen on a loopback address'')
          else
            (case parse_int64 port of
               None \<Rightarrow> Inl (Plain ''invalid listen port'')
             | Some n \<Rightarrow> if n < 1 \<or> n > 65535 then Inl (Plain ''invalid listen port'') else Inr n))"

definition https_origin :: "url \<Rightarrow> bool" where
  "https_origin u \<longleftrightarrow> url_scheme u = ''https'' \<and> url_host u \<noteq> '''' \<and> \<not> url_has_user u
     \<and> (url_path u = '''' \<or> url_path u = ''/'') \<and> url_raw_query u = '''' \<and> \<not> url_force_query u
     \<and> url_fragment u = ''''"

definition public_host :: "int \<Rightarrow> string" where
  "public_host port = (if port = 443 then ''localhost'' else join_host_port ''localhost'' (format_int port))"

definition trim_slash :: "string \<Rightarrow> string" where
  "trim_slash s = (if has_suffix s ''/'' then butlast s else s)"

record 'k demo_server =
  ds_addr :: string
  ds_demo :: demo
  ds_client :: "'k http_client"
  ds_min_version :: nat
  ds_certificates :: "'k list"
  ds_read_header_timeout :: time
  ds_read_timeout :: time
  ds_write_timeout :: time
  ds_idle_timeout :: time
  ds_max_header_bytes :: nat

definition demo_run ::
  "'k machine \<Rightarrow> (string \<Rightarrow> bool) \<Rightarrow> (string \<Rightarrow> url option) \<Rightarrow> string list \<Rightarrow> err + 'k demo_server"
where
  "demo_run M loopback parse_url args =
     (case parse_flags demo_flag_table args demo_defaults of
        Inl e \<Rightarrow> Inl e
      | Inr (f, rest) \<Rightarrow>
          if rest \<noteq> [] \<or> \<not> valid_application_code (df_application f)
          then Inl (Plain ''invalid arguments or application code'')
          else
            (case demo_port loopback (df_listen f) of
               Inl e \<Rightarrow> Inl e
             | Inr port \<Rightarrow>
                 (case parse_url (df_server f) of
                    None \<Rightarrow> Inl (Plain ''passkey-server must be an HTTPS origin without credentials, query or fragment'')
                  | Some u \<Rightarrow>
                      if \<not> https_origin u
                      then Inl (Plain ''passkey-server must be an HTTPS origin without credentials, query or fragment'')
                      else
                        (case mc_key_pair M (df_cert f) (df_key f) of
                           Inl e \<Rightarrow> Inl (Wrapped ''load demo HTTPS certificate'' e)
                         | Inr cert \<Rightarrow>
                             (case new_client M (df_client_cert f) (df_client_key f) (df_server_ca f) of
                                Inl e \<Rightarrow> Inl e
                              | Inr client \<Rightarrow>
                                  (case mc_listen M (df_listen f) of
                                     Some e \<Rightarrow> Inl e
                                   | None \<Rightarrow>
                                       Inr \<lparr>ds_addr = df_listen f,
                                         ds_demo = \<lparr>dm_upstream = trim_slash (df_server f),
                                           dm_application = df_application f,
                                           dm_origin = ''https://'' @ public_host port,
                                           dm_host = public_host port\<rparr>,
                                         ds_client = client, ds_min_version = version_tls12,
                                         ds_certificates = [cert], ds_read_header_timeout = seconds 5,
                                         ds_read_timeout = seconds 15, ds_write_timeout = seconds 20,
                                         ds_idle_timeout = seconds 60,
                                         ds_max_header_bytes = 16 * 2 ^ 10\<rparr>))))))"

definition demo_end :: "serve_end \<Rightarrow> err option" where
  "demo_end s =
     (case s of
        ServeReturned e \<Rightarrow> if wraps e err_server_closed then None else Some e
      | Cancelled shutdown \<Rightarrow> shutdown)"

definition demo_main ::
  "'k machine \<Rightarrow> (string \<Rightarrow> bool) \<Rightarrow> (string \<Rightarrow> url option) \<Rightarrow> string list \<Rightarrow> serve_end \<Rightarrow> nat"
where
  "demo_main M loopback parse_url args s =
     (case demo_run M loopback parse_url args of
        Inl e \<Rightarrow> exit_code (Some e) | Inr _ \<Rightarrow> exit_code (demo_end s))"

subsection \<open>What reaches the upstream\<close>

lemma start_payload:
  assumes "demo_payload d True body = Some p"
  obtains x where "unmarshal start_input body = Inr x" and "valid_subject (x ''subject'')"
    and "p = object_text [(''application'', dm_application d), (''subject'', x ''subject'')]"
    and "utf8_valid (dm_application d)"
  using assms
  by (auto simp: demo_payload_def marshal_strings_def valid_subject_def Let_def
      split: sum.splits if_splits)

lemma finish_payload:
  assumes "demo_payload d False body = Some p"
  obtains x c where "unmarshal finish_input body = Inr x" and "compact_json (x ''credential'') = Some c"
    and "length (x ''token'') = 43" and "length c \<le> 64 * 1024" and "utf8_valid (x ''token'')"
    and "p = CHR ''{'' # member_text (''token'', x ''token'') @ CHR '','' # quote # ''credential''
      @ quote # CHR '':'' # c @ ''}''"
proof -
  from assms obtain x c where x: "unmarshal finish_input body = Inr x" "compact_json (x ''credential'') = Some c"
    "length (x ''token'') = 43" "length (x ''credential'') \<le> 64 * 1024" "utf8_valid (x ''token'')"
    "p = CHR ''{'' # member_text (''token'', x ''token'') @ CHR '','' # quote # ''credential''
      @ quote # CHR '':'' # c @ ''}''"
    by (auto simp: demo_payload_def marshal_finish_def Let_def split: sum.splits if_splits)
  with compact_shorter [OF x(2)] that show thesis by simp
qed

text \<open>A finish the demo accepts is never lost to \<open>json.Marshal\<close>.\<close>

lemma finish_marshalled:
  assumes "unmarshal finish_input body = Inr x" and "x ''credential'' \<noteq> []"
  shows "\<exists>p. marshal_finish (x ''token'') (x ''credential'') = Some p"
proof -
  from unmarshal_read(1) [OF assms(1)] have "utf8_valid (x ''token'')"
    and "x ''credential'' = [] \<or> (\<exists>c. compact_json (x ''credential'') = Some c)"
    by (auto simp: read_struct_def finish_input_def)
  with assms(2) show ?thesis by (auto simp: marshal_finish_def)
qed

text \<open>The passkey server reads the payload of a finish as the token and the compact_json credential.\<close>

lemma unmarshal_string_raw:
  assumes "compact_json raw = Some c" and "utf8_valid v" and "plain m" and "plain n" and "m \<noteq> n"
    and "ty m = Some StringMember" and "ty n = Some RawMember"
  shows "unmarshal ty (CHR ''{'' # member_text (m, v) @ CHR '','' # quote # n @ quote # CHR '':'' # c @ ''}'')
    = Inr (empty_struct(m := v, n := c))"
proof -
  let ?text = "CHR '':'' # c @ ''}''"
  have cv: "compact_value 1 [FObject [n, m] True] ?text = Some (CHR '':'' # c, [FObject [n, m] False], ''}'')"
    by (rule compact_in_object [OF assms(1)]) (simp add: ends_number_def is_digit_def punctuation_nat)
  have skip: "skip_value (Suc 0) [FObject [n, m] True] ?text = Some ([FObject [n, m] False], ''}'')"
    using compact_skip [of 1 "[FObject [n, m] True]" ?text] cv by simp
  have raw: "raw_value ?text ''}'' = c"
    using compact_value_front [OF cv] by (auto simp: raw_value_def Let_def)
  show ?thesis
    using skip raw assms(2-)
    by (simp add: unmarshal_def read_open decode_members.simps [of _ "[FObject _ False]"] member_text_def
        read_first_name read_next_name skip_value_plain [where up = "[]", simplified] raw_value_simps
        decode_member_def read_close read_string_text del: read_token.simps)
qed

lemma unmarshal_finish:
  assumes "compact_json raw = Some c" and "utf8_valid token"
  shows "unmarshal finish_request (CHR ''{'' # member_text (''token'', token) @ CHR '','' # quote # ''credential''
      @ quote # CHR '':'' # c @ ''}'') = Inr (empty_struct(''token'' := token, ''credential'' := c))"
proof -
  have "plain ''token''" "plain ''credential''" by code_simp+
  then show ?thesis by (rule unmarshal_string_raw [OF assms]) (simp_all add: finish_request_def)
qed

subsection \<open>The demo and the passkey server\<close>

text \<open>
  The transport of the demo's client to a passkey server at \<open>base\<close>: the server sees the client's
  verified certificate chain, the path of the URL, the body and its media type, and the client sees the
  status and the body of the response.
\<close>

definition delivered :: "bytes list \<Rightarrow> string \<Rightarrow> upstream_request \<Rightarrow> http_request" where
  "delivered certs base u =
     \<lparr>rq_method = up_method u, rq_path = tl (split_on CHR ''/'' (drop (length base) (up_url u))),
      rq_query = '''', rq_media = Some (up_content_type u), rq_body = Some (up_body u),
      rq_verified = True, rq_certs = certs, rq_tls = True, rq_host = base, rq_origins = [],
      rq_cookies = []\<rparr>"

definition linked :: "env \<Rightarrow> api \<Rightarrow> bytes list \<Rightarrow> string \<Rightarrow> upstream" where
  "linked E a certs base u w =
     (if \<not> has_prefix (up_url u) base then (Inl (Plain ''no such server''), w)
      else
        (case api_handler E a (delivered certs base u) w of
           (r, w') \<Rightarrow> (Inr \<lparr>ur_status = rs_status r, ur_body = Some (rs_body r)\<rparr>, w')))"

definition kind_path :: "kind \<Rightarrow> string" where
  "kind_path k = k @ ''s''"

text \<open>
  What the browser gets for a result of the service: the payload, or the public code of the error with
  its status, and no more than \<open>upstream_failed\<close> when the server itself failed.
\<close>

definition demo_reply :: "encoder \<Rightarrow> err + payload \<Rightarrow> http_response" where
  "demo_reply enc q =
     (case q of
        Inl e \<Rightarrow>
          (case error_status e of (status, code) \<Rightarrow>
             if status = 500 then write_error 502 ''upstream_failed'' else write_error status code)
      | Inr p \<Rightarrow>
          (case enc p of
             None \<Rightarrow> write_error 502 ''upstream_failed''
           | Some data \<Rightarrow>
               if length data < response_limit \<and> json_valid (data @ [newline_byte])
               then demo_json 200 (data @ [newline_byte])
               else write_error 502 ''invalid_upstream_response''))"

definition prints_errors :: "encoder \<Rightarrow> bool" where
  "prints_errors enc \<longleftrightarrow> (\<forall>c. enc (ErrorBody c) = Some (object_text [(''error'', c)]))"

lemma newline_space [simp]: "is_json_space newline_byte" "skip_ws [newline_byte] = []"
  by (simp_all add: newline_byte_def is_json_space_def)

lemma length_escape: "length (escape s) \<le> 6 * length s"
proof (induction s)
  case (Cons c s)
  with length_escape_char [of c] show ?case by simp
qed simp

lemma public_code_passes:
  assumes "c \<in> set public_codes"
  shows "upstream_error_code c" and "plain c"
proof -
  have "list_all (\<lambda>c. upstream_error_code c \<and> plain c) public_codes" by code_simp
  with assms show "upstream_error_code c" "plain c" by (auto simp: list_all_iff)
qed

lemma relay_error:
  assumes "plain code" and "length code \<le> 64" and "status \<noteq> 200"
  shows "relay \<lparr>ur_status = status, ur_body = Some (object_text [(''error'', code)] @ [newline_byte])\<rparr>
    = (if 400 \<le> status \<and> status < 500 \<and> upstream_error_code code then write_error status code
       else write_error 502 ''upstream_failed'')"
proof -
  let ?text = "object_text [(''error'', code)] @ [newline_byte]"
  have "unmarshal failure_type ?text = Inr (set_members empty_struct [(''error'', code)])"
  proof (rule unmarshal_object_before)
    have "plain ''error''" by code_simp
    with assms(1) plain_utf8 show "plain_members [(''error'', code)]" by (simp add: plain_members_def)
  qed (simp_all add: failure_type_def)
  moreover from this have "json_valid ?text" by (rule unmarshal_read)
  moreover have "length ?text \<le> response_limit"
    using length_escape [of code] assms(2) by (simp add: member_text_def response_limit_def)
  ultimately show ?thesis using assms(3) by (simp add: relay_def)
qed

lemma internal_error_printed: "internal_error_text = object_text [(''error'', ''internal_error'')]"
  by code_simp

lemma relay_fail:
  assumes "prints_errors enc"
  shows "relay \<lparr>ur_status = rs_status (api_fail enc e), ur_body = Some (rs_body (api_fail enc e))\<rparr>
    = demo_reply enc' (Inl e)"
proof -
  obtain status code where e: "error_status e = (status, code)" by (cases "error_status e")
  with error_status_public [of e] have code: "code \<in> set public_codes" by simp
  note pass = public_code_passes [OF this]
  have st: "status \<in> {400, 403, 404, 409, 410, 500}"
    using e by (auto simp: error_status_def split: option.splits if_splits)
  from pass(1) have "length code \<le> 64" by (simp add: upstream_error_code_def)
  from relay_error [OF pass(2) this, of status] st pass(1) e assms show ?thesis
    by (auto simp: api_fail_def write_json_def prints_errors_def json_response_def demo_reply_def)
qed

lemma relay_recovered:
  assumes "prints_errors enc"
  shows "relay \<lparr>ur_status = rs_status (recovered enc), ur_body = Some (rs_body (recovered enc))\<rparr>
    = demo_reply enc' (Inl (Panic m))"
  using relay_fail [OF assms, of "Panic m" enc'] by (simp add: api_fail_def recovered_def error_status_def)

lemma relay_ok:
  shows "relay \<lparr>ur_status = rs_status (write_json enc 200 p), ur_body = Some (rs_body (write_json enc 200 p))\<rparr>
    = demo_reply enc (Inr p)"
proof (cases "enc p")
  case None
  have "plain ''internal_error''" by code_simp
  from relay_error [OF this, of 500] None show ?thesis
    by (simp add: write_json_def json_response_def demo_reply_def internal_error_printed del: object_text.simps)
qed (auto simp: write_json_def json_response_def demo_reply_def relay_def)

text \<open>What the browser gets of a response that reports a call of the service.\<close>

lemma relay_respond:
  assumes "prints_errors enc" and "call w = (q, w')"
  shows "(case respond enc call (\<lambda>x. write_json enc 200 (body x)) w of (r, w2) \<Rightarrow>
      (relay \<lparr>ur_status = rs_status r, ur_body = Some (rs_body r)\<rparr>, w2))
    = (demo_reply enc (map_sum id body q), w')"
  using assms(2) relay_fail [OF assms(1)] relay_recovered [OF assms(1)] relay_ok
  by (cases q; cases "projl q") (auto simp: respond_def split: sum.splits err.splits)

subsection \<open>A call of the demo's own page\<close>

text \<open>A request the demo's page makes: to its own host, from its own origin, with a JSON object.\<close>

definition page_call :: "demo \<Rightarrow> kind \<Rightarrow> string \<Rightarrow> bytes \<Rightarrow> http_request \<Rightarrow> bool" where
  "page_call d k step body rq \<longleftrightarrow>
     rq_method rq = ''POST'' \<and> rq_path rq = [''api'', kind_path k, step] \<and> rq_host rq = dm_host d
     \<and> origin_header rq = dm_origin d \<and> rq_media rq = Some ''application/json'' \<and> rq_query rq = ''''
     \<and> rq_body rq = Some body \<and> length body \<le> max_request_bytes \<and> has_prefix (trim_space body) ''{''"

definition step_path :: "kind \<Rightarrow> string \<Rightarrow> string" where
  "step_path k step = ''/v1/'' @ kind_path k @ ''/'' @ step"

lemma has_prefix_brace: "has_prefix s ''{'' \<longleftrightarrow> s \<noteq> [] \<and> hd s = CHR ''{''"
  by (cases s) (auto simp: has_prefix_def)

lemma demo_page_call:
  assumes "kind_valid k" and "step \<in> {''start'', ''finish''}" and "page_call d k step body rq"
    and "demo_payload d (step = ''start'') body = Some p"
  shows "demo_handler d send page rq w =
    (case send \<lparr>up_method = ''POST'', up_url = dm_upstream d @ step_path k step,
           up_content_type = ''application/json'', up_body = p\<rparr> w of
       (Inl _, w') \<Rightarrow>
         (let r = write_error 502 ''upstream_unavailable'' in
          (r\<lparr>rs_headers := set_before demo_headers (rs_headers r)\<rparr>, w'))
     | (Inr r, w') \<Rightarrow> ((relay r)\<lparr>rs_headers := set_before demo_headers (rs_headers (relay r))\<rparr>, w'))"
proof -
  have kind: "kind_path k \<in> set [''registrations'', ''authentications'']" "[''api'', kind_path k, step] \<noteq> ['''']"
    using assms(1) by (auto simp: kind_valid_def kind_path_def names)
  have "demo_request d (step_path k step) (step = ''start'') rq
    = Some \<lparr>up_method = ''POST'', up_url = dm_upstream d @ step_path k step,
        up_content_type = ''application/json'', up_body = p\<rparr>"
    using assms(3,4) by (simp add: demo_request_def page_call_def has_prefix_brace)
  then have "demo_mux d send page rq = forward d send (step_path k step) (step = ''start'') rq"
    using assms(2,3) kind
    by (auto simp: demo_mux_def page_call_def step_path_def with_method_def fun_eq_iff)
  with \<open>demo_request _ _ _ _ = _\<close> assms(3) show ?thesis
    by (auto simp: demo_handler_def forward_def page_call_def Let_def split: prod.splits sum.splits)
qed

lemma step_segments:
  assumes "kind_valid k" and "step \<in> {''start'', ''finish''}"
  shows "tl (split_on CHR ''/'' (step_path k step)) = [''v1'', kind_path k, step]"
proof -
  have "tl (split_on CHR ''/'' (''/v1/'' @ (kind @ ''s'') @ ''/'' @ s)) = [''v1'', kind @ ''s'', s]"
    if "kind \<in> {''registration'', ''authentication''}" "s \<in> {''start'', ''finish''}" for kind s
    using that by auto
  with assms show ?thesis by (auto simp: step_path_def kind_path_def kind_valid_def names)
qed

text \<open>The certificate the server sees, as the configuration writes it.\<close>

definition client_fingerprint :: "env \<Rightarrow> bytes list \<Rightarrow> string" where
  "client_fingerprint E certs = (case certs of [] \<Rightarrow> '''' | c # _ \<Rightarrow> ''sha256:'' @ hex_encode (sha256 E c))"

definition step_request :: "demo \<Rightarrow> kind \<Rightarrow> string \<Rightarrow> bytes \<Rightarrow> upstream_request" where
  "step_request d k step p =
     \<lparr>up_method = ''POST'', up_url = dm_upstream d @ step_path k step,
      up_content_type = ''application/json'', up_body = p\<rparr>"

lemma linked_step:
  fixes d k certs p
  assumes "kind_valid k" and "certs \<noteq> []" and "api_service a = P" and "api_encoder a = enc"
  defines "rq \<equiv> \<lambda>step. delivered certs (dm_upstream d) (step_request d k step p)"
  shows "linked E a certs (dm_upstream d) (step_request d k ''start'' p) w =
      (case api_start E enc P k (rq ''start'') w of
         (r, w') \<Rightarrow> (Inr \<lparr>ur_status = rs_status r, ur_body = Some (rs_body r)\<rparr>, w'))"
    and "linked E a certs (dm_upstream d) (step_request d k ''finish'' p) w =
      (case api_finish E enc P k (rq ''finish'') w of
         (r, w') \<Rightarrow> (Inr \<lparr>ur_status = rs_status r, ur_body = Some (rs_body r)\<rparr>, w'))"
proof -
  have path: "rq_path (rq step) = [''v1'', kind_path k, step]" if "step \<in> {''start'', ''finish''}" for step
    using step_segments [OF assms(1) that] by (simp add: rq_def delivered_def step_request_def)
  have fp: "fingerprint E (rq step) \<noteq> ''''" for step
    using assms(2) by (cases certs) (simp_all add: rq_def delivered_def fingerprint_def)
  have post: "rq_method (rq step) = ''POST''" for step by (simp add: rq_def delivered_def step_request_def)
  have kind: "kind_path k = ''registrations'' \<and> k = Registration \<or> kind_path k = ''authentications'' \<and> k = Authentication"
    using assms(1) by (auto simp: kind_valid_def kind_path_def names)
  have "api_mux E a (rq ''start'') w = api_start E enc P k (rq ''start'') w"
    "api_mux E a (rq ''finish'') w = api_finish E enc P k (rq ''finish'') w" for w
    using path [of "''start''"] path [of "''finish''"] fp post kind assms(3,4)
    by (auto simp: api_mux_def api_v1_def integration_def with_method_def Let_def)
  then show "linked E a certs (dm_upstream d) (step_request d k ''start'' p) w =
      (case api_start E enc P k (rq ''start'') w of
         (r, w') \<Rightarrow> (Inr \<lparr>ur_status = rs_status r, ur_body = Some (rs_body r)\<rparr>, w'))"
    "linked E a certs (dm_upstream d) (step_request d k ''finish'' p) w =
      (case api_finish E enc P k (rq ''finish'') w of
         (r, w') \<Rightarrow> (Inr \<lparr>ur_status = rs_status r, ur_body = Some (rs_body r)\<rparr>, w'))"
    by (auto simp: linked_def api_handler_def rq_def step_request_def has_prefix_def split: prod.splits)
qed

text \<open>What the server decodes.\<close>

lemma start_decodes:
  assumes "valid_application_code app" and "valid_subject subject"
    and "p = object_text [(''application'', app), (''subject'', subject)]"
  shows "api_decode start_request (delivered certs base (step_request d k step p))
    = Inr (empty_struct(''application'' := app, ''subject'' := subject))"
proof -
  let ?ms = "[(''application'', app), (''subject'', subject)]"
  have names: "plain ''application''" "plain ''subject''" by code_simp+
  have "utf8_valid app"
    using assms(1)
    by (intro utf8_ascii)
      (auto simp: valid_application_code_def list_all_iff application_code_char_def Let_def byte_nat_def)
  then have "plain_members ?ms" using names assms(2) by (simp add: plain_members_def valid_subject_def)
  moreover have "length (object_text ?ms) \<le> max_request_bytes"
    using length_escape [of app] length_escape [of subject] assms(1,2)
    by (simp add: member_text_def max_request_bytes_def valid_application_code_def valid_subject_def)
  ultimately show ?thesis
    using decode_printed [of ?ms start_request "delivered certs base (step_request d k step p)"]
    by (simp add: start_request_def delivered_def step_request_def assms(3))
qed

lemma finish_decodes:
  assumes "demo_payload d False body = Some p" and "token_pass [] p = None"
  obtains x c where "unmarshal finish_input body = Inr x" and "compact_json (x ''credential'') = Some c"
    and "api_decode finish_request (delivered certs base (step_request d k step p))
      = Inr (empty_struct(''token'' := x ''token'', ''credential'' := c))"
proof -
  from assms(1) obtain x c where x: "unmarshal finish_input body = Inr x" "compact_json (x ''credential'') = Some c"
    "length (x ''token'') = 43" "length c \<le> 64 * 1024" "utf8_valid (x ''token'')"
    and p: "p = CHR ''{'' # member_text (''token'', x ''token'') @ CHR '','' # quote # ''credential''
      @ quote # CHR '':'' # c @ ''}''" by (rule finish_payload)
  have brace: "no_space_byte CHR ''{''" "no_space_byte CHR ''}''"
    by (rule no_space_byte_graphic; simp add: punctuation_nat)+
  have "\<exists>s. p = CHR ''{'' # s @ [CHR ''}'']" unfolding p by (intro exI) simp
  then have trim: "trim_space p = p" "\<exists>r. p = CHR ''{'' # r" using trim_space_graphic [OF brace] by auto
  have tok: "utf8_valid (member_text (''token'', x ''token''))" using x(5) by (intro member_text_utf8) (code_simp, simp)
  have "utf8_valid (CHR '','' # quote # ''credential'' @ [quote, CHR '':''])" "utf8_valid ''}''" by code_simp+
  from utf8_append [OF this(1) utf8_append [OF compact_utf8 [OF x(2)] this(2)]]
  have "utf8_valid (CHR '','' # quote # ''credential'' @ quote # CHR '':'' # c @ ''}'')" by simp
  with tok have "utf8_valid p" unfolding p by (simp add: utf8_append utf8_ascii_Cons punctuation_nat)
  moreover have "length p \<le> max_request_bytes"
    using length_escape [of "x ''token''"] x(3,4) by (simp add: p member_text_def max_request_bytes_def)
  moreover have "unmarshal finish_request p = Inr (empty_struct(''token'' := x ''token'', ''credential'' := c))"
    unfolding p by (rule unmarshal_finish [OF x(2,5)])
  ultimately have "api_decode finish_request (delivered certs base (step_request d k step p))
      = Inr (empty_struct(''token'' := x ''token'', ''credential'' := c))"
    using assms(2) trim
    by (auto simp: api_decode_def strict_json_def strict_with_def delivered_def step_request_def)
  with x that show thesis by blast
qed

subsection \<open>End to end\<close>

definition with_demo_headers :: "http_response \<Rightarrow> http_response" where
  "with_demo_headers r = r\<lparr>rs_headers := set_before demo_headers (rs_headers r)\<rparr>"

lemma client_fingerprint_seen:
  "certs \<noteq> [] \<Longrightarrow> fingerprint E (delivered certs base u) = client_fingerprint E certs"
  by (cases certs) (simp_all add: fingerprint_def delivered_def client_fingerprint_def)

text \<open>A call that the server answers by asking its service is answered with what the service returned.\<close>

lemma demo_call_replies:
  assumes "kind_valid k" and "step \<in> {''start'', ''finish''}" and "page_call d k step body rq"
    and "demo_payload d (step = ''start'') body = Some p"
    and "linked E a certs (dm_upstream d) (step_request d k step p) w =
      (case respond enc call (\<lambda>x. write_json enc 200 (pay x)) w of
         (r, w') \<Rightarrow> (Inr \<lparr>ur_status = rs_status r, ur_body = Some (rs_body r)\<rparr>, w'))"
    and "prints_errors enc" and "call w = (q, w')"
  shows "demo_handler d (linked E a certs (dm_upstream d)) page rq w
    = (with_demo_headers (demo_reply enc (map_sum id pay q)), w')"
proof -
  obtain r w2 where r: "respond enc call (\<lambda>x. write_json enc 200 (pay x)) w = (r, w2)" by fastforce
  with relay_respond [of enc call w q w' pay, OF assms(6,7)]
  have "relay \<lparr>ur_status = rs_status r, ur_body = Some (rs_body r)\<rparr> = demo_reply enc (map_sum id pay q)" "w2 = w'"
    by simp_all
  moreover have "linked E a certs (dm_upstream d) (step_request d k step p) w
    = (Inr \<lparr>ur_status = rs_status r, ur_body = Some (rs_body r)\<rparr>, w2)" using assms(5) r by simp
  ultimately show ?thesis
    by (simp add: demo_page_call [OF assms(1-4)] step_request_def with_demo_headers_def)
qed

lemma demo_start_replies:
  assumes "kind_valid k" and "page_call d k ''start'' body rq" and "unmarshal start_input body = Inr x"
    and "valid_subject (x ''subject'')" and "valid_application_code (dm_application d)" and "certs \<noteq> []"
    and "api_service a = service_passkeys E S" and "prints_errors (api_encoder a)"
    and "service_start E S k (dm_application d) (x ''subject'') '''' (client_fingerprint E certs) w = (q, w')"
  shows "demo_handler d (linked E a certs (dm_upstream d)) page rq w
    = (with_demo_headers (demo_reply (api_encoder a) (map_sum id StartBody q)), w')"
proof -
  let ?p = "object_text [(''application'', dm_application d), (''subject'', x ''subject'')]"
  have "utf8_valid (dm_application d)"
    using assms(5)
    by (intro utf8_ascii)
      (auto simp: valid_application_code_def list_all_iff application_code_char_def Let_def byte_nat_def)
  with assms(3,4) have "demo_payload d (''start'' = ''start'') body = Some ?p"
    by (simp add: demo_payload_def valid_subject_def marshal_strings_def)
  from assms(1) _ assms(2) this _ assms(8,9) show ?thesis
  proof (rule demo_call_replies)
    show "linked E a certs (dm_upstream d) (step_request d k ''start'' ?p) w =
      (case respond (api_encoder a)
          (service_start E S k (dm_application d) (x ''subject'') '''' (client_fingerprint E certs))
          (\<lambda>x. write_json (api_encoder a) 200 (StartBody x)) w of
         (r, w') \<Rightarrow> (Inr \<lparr>ur_status = rs_status r, ur_body = Some (rs_body r)\<rparr>, w'))"
      using linked_step(1) [OF assms(1,6,7) refl] start_decodes [OF assms(5,4) refl]
        client_fingerprint_seen [OF assms(6)]
      by (simp add: api_start_def service_passkeys_def empty_struct_def)
  qed simp
qed

lemma demo_finish_replies:
  assumes "kind_valid k" and "page_call d k ''finish'' body rq" and "demo_payload d False body = Some p"
    and "token_pass [] p = None" and "unmarshal finish_input body = Inr x" and "certs \<noteq> []"
    and "api_service a = service_passkeys E S" and "prints_errors (api_encoder a)"
    and "service_finish E S k (x ''token'') (the (compact_json (x ''credential''))) (client_fingerprint E certs) w
      = (q, w')"
  shows "demo_handler d (linked E a certs (dm_upstream d)) page rq w
    = (with_demo_headers (demo_reply (api_encoder a) (map_sum id FinishBody q)), w')"
proof -
  have "demo_payload d (''finish'' = ''start'') body = Some p" using assms(3) by simp
  from assms(1) _ assms(2) this _ assms(8,9) show ?thesis
  proof (rule demo_call_replies)
    from assms(3,4) obtain x' c where "unmarshal finish_input body = Inr x'" "compact_json (x' ''credential'') = Some c"
      "api_decode finish_request (delivered certs (dm_upstream d) (step_request d k ''finish'' p))
        = Inr (empty_struct(''token'' := x' ''token'', ''credential'' := c))" by (rule finish_decodes)
    with assms(5) linked_step(2) [OF assms(1,6,7) refl] client_fingerprint_seen [OF assms(6)]
    show "linked E a certs (dm_upstream d) (step_request d k ''finish'' p) w =
      (case respond (api_encoder a)
          (service_finish E S k (x ''token'') (the (compact_json (x ''credential''))) (client_fingerprint E certs))
          (\<lambda>x. write_json (api_encoder a) 200 (FinishBody x)) w of
         (r, w') \<Rightarrow> (Inr \<lparr>ur_status = rs_status r, ur_body = Some (rs_body r)\<rparr>, w'))"
      by (simp add: api_finish_def service_passkeys_def)
  qed simp
qed

subsection \<open>What is refused before the upstream is asked\<close>

lemma demo_handler_guarded:
  "(\<exists>r. \<forall>send w. demo_handler d send page rq w = (r, w))
   \<or> (\<exists>k step body p. kind_valid k \<and> step \<in> {''start'', ''finish''} \<and> page_call d k step body rq
       \<and> demo_payload d (step = ''start'') body = Some p
       \<and> (\<forall>send w. snd (demo_handler d send page rq w) = snd (send (step_request d k step p) w)))"
proof (cases "rq_host rq = dm_host d \<and> rq_method rq = ''POST'' \<and> origin_header rq = dm_origin d
    \<and> (\<exists>k step. kind_valid k \<and> step \<in> {''start'', ''finish''} \<and> rq_path rq = [''api'', kind_path k, step])")
  case True
  then obtain k step where k: "kind_valid k" "step \<in> {''start'', ''finish''}" "rq_path rq = [''api'', kind_path k, step]"
    by blast
  have "kind_path k \<in> set [''registrations'', ''authentications'']"
    using k(1) by (auto simp: kind_valid_def kind_path_def names)
  with True k(2,3) have mux: "demo_handler d send page rq w =
    (case forward d send (step_path k step) (step = ''start'') rq w of (r, w') \<Rightarrow> (with_demo_headers r, w'))"
    for send w by (auto simp: demo_handler_def demo_mux_def with_method_def with_demo_headers_def step_path_def)
  show ?thesis
  proof (cases "demo_request d (step_path k step) (step = ''start'') rq")
    case None
    then show ?thesis by (auto simp: mux forward_def)
  next
    case (Some u)
    then obtain body p where "rq_media rq = Some ''application/json''" "rq_query rq = ''''" "rq_body rq = Some body"
      "length body \<le> max_request_bytes" "has_prefix (trim_space body) ''{''"
      "demo_payload d (step = ''start'') body = Some p" "u = step_request d k step p"
      by (auto simp: demo_request_def step_request_def has_prefix_brace split: if_splits option.splits)
    with True k Some have "kind_valid k" "step \<in> {''start'', ''finish''}" "page_call d k step body rq"
      "demo_payload d (step = ''start'') body = Some p"
      and "snd (demo_handler d send page rq w) = snd (send (step_request d k step p) w)" for send w
      by (auto simp: mux forward_def page_call_def split: prod.splits sum.splits)
    then show ?thesis by blast
  qed
next
  case False
  have "kind_valid ''registration''" "kind_path ''registration'' = ''registrations''"
    "kind_valid ''authentication''" "kind_path ''authentication'' = ''authentications''"
    by (simp_all add: kind_valid_def kind_path_def names)
  then have path: "\<exists>k. kind_valid k \<and> ceremony = kind_path k"
    if "ceremony \<in> {''registrations'', ''authentications''}" for ceremony using that by force
  have "\<exists>r. \<forall>send w. demo_mux d send page rq w = (r, w)"
    if guard: "rq_host rq = dm_host d" "\<not> (rq_method rq = ''POST'' \<and> origin_header rq \<noteq> dm_origin d)"
  proof -
    consider (page) "rq_path rq = ['''']"
      | (call) ceremony step where "rq_path rq = [''api'', ceremony, step]"
        "ceremony \<in> {''registrations'', ''authentications''}" "step \<in> {''start'', ''finish''}"
      | (other) "\<forall>send w. demo_mux d send page rq w = not_found w"
    proof (cases "rq_path rq = [''''] \<or> (\<exists>ceremony step. rq_path rq = [''api'', ceremony, step]
        \<and> ceremony \<in> {''registrations'', ''authentications''} \<and> step \<in> {''start'', ''finish''})")
      case False
      then have "demo_mux d send page rq = not_found" for send by (simp add: demo_mux_def split: list.splits) blast
      then show thesis using that(3) by simp
    qed (use that(1,2) in blast)
    then show ?thesis
    proof cases
      case page
      then show ?thesis by (auto simp: demo_mux_def with_method_def)
    next
      case call
      from path [OF call(2)] obtain k where "kind_valid k" "ceremony = kind_path k" by blast
      with call(1,3) False guard have "rq_method rq \<noteq> ''POST''" by auto
      with call show ?thesis by (auto simp: demo_mux_def with_method_def)
    next
      case other
      then show ?thesis by (auto simp: not_found_def)
    qed
  qed
  then have "\<exists>r. \<forall>send w. demo_handler d send page rq w = (r, w)"
    by (cases "rq_host rq = dm_host d"; cases "rq_method rq = ''POST'' \<and> origin_header rq \<noteq> dm_origin d")
      (force simp: demo_handler_def)+
  then show ?thesis by blast
qed

subsection \<open>A demo that serves\<close>

lemma demo_port_Inr:
  assumes "demo_port loopback listen = Inr port"
  shows "1 \<le> port" and "port \<le> 65535"
    and "\<exists>host p. split_host_port listen = Some (host, p) \<and> (host = ''localhost'' \<or> loopback host)
      \<and> parse_int64 p = Some port"
  using assms by (auto simp: demo_port_def split: option.splits if_splits prod.splits)

lemma demo_run_Inr:
  assumes "demo_run M loopback parse_url args = Inr s"
  obtains f port u client cert
  where "parse_flags demo_flag_table args demo_defaults = Inr (f, [])"
    and "valid_application_code (df_application f)" and "demo_port loopback (df_listen f) = Inr port"
    and "parse_url (df_server f) = Some u" and "https_origin u"
    and "mc_key_pair M (df_cert f) (df_key f) = Inr cert"
    and "new_client M (df_client_cert f) (df_client_key f) (df_server_ca f) = Inr client"
    and "ds_addr s = df_listen f" and "ds_client s = client" and "ds_certificates s = [cert]"
    and "ds_demo s = \<lparr>dm_upstream = trim_slash (df_server f), dm_application = df_application f,
      dm_origin = ''https://'' @ public_host port, dm_host = public_host port\<rparr>"
  using assms
  by (auto simp: demo_run_def split: sum.splits prod.splits if_splits option.splits)

lemma demo_run_application:
  "demo_run M loopback parse_url args = Inr s \<Longrightarrow> valid_application_code (dm_application (ds_demo s))"
  by (erule demo_run_Inr) simp

end
