(* ===== verification/Progress.thy ===== *)
theory Progress
  imports Lifecycle
begin

section \<open>Runs without infrastructure failures\<close>

text \<open>
  The contracts say what an operation may have done. Here is what it does when no database call
  fails and the UUIDs are new: an authorized finish of a pending ceremony always records its
  outcome, and a registration the verifier accepts, with a new credential, always succeeds.
\<close>

definition fresh_events :: "env \<Rightarrow> db \<Rightarrow> bool" where
  "fresh_events E d \<longleftrightarrow> (\<forall>n. uuid_v7 E n \<notin> ev_id ` set (db_history d))"

lemma pg_event_run:
  assumes "no_faults E" and "fresh_events E (store w)"
  obtains w' e where "pg_event E a s cid kd res code w = (Inr (), w')"
    "store w' = (store w)\<lparr>db_history := db_history (store w) @ [e]\<rparr>"
  using assms that
  by (auto simp: pg_event_def and_then_def new_uuid_def read_clock_def exec_def no_faults_def
      fresh_events_def insert_history_def Let_def)

lemma update_state_run:
  "st \<in> set ceremony_states \<Longrightarrow> \<exists>d'. update_state t st i d = Inr ((), d')
    \<and> db_history d' = db_history d"
  by (auto simp: update_state_def)

lemma final_state_known: "final_state k out \<in> set ceremony_states"
  by (simp add: final_state_def ceremony_states_def split: sum.splits)

text \<open>Recording an outcome cannot fail then.\<close>

lemma finish_record_run:
  assumes nf: "no_faults E" and fresh: "fresh_events E (store w)"
  obtains w' where "finish_record E k t c out w = (Inr (), w')"
proof -
  obtain d1 where d1: "update_state t (final_state k out) (cer_id c) (store w) = Inr ((), d1)"
    "db_history d1 = db_history (store w)"
    using update_state_run [OF final_state_known] by blast
  let ?w1 = "w\<lparr>calls := Suc (calls w), store := d1\<rparr>"
  let ?cid = "case out of Inl _ \<Rightarrow> '''' | Inr cr \<Rightarrow> cred_id cr"
  let ?code = "case out of Inl e \<Rightarrow> Some e | Inr _ \<Rightarrow> None"
  let ?link = "if k = Authentication \<and> ?code = None
    then exec E (update_auth_credential ?cid (cer_id c)) else ret ()"
  have "\<exists>w2. ?link ?w1 = (Inr (), w2) \<and> db_history (store w2) = db_history (store w)"
  proof (cases "k = Authentication \<and> ?code = None")
    case True
    then show ?thesis
      using exec_run [OF nf, of "update_auth_credential ?cid (cer_id c)" ?w1 "()"] d1(2)
      by (simp add: update_auth_credential_def)
  qed (auto simp: ret_def d1)
  then obtain w2 where w2: "?link ?w1 = (Inr (), w2)" "db_history (store w2) = db_history (store w)"
    by blast
  with fresh have "fresh_events E (store w2)" by (simp add: fresh_events_def)
  from pg_event_run [OF nf this] obtain w3 where
    "pg_event E (cer_application c) (cer_subject c) ?cid (k @ ''.finish'') (final_state k out) ?code w2
      = (Inr (), w3)" by blast
  with w2 exec_run [of E "update_state t (final_state k out) (cer_id c)" w, OF nf d1(1)] that show ?thesis
    by (auto simp: finish_record_def Let_def and_then_run)
qed

text \<open>Up to the verification nothing can fail either.\<close>

lemma finish_body_run:
  assumes nf: "no_faults E" and c: "select_by_token t h (store w) = Some c" "auth c = None"
    "cer_state c = pending"
  obtains w1 where "store w1 = store w"
    "finish_body E k t h auth ver w
      = and_then (finish_verify E k c (clock E (ticks w)) ver) (\<lambda>v.
        and_then (finish_apply E k c (clock E (ticks w)) v) (\<lambda>out.
        and_then (finish_record E k t c out) (\<lambda>_. ret out))) w1"
  using that [of "w\<lparr>locks := lock_key (sha256 E) (cer_application c) (cer_subject c) # locks w,
      calls := calls w + 3, ticks := Suc (ticks w)\<rparr>"] c
  by (simp add: finish_body_def and_then_run exec_query_run [OF nf] guard_def ret_def
      lock_subject_def database_now_def exec_no_op_run [OF nf] hold_def read_clock_def
      eval_nat_numeral)

lemma transaction_result:
  assumes "no_faults E" and "body (w\<lparr>calls := Suc (calls w)\<rparr>) = (Inr x, w2)"
  obtains w' where "transaction E body w = (Inr x, w')" "store w' = store w2"
  using transaction_run [of E body w x w2] assms by (auto simp: no_faults_def)

lemma pg_finish_result:
  assumes nf: "no_faults E" and k: "kind_valid k"
    and body: "finish_body E k k h auth ver (w\<lparr>calls := Suc (calls w)\<rparr>) = (Inr out, w2)"
  obtains w' where "pg_finish E k h auth ver w = (out, w')" "store w' = store w2"
proof -
  from transaction_result [of E "finish_body E k k h auth ver" w, OF nf body] obtain w' where
    "transaction E (finish_body E k k h auth ver) w = (Inr out, w')" "store w' = store w2" by blast
  with k ceremony_table_Inr [of k k] that show ?thesis
    by (auto simp: pg_finish_def and_then_run of_result_def)
qed

lemma pg_finish_expires:
  assumes nf: "no_faults E" and fresh: "fresh_events E (store w)" and k: "kind_valid k"
    and c: "select_by_token k h (store w) = Some c" "auth c = None" "cer_state c = pending"
    and late: "\<not> clock E (ticks w) < cer_expires_at c"
  obtains w' where "pg_finish E k h auth ver w = (Inl (Code (kind_expired k)), w')"
    "finished k h c (clock E (ticks w)) (Inl (Code (kind_expired k))) (store w) (store w')"
proof -
  let ?w = "w\<lparr>calls := Suc (calls w)\<rparr>" and ?out = "Inl (Code (kind_expired k)) :: err + credential"
  have sel: "select_by_token k h (store ?w) = Some c" using c by simp
  obtain w1 where w1: "store w1 = store w" "finish_body E k k h auth ver ?w
      = and_then (finish_verify E k c (clock E (ticks w)) ver) (\<lambda>v.
        and_then (finish_apply E k c (clock E (ticks w)) v) (\<lambda>out.
        and_then (finish_record E k k c out) (\<lambda>_. ret out))) w1"
    by (rule finish_body_run [where t = k and w = ?w and auth = auth, OF nf sel c(2,3)]) auto
  with fresh have "fresh_events E (store w1)" by simp
  from finish_record_run [OF nf this] obtain w2 where rec: "finish_record E k k c ?out w1 = (Inr (), w2)"
    by blast
  have trans: "finished k h c (clock E (ticks w)) ?out (store w1) (store w2)"
    by (rule expired_transition [OF rec k]) (use c w1 late in simp_all)
  from rec w1 c(3) late have "finish_body E k k h auth ver ?w = (Inr ?out, w2)"
    by (simp add: finish_verify_def ceremony_check_def finish_apply_def ret_def and_then_run)
  from pg_finish_result [OF nf k this] obtain w' where
    "pg_finish E k h auth ver w = (?out, w')" "store w' = store w2" by blast
  with that trans w1(1) show ?thesis by simp
qed

text \<open>What makes a verified credential a new one.\<close>

definition new_credential :: "ceremony \<Rightarrow> db \<Rightarrow> credential \<Rightarrow> bool" where
  "new_credential c d cr \<longleftrightarrow>
     credential_check cr
     \<and> (cer_rpid c, cred_webauthn_id cr) \<notin> rp_key ` set (db_credential d)
     \<and> cred_id cr \<notin> cred_id ` set (db_credential d)"

lemma finish_apply_new:
  assumes nf: "no_faults E" and new: "new_credential c (store w) cr"
  obtains w' where "finish_apply E Registration c now (Inr cr) w = (Inr (Inr (cr\<lparr>cred_created_at := now\<rparr>)), w')"
    "db_history (store w') = db_history (store w)"
proof -
  let ?row = "registered_row c now (cr\<lparr>cred_created_at := now\<rparr>)"
  have "insert_credential ?row (store w)
    = Inr (1, (store w)\<lparr>db_credential := db_credential (store w) @ [?row]\<rparr>)"
    using new by (simp add: insert_credential_def new_credential_def registered_row_def
        credential_check_def rp_key_def)
  from exec_run [of E "insert_credential ?row" w, OF nf this] that show ?thesis
    by (simp add: finish_apply_def Let_def and_then_run ret_def)
qed

lemma pg_finish_registers:
  assumes nf: "no_faults E" and fresh: "fresh_events E (store w)"
    and c: "select_by_token Registration h (store w) = Some c" "auth c = None" "cer_state c = pending"
    and early: "clock E (ticks w) < cer_expires_at c"
    and ver: "\<And>w1. store w1 = store w \<Longrightarrow> \<exists>cr w2. store w2 = store w \<and> new_credential c (store w) cr
      \<and> ver c (select_credentials (cer_application c) (cer_subject c) (store w)) w1 = (Inr cr, w2)"
  obtains cr w' where "pg_finish E Registration h auth ver w = (Inr cr, w')"
proof -
  let ?w = "w\<lparr>calls := Suc (calls w)\<rparr>" and ?now = "clock E (ticks w)"
  have sel: "select_by_token Registration h (store ?w) = Some c" using c by simp
  obtain w1 where w1: "store w1 = store w" "finish_body E Registration Registration h auth ver ?w
      = and_then (finish_verify E Registration c ?now ver) (\<lambda>v.
        and_then (finish_apply E Registration c ?now v) (\<lambda>out.
        and_then (finish_record E Registration Registration c out) (\<lambda>_. ret out))) w1"
    by (rule finish_body_run [where t = Registration and w = ?w and auth = auth, OF nf sel c(2,3)]) auto
  from ver [of "w1\<lparr>calls := Suc (calls w1)\<rparr>"] w1(1) obtain cr w2 where
    w2: "store w2 = store w" and new: "new_credential c (store w2) cr" and
    v: "ver c (select_credentials (cer_application c) (cer_subject c) (store w))
      (w1\<lparr>calls := Suc (calls w1)\<rparr>) = (Inr cr, w2)" by auto
  have fv: "finish_verify E Registration c ?now ver w1 = (Inr (Inr cr), w2)"
    using c(3) early v w1(1)
    by (simp add: finish_verify_def ceremony_check_def read_credentials_def exec_query_run [OF nf]
        and_then_run attempt_def ret_def)
  obtain w3 where fa: "finish_apply E Registration c ?now (Inr cr) w2
      = (Inr (Inr (cr\<lparr>cred_created_at := ?now\<rparr>)), w3)" and h: "db_history (store w3) = db_history (store w2)"
    by (rule finish_apply_new [OF nf new])
  from fresh w2 h have "fresh_events E (store w3)" by (simp add: fresh_events_def)
  from finish_record_run [OF nf this] obtain w4 where
    "finish_record E Registration Registration c (Inr (cr\<lparr>cred_created_at := ?now\<rparr>)) w3 = (Inr (), w4)"
    by blast
  with w1(2) fv fa have "finish_body E Registration Registration h auth ver ?w
      = (Inr (Inr (cr\<lparr>cred_created_at := ?now\<rparr>)), w4)"
    by (simp add: and_then_run ret_def)
  from pg_finish_result [OF nf _ this] that show ?thesis by auto
qed


subsection \<open>The server without failures\<close>

lemma server_parts:
  "svc_repository (passkey_server E lib rps apps) = postgres E"
  "svc_webauthn (passkey_server E lib rps apps) = webauthn_adapter E lib rps"
  by (simp_all add: passkey_server_def new_service_def)

lemma server_finish_expires:
  assumes "no_faults E" and "fresh_events E (store w)" and "acceptable_response resp"
    and "kind_valid k" and t: "token_hash (sha256 E) t = Inr h"
    and "select_by_token k (sha256 E t) (store w) = Some c"
    and "finish_authorize (passkey_server E lib rps apps) k fp c = None" and "cer_state c = pending"
    and "\<not> clock E (ticks w) < cer_expires_at c"
  obtains w' where "service_finish E (passkey_server E lib rps apps) k t resp fp w
      = (Inl (Code (kind_expired k)), w')"
    "finished k h c (clock E (ticks w)) (Inl (Code (kind_expired k))) (store w) (store w')"
proof -
  have h: "h = sha256 E t" using token_hash_Inr [OF t] by simp
  obtain w' where "pg_finish E k h (finish_authorize (passkey_server E lib rps apps) k fp)
    (finish_verifier (passkey_server E lib rps apps) k resp) w = (Inl (Code (kind_expired k)), w')"
    "finished k h c (clock E (ticks w)) (Inl (Code (kind_expired k))) (store w) (store w')"
    by (rule pg_finish_expires [where auth = "finish_authorize (passkey_server E lib rps apps) k fp"])
      (use assms h in auto)
  with that show ?thesis
    by (simp add: service_finish_run [OF assms(3,4) t] server_parts postgres_def and_then_def)
qed

lemma server_finish_registers:
  assumes "no_faults E" and "fresh_events E (store w)" and "acceptable_response resp"
    and t: "token_hash (sha256 E) t = Inr h"
    and "select_by_token Registration (sha256 E t) (store w) = Some c"
    and "finish_authorize (passkey_server E lib rps apps) Registration fp c = None"
    and "cer_state c = pending" and "clock E (ticks w) < cer_expires_at c"
    and "\<And>w1. store w1 = store w \<Longrightarrow> \<exists>cr w2. store w2 = store w \<and> new_credential c (store w) cr
      \<and> finish_verifier (passkey_server E lib rps apps) Registration resp c
          (select_credentials (cer_application c) (cer_subject c) (store w)) w1 = (Inr cr, w2)"
  shows "\<not> isl (fst (service_finish E (passkey_server E lib rps apps) Registration t resp fp w))"
proof -
  have h: "h = sha256 E t" using token_hash_Inr [OF t] by simp
  obtain cr w' where "pg_finish E Registration h
    (finish_authorize (passkey_server E lib rps apps) Registration fp)
    (finish_verifier (passkey_server E lib rps apps) Registration resp) w = (Inr cr, w')"
    by (rule pg_finish_registers [where auth = "finish_authorize (passkey_server E lib rps apps) Registration fp"])
      (use assms h in auto)
  then show ?thesis
    by (simp add: service_finish_run [OF assms(3) _ t] server_parts postgres_def and_then_def ret_def)
qed

end
