(* ===== verification/Config_Text.thy ===== *)
theory Config_Text
  imports Config
begin

section \<open>Writing a configuration down\<close>

text \<open>
  The JSON text of a decoded value, and that the decoder reads it back: at every place a value can
  stand, the token pass goes over it, \<open>skip_value\<close> stops behind it and \<open>decode_value\<close> returns it. The
  strings are any UTF-8 texts, the member names plain ones, which JSON does not escape.
\<close>

fun print_value :: "go_value \<Rightarrow> string"
  and print_elements :: "bool \<Rightarrow> go_value list \<Rightarrow> string"
  and print_fields :: "bool \<Rightarrow> (string \<times> go_value) list \<Rightarrow> string" where
  "print_value (StringValue s) = quote # escape s @ [quote]"
| "print_value (BoolValue b) = (if b then ''true'' else ''false'')"
| "print_value (SliceValue vs) = CHR ''['' # print_elements False vs"
| "print_value (StructValue ms) = CHR ''{'' # print_fields False ms"
| "print_elements b [] = '']''"
| "print_elements b (v # vs) = (if b then '','' else '''') @ print_value v @ print_elements True vs"
| "print_fields b [] = ''}''"
| "print_fields b ((n, v) # ms) =
     (if b then '','' else '''') @ quote # n @ quote # CHR '':'' # print_value v @ print_fields True ms"

text \<open>A value of a type that opens at most \<open>n\<close> containers within each other.\<close>

fun typed :: "nat \<Rightarrow> go_type \<Rightarrow> go_value \<Rightarrow> bool" where
  "typed n GoString (StringValue s) = utf8_valid s"
| "typed n GoBool (BoolValue b) = True"
| "typed (Suc n) (GoSlice el) (SliceValue vs) = list_all (typed n el) vs"
| "typed (Suc n) (GoStruct members) (StructValue ms) =
     (distinct (map fst ms)
      \<and> list_all (\<lambda>m. plain (fst m)
          \<and> (case map_of members (fst m) of None \<Rightarrow> False | Some ty \<Rightarrow> typed n ty (snd m))) ms)"
| "typed n _ _ = False"

text \<open>Where a value can stand, and what separates it from what was read before.\<close>

definition value_due :: "jstack \<Rightarrow> bool" where
  "value_due st = (case st of FObject ns b # up \<Rightarrow> b | _ \<Rightarrow> True)"

definition separator :: "jstack \<Rightarrow> string" where
  "separator st =
     (case st of FObject ns b # up \<Rightarrow> '':'' | FArray True # up \<Rightarrow> '','' | _ \<Rightarrow> '''')"

definition resume :: "nat \<Rightarrow> jstack \<Rightarrow> string \<Rightarrow> (jstack \<times> string) option" where
  "resume d st r = (if length st \<le> d then Some (st, r) else skip_value d st r)"

definition reads_value :: "go_type \<Rightarrow> go_value \<Rightarrow> jstack \<Rightarrow> bool" where
  "reads_value ty v st \<longleftrightarrow>
     (\<forall>r. let s = separator st @ print_value v @ r in
        (\<exists>t st1 r1. read_token st s = JToken t st1 r1 \<and> t \<noteq> TEndArray)
        \<and> (\<forall>d \<le> length st. skip_value d st s = resume d (value_done st) r)
        \<and> token_pass st s = token_pass (value_done st) r
        \<and> decode_value ty st s = Inr v)"

lemma reads_valueD:
  assumes "reads_value ty v st"
  shows "\<exists>t st1 r1. read_token st (separator st @ print_value v @ r) = JToken t st1 r1 \<and> t \<noteq> TEndArray"
    and "d \<le> length st \<Longrightarrow> skip_value d st (separator st @ print_value v @ r) = resume d (value_done st) r"
    and "token_pass st (separator st @ print_value v @ r) = token_pass (value_done st) r"
    and "decode_value ty st (separator st @ print_value v @ r) = Inr v"
  using assms by (auto simp: reads_value_def Let_def)

lemma bracket_nat: "byte_nat CHR ''['' = 91" "byte_nat CHR '']'' = 93" "byte_nat CHR ''t'' = 116"
  "byte_nat CHR ''f'' = 102"
  by (simp_all add: byte_nat_def)

lemma bracket_no_space [simp]: "\<not> is_json_space CHR ''[''" "\<not> is_json_space CHR '']''"
  "\<not> is_json_space CHR ''t''" "\<not> is_json_space CHR ''f''"
  by (simp_all add: is_json_space_def bracket_nat)

lemma quote_not_closing [simp]: "quote \<noteq> CHR '']''"
  by code_simp

lemma read_value_start:
  "value_due st \<Longrightarrow> \<not> is_json_space c \<Longrightarrow> c \<noteq> CHR '']'' \<Longrightarrow>
    read_token st (separator st @ c # s) = read_value st (c # s)"
  by (cases "(st, s)" rule: read_token.cases) (auto simp: value_due_def separator_def split: bool.splits)

text \<open>A value that is one token.\<close>

lemma reads_scalar:
  assumes "\<And>r. read_token st (separator st @ print_value v @ r) = JToken t (value_done st) r"
    and "\<And>s st1 r. read_token st s = JToken t st1 r \<Longrightarrow> decode_value ty st s = Inr v"
    and "t \<noteq> TEndArray" and "length st \<le> 32"
  shows "reads_value ty v st"
  using assms
  by (auto simp: reads_value_def Let_def resume_def skip_value.simps [of _ st] token_pass.simps [of st])

lemma reads_string: "value_due st \<Longrightarrow> length st \<le> 32 \<Longrightarrow> utf8_valid s \<Longrightarrow> reads_value GoString (StringValue s) st"
  by (rule reads_scalar [where t = "TString s"])
    (simp_all add: read_value_start read_value_def scan_escape decode_value.simps [of _ st]
      del: read_token.simps)

lemma reads_bool: "value_due st \<Longrightarrow> length st \<le> 32 \<Longrightarrow> reads_value GoBool (BoolValue b) st"
  by (rule reads_scalar [where t = "if b then TTrue else TFalse"])
    (simp_all add: read_value_start read_value_def bracket_nat literal_def has_prefix_def
      decode_value.simps [of _ st] del: read_token.simps split: if_splits)

lemma read_begin:
  assumes "value_due st" and "length st \<le> 32"
  shows "read_token st (separator st @ CHR ''['' # s) = JToken TBeginArray (FArray False # value_done st) s"
    and "read_token st (separator st @ CHR ''{'' # s) = JToken TBeginObject (FObject [] False # value_done st) s"
  using assms by (simp_all add: read_value_start read_value_def open_container_def max_nesting_def
      del: read_token.simps)

subsection \<open>Arrays\<close>

lemma element_here:
  "separator (FArray b # up) = (if b then '','' else '''')" "value_due (FArray b # up)"
  "value_done (FArray b # up) = FArray True # up"
  by (simp_all add: separator_def value_due_def value_done_def)

lemma elements_step:
  assumes "reads_value el v (FArray b # up)"
  shows "d \<le> length up \<Longrightarrow> skip_value d (FArray b # up) (print_elements b (v # vs) @ r)
      = skip_value d (FArray True # up) (print_elements True vs @ r)"
    and "token_pass (FArray b # up) (print_elements b (v # vs) @ r)
      = token_pass (FArray True # up) (print_elements True vs @ r)"
    and "decode_elements el (FArray b # up) (print_elements b (v # vs) @ r) acc
      = decode_elements el (FArray True # up) (print_elements True vs @ r) (acc @ [v])"
proof -
  let ?r = "print_elements True vs @ r"
  have whole: "print_elements b (v # vs) @ r = separator (FArray b # up) @ print_value v @ ?r"
    by (simp add: element_here)
  note reads = reads_valueD [OF assms, where r = ?r]
  show "d \<le> length up \<Longrightarrow> skip_value d (FArray b # up) (print_elements b (v # vs) @ r)
      = skip_value d (FArray True # up) ?r"
    unfolding whole using reads(2) [of d] by (simp add: resume_def element_here(3))
  show "token_pass (FArray b # up) (print_elements b (v # vs) @ r) = token_pass (FArray True # up) ?r"
    unfolding whole using reads(3) by (simp add: element_here(3))
  from reads(1) obtain t st1 r1 where tok:
    "read_token (FArray b # up) (separator (FArray b # up) @ print_value v @ ?r) = JToken t st1 r1"
    "t \<noteq> TEndArray" by blast
  show "decode_elements el (FArray b # up) (print_elements b (v # vs) @ r) acc
      = decode_elements el (FArray True # up) ?r (acc @ [v])"
    unfolding whole using tok reads(2) [of "length (FArray b # up)"] reads(4)
    by (simp add: decode_elements.simps [of el "FArray b # up"] resume_def element_here(3)
        del: read_token.simps)
qed

lemma reads_elements:
  assumes "\<forall>v \<in> set vs. \<forall>b. reads_value el v (FArray b # up)" and "length up \<le> 32"
  shows "d \<le> length up \<Longrightarrow> skip_value d (FArray b # up) (print_elements b vs @ r) = resume d up r"
    and "token_pass (FArray b # up) (print_elements b vs @ r) = token_pass up r"
    and "decode_elements el (FArray b # up) (print_elements b vs @ r) acc = Inr (SliceValue (acc @ vs))"
  using assms(1)
proof (induction vs arbitrary: b acc)
  case Nil
  { case 1 then show ?case
      by (simp add: skip_value.simps [of d "FArray b # up"] bracket_tokens resume_def del: read_token.simps) }
  { case 2 then show ?case
      by (simp add: token_pass.simps [of "FArray b # up"] bracket_tokens is_end_def del: read_token.simps) }
  { case 3 then show ?case
      by (simp add: decode_elements.simps [of el "FArray b # up"] bracket_tokens del: read_token.simps) }
next
  case (Cons v vs)
  { case 1 then show ?case using elements_step(1) [of el v b up d vs r] Cons.IH(1) [of True] by simp }
  { case 2 then show ?case using elements_step(2) [of el v b up vs r] Cons.IH(2) [of True] by simp }
  { case 3 then show ?case
      using elements_step(3) [of el v b up vs r acc] Cons.IH(3) [of True "acc @ [v]"] by simp }
qed

lemma reads_slice:
  assumes "\<forall>v \<in> set vs. \<forall>b up. length up \<le> length st \<longrightarrow> reads_value el v (FArray b # up)"
    and "value_due st" and "length st \<le> 32"
  shows "reads_value (GoSlice el) (SliceValue vs) st"
proof -
  have elements: "\<forall>v \<in> set vs. \<forall>b. reads_value el v (FArray b # value_done st)"
    using assms(1) by simp
  note reads = reads_elements [OF elements] and begins = read_begin(1) [OF assms(2,3)]
  show ?thesis
    unfolding reads_value_def Let_def
  proof (intro allI conjI impI)
    fix r
    show "\<exists>t st1 r1. read_token st (separator st @ print_value (SliceValue vs) @ r) = JToken t st1 r1
        \<and> t \<noteq> TEndArray"
      using begins by simp
    show "skip_value d st (separator st @ print_value (SliceValue vs) @ r) = resume d (value_done st) r"
      if "d \<le> length st" for d
      using that assms(3) begins reads(1)
      by (simp add: skip_value.simps [of d st] del: print_elements.simps)
    show "token_pass st (separator st @ print_value (SliceValue vs) @ r) = token_pass (value_done st) r"
      using assms(3) begins reads(2)
      by (simp add: token_pass.simps [of st] is_end_def del: print_elements.simps)
    show "decode_value (GoSlice el) st (separator st @ print_value (SliceValue vs) @ r)
        = Inr (SliceValue vs)"
      using assms(3) begins reads(3) [where acc = "[]"]
      by (simp add: decode_value.simps [of _ st] del: print_elements.simps)
  qed
qed

subsection \<open>Objects\<close>

lemma field_here:
  "separator (FObject ns True # up) = '':''" "value_due (FObject ns True # up)"
  "value_done (FObject ns True # up) = FObject ns False # up"
  by (simp_all add: separator_def value_due_def value_done_def)

lemma read_field_name:
  assumes "plain n" and "n \<notin> set ns"
  shows "read_token (FObject ns False # up) ((if ns \<noteq> [] then '','' else '''') @ quote # n @ quote # s)
    = JToken (TString n) (FObject (n # ns) True # up) s"
  using assms read_next_name [of n ns up s] read_first_name [of n up s]
  by (cases "ns = []") (simp_all del: read_token.simps)

lemma fields_step:
  assumes "reads_value ty v (FObject (n # ns) True # up)" and "plain n" and "n \<notin> set ns"
    and "map_of members n = Some ty" and "length up < 32"
  shows "d \<le> length up \<Longrightarrow> skip_value d (FObject ns False # up) (print_fields (ns \<noteq> []) ((n, v) # ms) @ r)
      = skip_value d (FObject (n # ns) False # up) (print_fields True ms @ r)"
    and "token_pass (FObject ns False # up) (print_fields (ns \<noteq> []) ((n, v) # ms) @ r)
      = token_pass (FObject (n # ns) False # up) (print_fields True ms @ r)"
    and "decode_struct members (FObject ns False # up) (print_fields (ns \<noteq> []) ((n, v) # ms) @ r) acc
      = decode_struct members (FObject (n # ns) False # up) (print_fields True ms @ r) (acc @ [(n, v)])"
proof -
  let ?st = "FObject (n # ns) True # up" and ?r = "print_fields True ms @ r"
  let ?s = "separator ?st @ print_value v @ ?r"
  have whole: "print_fields (ns \<noteq> []) ((n, v) # ms) @ r
      = (if ns \<noteq> [] then '','' else '''') @ quote # n @ quote # ?s"
    by (simp add: field_here)
  note name = read_field_name [OF assms(2,3), of up ?s]
  note reads = reads_valueD [OF assms(1), where r = ?r]
  show "d \<le> length up \<Longrightarrow> skip_value d (FObject ns False # up)
      (print_fields (ns \<noteq> []) ((n, v) # ms) @ r) = skip_value d (FObject (n # ns) False # up) ?r"
    unfolding whole skip_value.simps [of d "FObject ns False # up"] name using reads(2) [of d]
    by (simp add: resume_def field_here(3))
  show "token_pass (FObject ns False # up) (print_fields (ns \<noteq> []) ((n, v) # ms) @ r)
      = token_pass (FObject (n # ns) False # up) ?r"
    unfolding whole token_pass.simps [of "FObject ns False # up"] name using reads(3) assms(5)
    by (simp add: field_here(3))
  show "decode_struct members (FObject ns False # up) (print_fields (ns \<noteq> []) ((n, v) # ms) @ r) acc
      = decode_struct members (FObject (n # ns) False # up) ?r (acc @ [(n, v)])"
    unfolding whole decode_struct.simps [of members "FObject ns False # up"] name
    using reads(2) [of "length ?st"] reads(4) assms(4) by (simp add: resume_def field_here(3))
qed

lemma reads_fields:
  assumes "\<forall>m \<in> set ms. plain (fst m) \<and> fst m \<notin> set ns
      \<and> (\<exists>ty. map_of members (fst m) = Some ty
          \<and> (\<forall>ns'. reads_value ty (snd m) (FObject ns' True # up)))"
    and "distinct (map fst ms)" and "length up < 32"
  shows "(d \<le> length up \<longrightarrow>
      skip_value d (FObject ns False # up) (print_fields (ns \<noteq> []) ms @ r) = resume d up r)
    \<and> token_pass (FObject ns False # up) (print_fields (ns \<noteq> []) ms @ r) = token_pass up r
    \<and> decode_struct members (FObject ns False # up) (print_fields (ns \<noteq> []) ms @ r) acc
      = Inr (StructValue (acc @ ms))"
  using assms(1,2)
proof (induction ms arbitrary: ns acc)
  case Nil
  then show ?case
    by (simp add: skip_value.simps [of d "FObject ns False # up"] token_pass.simps [of "FObject ns False # up"]
        decode_struct.simps [of _ "FObject ns False # up"] read_close resume_def is_end_def
        del: read_token.simps)
next
  case (Cons m ms)
  obtain n v where m: "m = (n, v)" by fastforce
  from Cons.prems m obtain ty where ty: "plain n" "n \<notin> set ns" "map_of members n = Some ty"
    "reads_value ty v (FObject (n # ns) True # up)" by auto
  have "\<forall>m \<in> set ms. plain (fst m) \<and> fst m \<notin> set (n # ns)
      \<and> (\<exists>ty. map_of members (fst m) = Some ty
          \<and> (\<forall>ns'. reads_value ty (snd m) (FObject ns' True # up)))" "distinct (map fst ms)"
    using Cons.prems m by (auto simp: rev_image_eqI)
  from Cons.IH [OF this, of "acc @ [(n, v)]"] show ?case
    using fields_step(1) [OF ty(4,1,2,3) assms(3), of d ms r]
      fields_step(2) [OF ty(4,1,2,3) assms(3), of ms r]
      fields_step(3) [OF ty(4,1,2,3) assms(3), of ms r acc] m
    by (simp del: print_fields.simps)
qed

lemma reads_struct:
  assumes "\<forall>m \<in> set ms. plain (fst m)
      \<and> (\<exists>ty. map_of members (fst m) = Some ty
          \<and> (\<forall>ns up. length up \<le> length st \<longrightarrow> reads_value ty (snd m) (FObject ns True # up)))"
    and "distinct (map fst ms)" and "value_due st" and "length st < 32"
  shows "reads_value (GoStruct members) (StructValue ms) st"
proof -
  have "\<forall>m \<in> set ms. plain (fst m) \<and> fst m \<notin> set []
      \<and> (\<exists>ty. map_of members (fst m) = Some ty
          \<and> (\<forall>ns'. reads_value ty (snd m) (FObject ns' True # value_done st)))"
    using assms(1) by fastforce
  note reads = reads_fields [OF this assms(2), unfolded length_value_done, OF assms(4), simplified]
  note begins = read_begin(2) [OF assms(3) less_imp_le [OF assms(4)]]
  show ?thesis
    unfolding reads_value_def Let_def
  proof (intro allI conjI impI)
    fix r
    show "\<exists>t st1 r1. read_token st (separator st @ print_value (StructValue ms) @ r) = JToken t st1 r1
        \<and> t \<noteq> TEndArray"
      using begins by simp
    show "skip_value d st (separator st @ print_value (StructValue ms) @ r) = resume d (value_done st) r"
      if "d \<le> length st" for d
      using that begins reads
      by (simp add: skip_value.simps [of d st] del: print_fields.simps)
    show "token_pass st (separator st @ print_value (StructValue ms) @ r) = token_pass (value_done st) r"
      using assms(4) begins reads
      by (simp add: token_pass.simps [of st] is_end_def del: print_fields.simps)
    show "decode_value (GoStruct members) st (separator st @ print_value (StructValue ms) @ r)
        = Inr (StructValue ms)"
      using begins reads [where acc = "[]"]
      by (simp add: decode_value.simps [of _ st] del: print_fields.simps)
  qed
qed

subsection \<open>Any typed value\<close>

lemma typed_reads:
  "typed n ty v \<Longrightarrow> value_due st \<Longrightarrow> length st + n \<le> 32 \<Longrightarrow> reads_value ty v st"
proof (induction n ty v arbitrary: st rule: typed.induct)
  case (3 n el vs)
  show ?case
  proof (rule reads_slice)
    show "\<forall>v \<in> set vs. \<forall>b up. length up \<le> length st \<longrightarrow> reads_value el v (FArray b # up)"
      using 3 by (auto simp: list_all_iff element_here)
  qed (use 3 in auto)
next
  case (4 n members ms)
  show ?case
  proof (rule reads_struct)
    have "\<exists>ty. map_of members (fst m) = Some ty
        \<and> (\<forall>ns up. length up \<le> length st \<longrightarrow> reads_value ty (snd m) (FObject ns True # up))"
      if m: "m \<in> set ms" for m
    proof -
      from 4 m obtain ty where ty: "map_of members (fst m) = Some ty" "typed n ty (snd m)"
        by (auto simp: list_all_iff split: option.splits)
      from "4.IH" [OF m ty(1) ty(2)] "4.prems"(3) ty(1) show ?thesis by (simp add: field_here)
    qed
    with 4 show "\<forall>m \<in> set ms. plain (fst m) \<and> (\<exists>ty. map_of members (fst m) = Some ty
        \<and> (\<forall>ns up. length up \<le> length st \<longrightarrow> reads_value ty (snd m) (FObject ns True # up)))"
      by (simp add: list_all_iff)
  qed (use 4 in auto)
qed (simp_all add: reads_string reads_bool)

lemma print_decodes:
  assumes "typed n ty v" and "n \<le> 32"
  shows "token_pass [] (print_value v) = None" and "unmarshal_value ty (print_value v) = Inr v"
proof -
  have "reads_value ty v []" using typed_reads [OF assms(1), of "[]"] assms(2) by (simp add: value_due_def)
  note reads = reads_valueD [OF this, where r = "[]"]
  show "token_pass [] (print_value v) = None"
    using reads(3) by (simp add: separator_def value_done_def token_pass.simps [of "[]" "[]"])
  show "unmarshal_value ty (print_value v) = Inr v"
    using reads(2) [of 0] reads(4)
    by (simp add: unmarshal_value_def separator_def value_done_def resume_def)
qed

subsection \<open>The text of a configuration\<close>

definition value_of_application :: "application \<Rightarrow> go_value" where
  "value_of_application a =
     StructValue
       [(''code'', StringValue (app_code a)), (''name'', StringValue (app_name a)),
        (''rpId'', StringValue (app_rpid a)),
        (''origins'', SliceValue (map StringValue (app_origins a))),
        (''clients'', SliceValue (map StringValue (app_clients a)))]"

definition value_of_config :: "config \<Rightarrow> go_value" where
  "value_of_config c =
     StructValue
       [(''admin'', StructValue
           [(''enabled'', BoolValue (adm_enabled (cfg_admin c))),
            (''username'', StringValue (adm_username (cfg_admin c))),
            (''passwordHash'', StringValue (adm_password_hash (cfg_admin c)))]),
        (''applications'', SliceValue (map value_of_application (cfg_applications c)))]"

definition print_config :: "config \<Rightarrow> string" where
  "print_config c = print_value (value_of_config c)"

definition utf8_application :: "application \<Rightarrow> bool" where
  "utf8_application a \<longleftrightarrow>
     utf8_valid (app_code a) \<and> utf8_valid (app_name a) \<and> utf8_valid (app_rpid a)
     \<and> list_all utf8_valid (app_origins a) \<and> list_all utf8_valid (app_clients a)"

definition utf8_config :: "config \<Rightarrow> bool" where
  "utf8_config c \<longleftrightarrow>
     utf8_valid (adm_username (cfg_admin c)) \<and> utf8_valid (adm_password_hash (cfg_admin c))
     \<and> list_all utf8_application (cfg_applications c)"

lemma application_of_value: "application_of (value_of_application a) = a"
  by (simp add: application_of_def value_of_application_def Let_def comp_def)

lemma config_of_value: "config_of (value_of_config c) = c"
  by (simp add: config_of_def value_of_config_def Let_def comp_def application_of_value)

lemma plain_names: "plain ''code''" "plain ''name''" "plain ''rpId''" "plain ''origins''"
  "plain ''clients''" "plain ''admin''" "plain ''enabled''" "plain ''username''"
  "plain ''passwordHash''" "plain ''applications''"
  by code_simp+

lemma typed_strings: "typed n (GoSlice GoString) (SliceValue (map StringValue ss)) \<longleftrightarrow> n \<noteq> 0 \<and> list_all utf8_valid ss"
  by (cases n) (simp_all add: list_all_iff)

lemma typed_struct:
  assumes "distinct (map fst members)"
    and "list_all2 (\<lambda>m f. fst f = fst m \<and> plain (fst m) \<and> typed n (snd m) (snd f)) members ms"
  shows "typed (Suc n) (GoStruct members) (StructValue ms)"
proof -
  from assms(2) have names: "map fst ms = map fst members"
    by (induction rule: list_all2_induct) auto
  have "plain (fst f) \<and> (\<exists>ty. map_of members (fst f) = Some ty \<and> typed n ty (snd f))" if "f \<in> set ms" for f
  proof -
    from that obtain i where i: "i < length ms" "f = ms ! i" by (auto simp: in_set_conv_nth)
    with list_all2_nthD2 [OF assms(2) i(1)] list_all2_lengthD [OF assms(2)]
    have "members ! i \<in> set members" "fst f = fst (members ! i)" "plain (fst f)"
      "typed n (snd (members ! i)) (snd f)" by auto
    with map_of_is_SomeI [OF assms(1), of "fst f" "snd (members ! i)"] show ?thesis by simp
  qed
  with names assms(1) show ?thesis by (fastforce simp: list_all_iff)
qed

lemma typed_application: "utf8_application a \<Longrightarrow> typed 2 application_type (value_of_application a)"
  unfolding application_type_def value_of_application_def numeral_2_eq_2
  by (rule typed_struct) (simp_all add: utf8_application_def plain_names typed_strings)

lemma typed_config:
  assumes "utf8_config c"
  shows "typed 4 config_type (value_of_config c)"
proof -
  have "typed 2 application_type (value_of_application a)" if "a \<in> set (cfg_applications c)" for a
    using assms that typed_application by (simp add: utf8_config_def list_all_iff)
  then have apps: "typed (Suc 2) (GoSlice application_type)
      (SliceValue (map value_of_application (cfg_applications c)))"
    unfolding typed.simps by (simp add: list_all_iff)
  have admin: "typed (Suc 2)
      (GoStruct [(''enabled'', GoBool), (''username'', GoString), (''passwordHash'', GoString)])
      (StructValue
           [(''enabled'', BoolValue (adm_enabled (cfg_admin c))),
            (''username'', StringValue (adm_username (cfg_admin c))),
            (''passwordHash'', StringValue (adm_password_hash (cfg_admin c)))])"
    by (rule typed_struct) (use assms in \<open>simp_all add: plain_names utf8_config_def\<close>)
  have "typed (Suc (Suc 2)) config_type (value_of_config c)"
    unfolding config_type_def value_of_config_def
    by (rule typed_struct) (use apps admin in \<open>simp_all add: plain_names\<close>)
  then show ?thesis by (simp add: numeral_eq_Suc)
qed

subsection \<open>What is written is loaded\<close>

lemma symbols_ascii [simp]: "byte_nat CHR '','' < 128" "byte_nat CHR '':'' < 128" "byte_nat CHR ''{'' < 128"
  "byte_nat CHR ''}'' < 128" "byte_nat CHR ''['' < 128" "byte_nat CHR '']'' < 128" "byte_nat quote < 128"
  by (simp_all add: punctuation_nat bracket_nat)

lemma elements_utf8:
  "\<forall>v \<in> set vs. utf8_valid (print_value v) \<Longrightarrow> utf8_valid (print_elements b vs)"
  by (induction vs arbitrary: b) (auto simp: utf8_ascii_Cons utf8_append)

lemma fields_utf8:
  "\<forall>m \<in> set ms. plain (fst m) \<and> utf8_valid (print_value (snd m)) \<Longrightarrow> utf8_valid (print_fields b ms)"
  by (induction ms arbitrary: b) (auto simp: utf8_ascii_Cons utf8_append plain_utf8)

lemma print_utf8: "typed n ty v \<Longrightarrow> utf8_valid (print_value v)"
proof (induction n ty v rule: typed.induct)
  case (2 n b)
  have "utf8_valid ''true''" "utf8_valid ''false''" by code_simp+
  then show ?case by simp
next
  case (3 n el vs)
  then show ?case by (simp add: utf8_ascii_Cons elements_utf8 list_all_iff)
next
  case (4 n members ms)
  have "plain (fst m) \<and> utf8_valid (print_value (snd m))" if m: "m \<in> set ms" for m
  proof -
    from 4 m obtain ty where "map_of members (fst m) = Some ty" "typed n ty (snd m)" "plain (fst m)"
      by (auto simp: list_all_iff split: option.splits)
    with "4.IH" [OF m] show ?thesis by simp
  qed
  then show ?case by (simp add: utf8_ascii_Cons fields_utf8)
qed (auto simp: utf8_ascii_Cons escape_utf8 intro!: utf8_append)

lemma fields_end: "\<exists>p. print_fields b ms = p @ ''}''"
proof (induction ms arbitrary: b)
  case (Cons m ms)
  obtain n v where m: "m = (n, v)" by fastforce
  from Cons obtain p where "print_fields True ms = p @ ''}''" by blast
  then have "print_fields b ((n, v) # ms)
      = ((if b then '','' else '''') @ quote # n @ quote # CHR '':'' # print_value v @ p) @ ''}''"
    by simp
  with m show ?case by blast
qed simp

lemma print_config_loads:
  assumes "check_config L c = None" and "utf8_config c"
    and "length (print_config c) \<le> max_config_bytes"
  shows "load_config L (Inr (print_config c)) = Inr c"
proof -
  note typed = typed_config [OF assms(2)]
  note decodes = print_decodes [OF typed, folded print_config_def]
  have utf8: "utf8_valid (print_config c)"
    unfolding print_config_def by (rule print_utf8 [OF typed])
  obtain p where p: "print_config c = CHR ''{'' # p @ ''}''"
    using fields_end unfolding print_config_def value_of_config_def print_value.simps by metis
  have "no_space_byte CHR ''{''" "no_space_byte CHR ''}''"
    by (rule no_space_byte_graphic; simp add: punctuation_nat)+
  then have "trim_space (print_config c) = CHR ''{'' # p @ ''}''"
    using trim_space_graphic p by simp
  with decodes have "strict_with (unmarshal_value config_type) (print_config c) = Inr (value_of_config c)"
    by (simp add: strict_with_def)
  with assms utf8 show ?thesis by (simp add: load_config_def Let_def config_of_value)
qed

end
