(* ===== verification/Example.thy ===== *)
theory Example
  imports Progress Server Config_Text
begin

section \<open>A small concrete server\<close>

text \<open>
  One application, a WebAuthn library that accepts every response, an environment without
  failures whose clock ticks in nanoseconds, and the worlds after a registration and after an
  authentication. Theorems with hypotheses are instantiated here, so that the hypotheses are
  seen to hold of a running server.
\<close>

definition ex_env :: env where
  "ex_env =
     \<lparr>fault = (\<lambda>_. None), uuid_v7 = (\<lambda>n. uuid_string (replicate 15 nul @ [nat_byte n])),
      rand_bytes = (\<lambda>n. replicate 31 nul @ [nat_byte n]), clock = int,
      sha256 = (\<lambda>b. take 32 (rev b @ replicate 32 nul))\<rparr>"

definition ex_key :: wa_credential where
  "ex_key =
     \<lparr>wc_id = ''key'', wc_public_key = ''public'', wc_transport = [], wc_backup_eligible = False,
      wc_backup_state = False, wc_sign_count = 1, wc_aaguid = '''', wc_clone_warning = False,
      wc_rk = Some True, wc_rest = ''''\<rparr>"

definition ex_lib :: "(string, string, string, string) wa_lib" where
  "ex_lib =
     \<lparr>lib_new = Inr, lib_recommended = [-7, -257, -8], lib_descriptor = wc_id,
      lib_decode_credential = (\<lambda>b. Inr (ex_key\<lparr>wc_id := b\<rparr>)),
      lib_encode_credential = (\<lambda>c. Inr (wc_id c)),
      lib_decode_session = Inr, lib_encode_session = Inr, lib_encode_options = Inr,
      lib_begin_registration = (\<lambda>_ _ _ _ _ _. Inr (''{}'', ''session'')),
      lib_begin_login = (\<lambda>_ _ _ _ _. Inr (''{}'', ''session'')),
      lib_parse_creation = Inr, lib_creation_origin = (\<lambda>_. ''https://example.com''),
      lib_create_credential = (\<lambda>_ _ _ _ _. Inr ex_key),
      lib_parse_assertion = Inr, lib_assertion_origin = (\<lambda>_. ''https://example.com''),
      lib_validate_login = (\<lambda>_ _ _ _ _. Inr ex_key),
      lib_parse_public_key = (\<lambda>_. Inr (EC2Key (-7)))\<rparr>"

definition ex_app :: application where
  "ex_app =
     \<lparr>app_code = ''shop'', app_name = ''Shop'', app_rpid = ''example.com'',
      app_origins = [''https://example.com''], app_clients = [''sha256:client'']\<rparr>"

definition ex_client :: string where
  "ex_client = ''sha256:client''"

definition ex_rps :: rps where
  "ex_rps = [''shop'' \<mapsto> rp_config ex_app]"

definition ex_server :: service where
  "ex_server = passkey_server ex_env ex_lib ex_rps [ex_app]"

definition ex_world :: world where
  "ex_world = \<lparr>store = empty_db, calls = 0, uuids = 0, rands = 0, ticks = 0, locks = [], sessions = [], limiter = \<lparr>lim_tokens = 5, lim_refill = 0\<rparr>\<rparr>"

text \<open>The token of the n-th ceremony whose server has read \<open>n\<close> random buffers before.\<close>

definition ex_token :: "nat \<Rightarrow> string" where
  "ex_token n = new_token (replicate 31 nul @ [nat_byte n])"

subsection \<open>How the parts evaluate\<close>

lemma ex_valid: "valid_application_code ''shop''" "valid_subject ''alice''" "valid_display_name ''''"
  by code_simp+

lemma ex_trim: "trim_space ''{}'' = ''{}''"
  by code_simp

lemma ex_tokens:
  "read_token [] ''{}'' = JToken TBeginObject [FObject [] False] ''}''"
  "read_token [FObject [] False] ''}'' = JToken TEndObject [] ''''"
  by code_simp+

lemma ex_json: "json_valid ''{}''"
  by (simp add: json_valid_def skip_value.simps ex_tokens del: read_token.simps)

lemma ex_hash:
  "token_hash (sha256 ex_env) (new_token (replicate 31 nul @ [nat_byte n]))
    = Inr (sha256 ex_env (ex_token n))"
  "token_hash (sha256 ex_env) (ex_token n) = Inr (sha256 ex_env (ex_token n))"
  by (simp_all add: ex_token_def token_hash_new)

lemma ex_sha: "length (sha256 ex_env b) = 32"
  by (simp add: ex_env_def)

lemma ex_env_simps:
  "fault ex_env n = None" "clock ex_env n = int n"
  "rand_bytes ex_env n = replicate 31 nul @ [nat_byte n]"
  by (simp_all add: ex_env_def)

lemma ex_uuid_eq:
  assumes "m < 256" and "n < 256"
  shows "uuid_v7 ex_env m = uuid_v7 ex_env n \<longleftrightarrow> m = n"
proof
  assume "uuid_v7 ex_env m = uuid_v7 ex_env n"
  then have "uuid_parse (uuid_string (replicate 15 nul @ [nat_byte m]))
    = uuid_parse (uuid_string (replicate 15 nul @ [nat_byte n]))" by (simp add: ex_env_def)
  then have "nat_byte m = nat_byte n" by (simp add: uuid_parse_string)
  then show "m = n" using assms by (metis byte_nat_byte)
qed simp

lemma ex_uuid_canonical: "uuid_canonical (uuid_v7 ex_env n)"
  by (simp add: ex_env_def uuid_canonical_string)

lemma ex_uuid_nonempty: "uuid_v7 ex_env n \<noteq> ''''"
  using uuid_canonical_length [OF ex_uuid_canonical [of n]] by auto

lemmas ex_effects = ret_def fail_def and_then_def attempt_def wrapping_def guard_def of_result_def
  new_uuid_def read_random_def read_clock_def exec_def no_op_def query_def hold_def
  transaction_def Let_def

lemma ex_authorize: "service_authorize ex_server ''shop'' ex_client = Inr ex_app"
  by (simp add: service_authorize_Inr ex_server_def passkey_server_def new_service_def
      ex_app_def ex_client_def)

lemma ex_parts:
  "svc_repository ex_server = postgres ex_env"
  "svc_webauthn ex_server = webauthn_adapter ex_env ex_lib ex_rps"
  "svc_applications ex_server ''shop'' = Some ex_app"
  by (simp_all add: ex_server_def passkey_server_def new_service_def ex_app_def)

lemma ex_app_simps: "app_rpid ex_app = ''example.com''" "app_code ex_app = ''shop''"
  by (simp_all add: ex_app_def)

lemma ex_kinds:
  "ceremony_table Registration = Inr Registration" "ceremony_table Authentication = Inr Authentication"
  by (simp_all add: ceremony_table_Inr)

lemma ex_row_check:
  "ceremony_row_check (ceremony.extend (new_ceremony i a s rp (sha256 ex_env b) st now)
    (ceremony_row.fields None))"
  by (simp add: ceremony_row_check_def ex_sha new_ceremony_def ceremony_states_def CeremonyTTL_pos)

lemma ex_begin:
  "wa_begin (webauthn_adapter ex_env ex_lib ex_rps) k ex_app s n [] w
    = (Inr (''{}'', ''session''), w\<lparr>rands := Suc (rands w), ticks := Suc (ticks w)\<rparr>)"
  by (simp add: webauthn_adapter_def adapter_begin_def ex_effects make_webauthn_user_def
      ex_rps_def ex_lib_def ex_app_def)

subsection \<open>A registration\<close>

definition ex_ceremony :: ceremony where
  "ex_ceremony =
     new_ceremony (uuid_v7 ex_env 0) ''shop'' ''alice'' ''example.com'' (sha256 ex_env (ex_token 1))
       ''session'' 1"

definition ex_event :: "string \<Rightarrow> string option \<Rightarrow> string \<Rightarrow> time \<Rightarrow> event" where
  "ex_event i cid kd stamp =
     \<lparr>ev_id = i, ev_application = ''shop'', ev_subject = ''alice'', ev_credential = cid,
      ev_kind = kd, ev_result = succeeded, ev_error = None, ev_details = [],
      ev_occurred_at = stamp\<rparr>"

definition ex_started :: world where
  "ex_started =
     \<lparr>store = empty_db
        \<lparr>db_registration := [ceremony.extend ex_ceremony (ceremony_row.fields None)],
         db_history := [ex_event (uuid_v7 ex_env 1) None (Registration @ ''.start'') 2]\<rparr>,
      calls = 5, uuids = 2, rands = 2, ticks = 3, locks = [], sessions = [], limiter = \<lparr>lim_tokens = 5, lim_refill = 0\<rparr>\<rparr>"

lemma ex_start:
  "service_start ex_env ex_server Registration ''shop'' ''alice'' '''' ex_client ex_world
    = (Inr \<lparr>sr_token = ex_token 1, sr_options = ''{}'', sr_expires_at = 1 + CeremonyTTL\<rparr>,
       ex_started)"
  by (simp add: service_start_def start_ceremony_def ex_effects ex_parts ex_begin ex_valid
      ex_authorize ex_hash ex_env_simps postgres_def pg_credentials_def read_credentials_def
      pg_start_def ex_world_def select_credentials_def empty_db_def ex_kinds insert_ceremony_def
      ex_row_check pg_event_def insert_history_def event_details_def table_rows_def set_table_def
      ex_started_def ex_app_simps ex_ceremony_def ex_event_def)
     (simp add: new_ceremony_def ex_token_def)

definition ex_credential :: credential where
  "ex_credential =
     \<lparr>cred_id = uuid_v7 ex_env 2, cred_application = ''shop'', cred_subject = ''alice'',
      cred_rpid = ''example.com'', cred_webauthn_id = ''key'', cred_public_key = ''public'',
      cred_algorithm = -7, cred_sign_count = 1, cred_transports = [], cred_aaguid = '''',
      cred_backup_eligible = False, cred_backup_state = False, cred_webauthn = ''key'',
      cred_created_at = 3, cred_used_at = None\<rparr>"

definition ex_registered :: world where
  "ex_registered =
     \<lparr>store = empty_db
        \<lparr>db_credential := [ex_credential],
         db_registration :=
           [ceremony.extend (ex_ceremony\<lparr>cer_state := succeeded\<rparr>) (ceremony_row.fields None)],
         db_history := [ex_event (uuid_v7 ex_env 1) None (Registration @ ''.start'') 2,
           ex_event (uuid_v7 ex_env 3) (Some (uuid_v7 ex_env 2)) (Registration @ ''.finish'') 5]\<rparr>,
      calls = 14, uuids = 4, rands = 2, ticks = 6, locks = [], sessions = [], limiter = \<lparr>lim_tokens = 5, lim_refill = 0\<rparr>\<rparr>"

lemma ex_ceremony_simps:
  "cer_id ex_ceremony = uuid_v7 ex_env 0" "cer_application ex_ceremony = ''shop''"
  "cer_subject ex_ceremony = ''alice''" "cer_rpid ex_ceremony = ''example.com''"
  "cer_token_hash ex_ceremony = sha256 ex_env (ex_token 1)" "cer_state ex_ceremony = pending"
  "cer_expires_at ex_ceremony = 1 + CeremonyTTL" "cer_webauthn ex_ceremony = ''session''"
  by (simp_all add: ex_ceremony_def new_ceremony_def)

lemma ex_verify:
  "wa_verify (webauthn_adapter ex_env ex_lib ex_rps) Registration ex_app ex_ceremony [] ''{}'' w
    = (Inr (ex_credential\<lparr>cred_id := uuid_v7 ex_env (uuids w), cred_created_at := zero_time\<rparr>),
       w\<lparr>uuids := Suc (uuids w), ticks := Suc (ticks w)\<rparr>)"
  by (simp add: webauthn_adapter_def adapter_verify_def adapter_map_def registration_value_def
      map_credential_def key_algorithm_def ex_effects make_webauthn_user_def ex_rps_def ex_lib_def
      ex_app_def ex_key_def ex_credential_def ex_ceremony_simps)

lemma ex_stored:
  "ex_credential\<lparr>cred_id := uuid_v7 ex_env 2, cred_application := ''shop'', cred_subject := ''alice'',
     cred_rpid := ''example.com'', cred_created_at := 3, cred_used_at := None\<rparr> = ex_credential"
  "credential_check ex_credential"
  "cred_application ex_credential = ''shop''" "cred_subject ex_credential = ''alice''"
  "cred_rpid ex_credential = ''example.com''" "cred_id ex_credential = uuid_v7 ex_env 2"
  "credential_check (ex_credential\<lparr>cred_used_at := stamp\<rparr>)"
  by (simp_all add: ex_credential_def credential_check_def)

lemma ex_later: "2 < CeremonyTTL"
  by (simp add: CeremonyTTL_def seconds_def)

lemma ex_terminal: "succeeded \<in> set ceremony_states"
  by (simp add: ceremony_states_def)

lemma ex_finish:
  "service_finish ex_env ex_server Registration (ex_token 1) ''{}'' ex_client ex_started
    = (Inr \<lparr>fr_application = ''shop'', fr_subject = ''alice'', fr_credential = uuid_v7 ex_env 2\<rparr>,
       ex_registered)"
  by (simp add: service_finish_def ex_effects ex_parts ex_json ex_trim ex_hash ex_env_simps
      postgres_def pg_finish_def ex_kinds finish_body_def select_by_token_def ex_started_def
      empty_db_def table_rows_def set_table_def ex_ceremony_simps finish_authorize_def
      ex_authorize ex_app_simps lock_subject_def database_now_def finish_verify_def
      ceremony_check_def read_credentials_def select_credentials_def finish_verifier_def
      ex_verify finish_apply_def registered_row_def finish_record_def final_state_def
      pg_event_def insert_history_def insert_credential_def update_state_def event_details_def
      ex_uuid_nonempty ex_uuid_eq ex_stored ex_later ex_terminal ex_event_def)
     (simp add: ex_registered_def ex_event_def empty_db_def ceremony.extend_def
      ceremony_row.fields_def ex_stored)

lemma ex_wf: "wf_db (store ex_world)" "wf_db (store ex_started)" "wf_db (store ex_registered)"
proof -
  show "wf_db (store ex_world)" by (simp add: ex_world_def wf_empty_db)
  show "wf_db (store ex_started)" "wf_db (store ex_registered)"
    by (simp_all add: ex_started_def ex_registered_def wf_db_def wf_ceremonies_def
        wf_credentials_def empty_db_def ex_event_def ex_uuid_eq ceremony_row_check_def
        ex_ceremony_def new_ceremony_def ex_sha ceremony_states_def CeremonyTTL_pos ex_stored)
qed

lemma ex_run: "evolves ex_env ex_server ex_world ex_started"
  "evolves ex_env ex_server ex_world ex_registered"
proof -
  show "evolves ex_env ex_server ex_world ex_started"
    by (rule call_start [OF idle ex_start])
  then show "evolves ex_env ex_server ex_world ex_registered"
    by (rule call_finish [OF _ ex_finish])
qed

lemma ex_response: "acceptable_response ''{}''"
  by (simp add: acceptable_response_def ex_json ex_trim)

lemma ex_kept: "keeps_store (finish_verifier ex_server k resp c cs)"
  by (simp add: finish_verifier_def ex_parts webauthn_adapter_def adapter_verify_frame)

lemma ex_pending_row: "select_by_token Registration (sha256 ex_env (ex_token 1)) (store ex_started)
    = Some ex_ceremony"
  by (simp add: select_by_token_def ex_started_def table_rows_def ex_ceremony_simps)

lemma ex_done_row: "select_by_token Registration (sha256 ex_env (ex_token 1)) (store ex_registered)
    = Some (ex_ceremony\<lparr>cer_state := succeeded\<rparr>)"
  by (simp add: select_by_token_def ex_registered_def table_rows_def ex_ceremony_simps)

lemma ex_authorized: "finish_authorize ex_server k ex_client ex_ceremony = None"
  "finish_authorize ex_server k ex_client (ex_ceremony\<lparr>cer_state := st\<rparr>) = None"
  "finish_authorize ex_server k ''sha256:other'' ex_ceremony = Some (Code Forbidden)"
  by (simp_all add: finish_authorize_def ex_ceremony_simps ex_authorize ex_app_simps)
    (simp add: service_authorize_def ex_parts app_authorize_def ex_app_def)

subsection \<open>The list and the deletion of the credential\<close>

lemma ex_list:
  "service_credentials ex_server ''shop'' ''alice'' ex_client ex_registered
    = (Inr [ex_credential], ex_registered\<lparr>calls := 15\<rparr>)"
  by (simp add: service_credentials_def ex_valid ex_effects ex_authorize ex_parts ex_env_simps
      postgres_def pg_credentials_def read_credentials_def select_credentials_def
      ex_registered_def ex_stored)

lemma ex_delete:
  "\<not> isl (fst (service_delete ex_server ''shop'' ''alice'' (uuid_v7 ex_env 2) ex_client ex_registered))"
  by (simp add: service_delete_def ex_valid ex_uuid_canonical ex_effects ex_authorize ex_parts
      ex_env_simps postgres_def pg_delete_def lock_subject_def delete_credential_def pg_event_def
      insert_history_def ex_registered_def ex_event_def ex_uuid_eq ex_stored)

subsection \<open>The same server later, and drawing other UUIDs\<close>

definition ex_other :: "time \<Rightarrow> env" where
  "ex_other t =
     ex_env\<lparr>uuid_v7 := (\<lambda>n. uuid_string (replicate 14 nul @ [nat_byte 1, nat_byte n])),
       clock := (\<lambda>_. t)\<rparr>"

definition ex_other_server :: "time \<Rightarrow> service" where
  "ex_other_server t = passkey_server (ex_other t) ex_lib ex_rps [ex_app]"

lemma ex_other_simps: "sha256 (ex_other t) = sha256 ex_env" "clock (ex_other t) n = t"
  by (simp_all add: ex_other_def)

lemma ex_other_faults: "no_faults (ex_other t)"
  by (simp add: no_faults_def ex_other_def ex_env_simps)

lemma ex_other_fresh: "fresh_events (ex_other t) (store ex_started)"
proof -
  have "uuid_string (replicate 14 nul @ [nat_byte 1, nat_byte n]) \<noteq> uuid_v7 ex_env 1" for n
  proof
    assume "uuid_string (replicate 14 nul @ [nat_byte 1, nat_byte n]) = uuid_v7 ex_env 1"
    then have "uuid_parse (uuid_string (replicate 14 nul @ [nat_byte 1, nat_byte n]))
      = uuid_parse (uuid_string (replicate 15 nul @ [nat_byte 1]))" by (simp add: ex_env_def)
    then have "replicate 14 nul @ [nat_byte 1, nat_byte n] = replicate 15 nul @ [nat_byte 1]"
      by (simp add: uuid_parse_string)
    then have "nat_byte 1 = nul" by (simp add: eval_nat_numeral)
    then show False by (metis byte_nat_byte nul_def one_less_numeral_iff semiring_norm(76) zero_less_numeral zero_neq_one less_trans)
  qed
  then show ?thesis
    by (simp add: fresh_events_def ex_other_def ex_started_def ex_event_def)
qed

lemma ex_other_authorized: "finish_authorize (ex_other_server t) k ex_client ex_ceremony = None"
  using ex_authorized(1) [of k]
  by (simp add: finish_authorize_def service_authorize_def ex_other_server_def ex_server_def
      passkey_server_def new_service_def)


lemma ex_other_verifies:
  assumes "store w1 = store ex_started"
  shows "\<exists>cr w2. store w2 = store ex_started \<and> new_credential ex_ceremony (store ex_started) cr
    \<and> finish_verifier (ex_other_server t) Registration ''{}'' ex_ceremony
        (select_credentials (cer_application ex_ceremony) (cer_subject ex_ceremony) (store ex_started)) w1
      = (Inr cr, w2)"
proof -
  let ?E = "ex_other t"
  have none: "select_credentials a s (store ex_started) = []" for a s
    by (simp add: select_credentials_def ex_started_def empty_db_def)
  have "finish_verifier (ex_other_server t) Registration ''{}'' ex_ceremony [] w1
    = (Inr (ex_credential\<lparr>cred_id := uuid_v7 ?E (uuids w1), cred_created_at := zero_time\<rparr>),
       w1\<lparr>uuids := Suc (uuids w1), ticks := Suc (ticks w1)\<rparr>)"
    by (simp add: finish_verifier_def ex_other_server_def passkey_server_def new_service_def
        webauthn_adapter_def adapter_verify_def adapter_map_def registration_value_def
        map_credential_def key_algorithm_def ex_effects make_webauthn_user_def ex_rps_def ex_lib_def
        ex_app_def ex_key_def ex_credential_def ex_ceremony_simps)
  moreover have "new_credential ex_ceremony (store ex_started)
      (ex_credential\<lparr>cred_id := i, cred_created_at := zero_time\<rparr>)" for i
    by (simp add: new_credential_def ex_started_def empty_db_def ex_credential_def credential_check_def)
  ultimately show ?thesis using assms none by fastforce
qed

subsection \<open>A request over HTTP\<close>

definition ex_post :: "(string \<times> string) list \<Rightarrow> http_request" where
  "ex_post ms =
     \<lparr>rq_method = ''POST'', rq_path = [''v1'', ''registrations'', ''start''], rq_query = '''',
      rq_media = Some ''application/json'', rq_body = Some (object_text ms), rq_verified = True,
      rq_certs = [''certificate''], rq_tls = True, rq_host = ''shop.example'', rq_origins = [],
      rq_cookies = []\<rparr>"

text \<open>A GET of the credentials.\<close>

definition ex_get :: "bool \<Rightarrow> string \<Rightarrow> http_request" where
  "ex_get verified q =
     \<lparr>rq_method = ''GET'', rq_path = [''v1'', ''credentials''], rq_query = q, rq_media = None,
      rq_body = Some [], rq_verified = verified, rq_certs = [''certificate''], rq_tls = True,
      rq_host = ''shop.example'', rq_origins = [], rq_cookies = []\<rparr>"

text \<open>The product, with the administration UI: a \<open>bcrypt\<close> that compares texts, a short HMAC, no templates.\<close>

definition ex_config :: config where
  "ex_config =
     \<lparr>cfg_admin = \<lparr>adm_enabled = True, adm_username = ''admin'', adm_password_hash = ''secret''\<rparr>,
      cfg_applications = [ex_app]\<rparr>"

definition ex_ui :: ui_lib where
  "ex_ui =
     \<lparr>ui_mac = (\<lambda>k m. take 32 (k @ rev m @ replicate 32 nul)), ui_bcrypt = (=),
      ui_url_parse = (\<lambda>s. Some \<lparr>url_scheme = ''https'', url_host = drop 8 s, url_hostname = drop 8 s,
        url_has_user = False, url_path = '''', url_raw_query = '''', url_force_query = False,
        url_fragment = ''''\<rparr>),
      ui_asset = (\<lambda>_. None), ui_templates = (\<lambda>funcs. Inr (\<lambda>name data. Some name))\<rparr>"

definition ex_admin :: admin_ui where
  "ex_admin =
     \<lparr>au_config = ex_config, au_store = admin_postgres ex_env (\<lambda>_. ''{}''), au_lib = ex_ui,
      au_template = (\<lambda>name data. Some name)\<rparr>"

lemma ex_admin_new: "product_admin ex_env ex_config (\<lambda>_. ''{}'') ex_ui ex_world
  = (Inr (Some (admin_handler ex_env ex_admin)), ex_world\<lparr>ticks := 1, limiter := new_limiter 0\<rparr>)"
  by (simp add: product_admin_def new_admin_def ex_config_def ex_ui_def ex_admin_def ex_world_def
      ex_env_simps)

definition ex_product :: "encoder \<Rightarrow> api" where
  "ex_product enc =
     product_api ex_env ex_lib ex_rps ex_config (Some (admin_handler ex_env ex_admin)) enc
       (\<lambda>_. no_content)"

subsection \<open>An authentication with the registered credential\<close>

definition ex_login_ceremony :: ceremony where
  "ex_login_ceremony =
     new_ceremony (uuid_v7 ex_env 4) ''shop'' ''alice'' ''example.com'' (sha256 ex_env (ex_token 3))
       ''session'' 7"

definition ex_login :: world where
  "ex_login =
     \<lparr>store = (store ex_registered)
        \<lparr>db_authentication := [ceremony.extend ex_login_ceremony (ceremony_row.fields None)],
         db_history := db_history (store ex_registered)
           @ [ex_event (uuid_v7 ex_env 5) None (Authentication @ ''.start'') 8]\<rparr>,
      calls = 19, uuids = 6, rands = 4, ticks = 9, locks = [], sessions = [], limiter = \<lparr>lim_tokens = 5, lim_refill = 0\<rparr>\<rparr>"

lemma ex_login_begin:
  "wa_begin (webauthn_adapter ex_env ex_lib ex_rps) k ex_app s n [ex_credential] w
    = (Inr (''{}'', ''session''), w\<lparr>rands := Suc (rands w), ticks := Suc (ticks w)\<rparr>)"
  by (simp add: webauthn_adapter_def adapter_begin_def ex_effects make_webauthn_user_def
      ex_rps_def ex_lib_def ex_app_def ex_credential_def)

lemma ex_login_start:
  "service_start ex_env ex_server Authentication ''shop'' ''alice'' '''' ex_client ex_registered
    = (Inr \<lparr>sr_token = ex_token 3, sr_options = ''{}'', sr_expires_at = 7 + CeremonyTTL\<rparr>, ex_login)"
  by (simp add: service_start_def start_ceremony_def ex_effects ex_parts ex_login_begin ex_valid
      ex_authorize ex_hash ex_env_simps postgres_def pg_credentials_def read_credentials_def
      pg_start_def select_credentials_def empty_db_def ex_kinds insert_ceremony_def ex_stored
      ex_row_check pg_event_def insert_history_def event_details_def table_rows_def set_table_def
      ex_registered_def ex_login_def ex_app_simps ex_login_ceremony_def ex_event_def ex_uuid_eq)
     (simp add: new_ceremony_def ex_token_def)

lemma ex_login_simps:
  "cer_id ex_login_ceremony = uuid_v7 ex_env 4" "cer_application ex_login_ceremony = ''shop''"
  "cer_subject ex_login_ceremony = ''alice''" "cer_rpid ex_login_ceremony = ''example.com''"
  "cer_token_hash ex_login_ceremony = sha256 ex_env (ex_token 3)"
  "cer_state ex_login_ceremony = pending" "cer_expires_at ex_login_ceremony = 7 + CeremonyTTL"
  "cer_webauthn ex_login_ceremony = ''session''"
  by (simp_all add: ex_login_ceremony_def new_ceremony_def)

lemma ex_login_verify:
  "wa_verify (webauthn_adapter ex_env ex_lib ex_rps) Authentication ex_app ex_login_ceremony
      [ex_credential] ''{}'' w
    = (Inr ex_credential, w\<lparr>ticks := Suc (ticks w)\<rparr>)"
  by (simp add: webauthn_adapter_def adapter_verify_def adapter_map_def authentication_value_def
      map_credential_def key_algorithm_def ex_effects make_webauthn_user_def ex_rps_def ex_lib_def
      ex_app_def ex_key_def ex_credential_def ex_login_simps known_credential_def ex_uuid_nonempty)

lemma ex_login_finish:
  obtains w' where
    "service_finish ex_env ex_server Authentication (ex_token 3) ''{}'' ex_client ex_login
      = (Inr \<lparr>fr_application = ''shop'', fr_subject = ''alice'', fr_credential = uuid_v7 ex_env 2\<rparr>, w')"
proof -
  have "fst (service_finish ex_env ex_server Authentication (ex_token 3) ''{}'' ex_client ex_login)
      = Inr \<lparr>fr_application = ''shop'', fr_subject = ''alice'', fr_credential = uuid_v7 ex_env 2\<rparr>"
    by (simp add: service_finish_def ex_effects ex_parts ex_json ex_trim ex_hash ex_env_simps
      postgres_def pg_finish_def ex_kinds finish_body_def select_by_token_def ex_login_def
      ex_registered_def empty_db_def table_rows_def set_table_def ex_login_simps finish_authorize_def
      ex_authorize ex_app_simps lock_subject_def database_now_def finish_verify_def
      ceremony_check_def read_credentials_def select_credentials_def finish_verifier_def
      ex_login_verify finish_apply_def update_credential_def scoped_to_def touch_def
      finish_record_def final_state_def pg_event_def insert_history_def update_auth_credential_def
      update_state_def event_details_def
      ex_uuid_nonempty ex_uuid_eq ex_stored ex_later ex_terminal ex_event_def)
  with that show ?thesis by (metis prod.collapse)
qed

lemma ex_login_wf: "wf_db (store ex_login)"
  using steps_wf [OF shellty.evolves_steps [OF call_start [OF idle ex_login_start, unfolded
        ex_server_def passkey_server_def] ex_wf(3)] ex_wf(3)] .

end
