(* ===== verification/Example_Admin.thy ===== *)
theory Example_Admin
  imports Example
begin

section \<open>The administration UI of the concrete server\<close>

text \<open>
  A sign-in, a request without a session, a database with 21 credentials and one with 21 events.
\<close>

definition ex_admin_request :: "string \<Rightarrow> string list \<Rightarrow> string \<Rightarrow> string list \<Rightarrow> http_request" where
  "ex_admin_request m path q cookies =
     \<lparr>rq_method = m, rq_path = path, rq_query = q,
      rq_media = Some ''application/x-www-form-urlencoded'',
      rq_body = Some ''username=admin&password=secret'', rq_verified = False, rq_certs = [],
      rq_tls = True, rq_host = ''Admin.example'', rq_origins = [''https://admin.example''],
      rq_cookies = cookies\<rparr>"

definition ex_sign_in :: http_request where
  "ex_sign_in = ex_admin_request ''POST'' [''admin'', ''login''] '''' []"

definition ex_session :: string where
  "ex_session = cookie_value (ui_mac ex_ui) (cfg_admin ex_config) 1"

lemma ex_mac: "length (ui_mac ex_ui k m) = 32"
  by (simp add: ex_ui_def)

lemma ex_form: "login_values ex_sign_in = Some (''admin'', ''secret'')"
proof -
  have "parse_query ''username=admin&password=secret'' = ([(''username'', ''admin''), (''password'', ''secret'')], False)"
    by code_simp
  then show ?thesis
    by (simp add: login_values_def ex_sign_in_def ex_admin_request_def max_form_bytes_def
        parse_query_def query_values_def query_get_def)
qed

text \<open>On ASCII text \<open>EqualFold\<close> is the comparison in lower case.\<close>

definition lower :: "char \<Rightarrow> char" where
  "lower c = (if 65 \<le> byte_nat c \<and> byte_nat c \<le> 90 then nat_byte (byte_nat c + 32) else c)"

lemma fold_case_ascii: "\<forall>c \<in> set s. byte_nat c < 128 \<Longrightarrow> fold_case s = map lower s"
proof (induction s)
  case (Cons c s)
  then have "byte_nat c \<noteq> 226" "byte_nat c \<noteq> 197" by auto
  then have "fold_case (c # s) = lower c # fold_case s"
    by (simp add: fold_case.simps(2) [of c s] Let_def lower_def del: fold_case.simps(2) split: list.splits)
  with Cons show ?case by (simp del: fold_case.simps)
qed simp

lemma ex_same_origin: "admin_same_origin ex_ui ex_sign_in"
proof -
  have "\<forall>c \<in> set ''admin.example''. byte_nat c < 128" "\<forall>c \<in> set ''Admin.example''. byte_nat c < 128"
    "map lower ''admin.example'' = map lower ''Admin.example''" by code_simp+
  then have "fold_case ''admin.example'' = fold_case ''Admin.example''"
    by (simp only: fold_case_ascii)
  then show ?thesis
    by (simp add: admin_same_origin_def ex_sign_in_def ex_admin_request_def ex_ui_def
        del: fold_case.simps)
qed

lemma ex_signed_in:
  "fst (login ex_env ex_admin ex_sign_in ex_world)
    = redirect ex_sign_in ''/admin/configuration''
        [cookie_header ex_session (1 + admin_cookie_age) (format_int (admin_cookie_age div seconds 1))]"
proof -
  have media: "rq_media ex_sign_in = Some ''application/x-www-form-urlencoded''"
    by (simp add: ex_sign_in_def ex_admin_request_def)
  have allow: "allow_login ex_env ex_world
    = (True, ex_world\<lparr>ticks := 1, limiter := \<lparr>lim_tokens = 4, lim_refill = 0\<rparr>\<rparr>)"
    by (simp add: allow_login_def take_token_def refilled_def elapsed_seconds_def ex_world_def
        ex_env_simps Let_def)
  show ?thesis
    by (simp add: login_def media ex_form allow Let_def ex_admin_def ex_session_def ex_env_simps)
      (simp add: ex_ui_def ex_config_def)
qed

lemma ex_session_set:
  "sets_session (fst (admin_handler ex_env ex_admin ex_sign_in ex_world)) ex_session"
  "ex_session \<noteq> ''''"
proof -
  have "admin_mux ex_env ex_admin ex_sign_in = login ex_env ex_admin ex_sign_in"
    by (simp add: admin_mux_def ex_sign_in_def ex_admin_request_def)
  moreover have "CHR '';'' \<notin> set ex_session" unfolding ex_session_def by (rule cookie_value_plain)
  moreover have "au_lib ex_admin = ex_ui" by (simp add: ex_admin_def)
  ultimately show "sets_session (fst (admin_handler ex_env ex_admin ex_sign_in ex_world)) ex_session"
    using ex_same_origin
    by (simp add: admin_response ex_signed_in sets_session_outer sets_session_redirect Let_def)
  show "ex_session \<noteq> ''''" by (simp add: ex_session_def cookie_value_def Let_def)
qed

subsection \<open>Lists of more than one page\<close>

definition ex_many_credentials :: db where
  "ex_many_credentials = empty_db\<lparr>db_credential :=
     map (\<lambda>n. ex_credential\<lparr>cred_id := uuid_v7 ex_env n, cred_webauthn_id := [nat_byte n]\<rparr>) [0..<21]\<rparr>"

definition ex_many_events :: db where
  "ex_many_events = empty_db\<lparr>db_history :=
     map (\<lambda>n. ex_event (uuid_v7 ex_env n) None (Registration @ ''.start'') 7) [0..<21]\<rparr>"

lemma ex_ids_distinct: "distinct (map (uuid_v7 ex_env) [0..<21])"
  by (auto simp: distinct_map inj_on_def ex_uuid_eq)

lemma ex_many_wf: "wf_db ex_many_credentials" "wf_db ex_many_events"
proof -
  show "wf_db ex_many_credentials"
    using ex_ids_distinct
    by (auto simp: nat_byte_inject ex_many_credentials_def wf_db_def wf_credentials_def wf_ceremonies_def empty_db_def
        list_all_iff credential_check_def ex_credential_def rp_key_def distinct_map inj_on_def comp_def)
  show "wf_db ex_many_events"
    using ex_ids_distinct
    by (simp add: ex_many_events_def wf_db_def wf_credentials_def wf_ceremonies_def empty_db_def
        ex_event_def comp_def)
qed

lemma ex_no_filter: "query_filter '''' h = Some no_filter" "fi_cursor no_filter = no_cursor"
proof -
  have "parse_query '''' = ([], False)" by (simp add: parse_query_def)
  then show "query_filter '''' h = Some no_filter"
    by (simp add: query_filter_def parse_admin_filter_def form_filter_def query_get_def query_values_def
        bad_filter_def valid_date_def no_filter_def utf8_valid_def)
qed (simp add: no_filter_def)

lemma ex_no_filter_wanted: "credential_wanted no_filter c" "event_wanted no_filter e"
  by (simp_all add: credential_wanted_def event_wanted_def unless_empty_def no_filter_def)

lemma ex_many_ids: "\<forall>c \<in> set (db_credential ex_many_credentials). uuid_canonical (cred_id c)"
  "\<forall>e \<in> set (db_history ex_many_events). linkable e"
proof -
  have "date_of_days (7 div day_ns) = (1970, 1, 1)" by code_simp
  then show "\<forall>e \<in> set (db_history ex_many_events). linkable e"
    by (simp add: ex_many_events_def ex_event_def linkable_def printable_time_def ex_uuid_canonical
        zero_time_def seconds_def)
qed (simp add: ex_many_credentials_def ex_uuid_canonical)

end
