(* ===== verification/Example_Server.thy ===== *)
theory Example_Server
  imports Example_Admin
begin

section \<open>A start of the concrete server\<close>

text \<open>
  A machine with a configuration, a certificate and a client CA, two migrations that PostgreSQL
  accepts, and the start of the server on it.
\<close>

definition ex_live_app :: application where
  "ex_live_app = ex_app\<lparr>app_clients := [''sha256:'' @ replicate 64 CHR ''a'']\<rparr>"

definition ex_live_config :: config where
  "ex_live_config = ex_config\<lparr>cfg_applications := [ex_live_app]\<rparr>"

definition ex_config_lib :: config_lib where
  "ex_config_lib =
     \<lparr>cl_bcrypt_hash = (\<lambda>h. h \<noteq> []), cl_ip_address = (\<lambda>_. False), cl_url_parse = ui_url_parse ex_ui\<rparr>"

definition ex_machine :: "string machine" where
  "ex_machine =
     \<lparr>mc_print = (\<lambda>_. None), mc_lookup_port = (\<lambda>s. s = ''8443''),
      mc_open = (\<lambda>_. Inr (Inr (print_config ex_live_config))), mc_key_pair = (\<lambda>c k. Inr c),
      mc_read_file = (\<lambda>_. Inr ''ca''), mc_certificates = (\<lambda>b. [b]), mc_dsn_ok = (\<lambda>_. True),
      mc_pool_ok = (\<lambda>_. True), mc_listen = (\<lambda>_. None)\<rparr>"

definition ex_files :: "(string \<times> bytes) list" where
  "ex_files = [(''001_core.sql'', ''core''), (''002_admin_history.sql'', ''indexes'')]"

definition ex_script :: script where
  "ex_script sql d = (if sql = [] then Inl (Plain ''syntax error'') else Inr d)"

definition ex_build :: "(string, string, string, string, string) build" where
  "ex_build =
     \<lparr>bd_machine = ex_machine, bd_config = ex_config_lib, bd_webauthn = ex_lib, bd_ui = ex_ui,
      bd_pretty = (\<lambda>_. ''{}''), bd_encoder = (\<lambda>_. Some ''{}''), bd_redirect = (\<lambda>_. no_content),
      bd_script = ex_script, bd_migrations = Inr (readable ex_files), bd_version = ''dev''\<rparr>"

definition ex_args :: "string list" where
  "ex_args = [''-listen'', ''8443'', ''--config=c'', ''-database-dsn'', ''d'', ''-tls-cert=c'', ''-tls-key=k'',
     ''-client-ca'', ''a'']"

lemma ex_live_fingerprint: "fingerprint_pattern (''sha256:'' @ replicate 64 CHR ''a'')"
  by code_simp

lemma ex_live_rpid: "list_all domain_label (split_on CHR ''.'' ''example.com'')"
  "valid_application_code ''shop''" "has_suffix ''example.com'' ''example.com''"
  by code_simp+

lemma ex_live_ok: "config_ok ex_config_lib ex_live_config"
  using ex_live_fingerprint ex_live_rpid
  by (simp add: config_ok_def ex_live_config_def ex_live_app_def application_ok_def origin_ok_def
      ex_config_lib_def ex_ui_def ex_app_def ex_config_def)

lemma ex_live_utf8: "utf8_config ex_live_config"
proof -
  have "utf8_valid ''shop''" "utf8_valid ''Shop''" "utf8_valid ''example.com''" "utf8_valid ''https://example.com''"
    "utf8_valid ''admin''" "utf8_valid ''secret''" "utf8_valid (''sha256:'' @ replicate 64 CHR ''a'')"
    by code_simp+
  then show ?thesis
    by (simp add: utf8_config_def utf8_application_def ex_live_config_def ex_live_app_def ex_app_def
        ex_config_def)
qed

lemma ex_live_fingerprint_text: "length (escape (''sha256:'' @ replicate 64 CHR ''a'')) = 71"
  "length (escape ''https://example.com'') = 19" "length (escape ''example.com'') = 11"
  "length (escape ''shop'') = 4" "length (escape ''Shop'') = 4" "length (escape ''admin'') = 5"
  "length (escape ''secret'') = 6"
  by code_simp+

lemma ex_live_short: "length (print_config ex_live_config) \<le> max_config_bytes"
proof -
  have "length (print_config ex_live_config) \<le> 1000"
    unfolding print_config_def value_of_config_def value_of_application_def
    by (simp only: ex_live_config_def ex_live_app_def ex_app_def ex_config_def print_value.simps
        application.simps config.simps admin_config.simps list.map
        print_elements.simps print_fields.simps length_append list.size if_True if_False
        ex_live_fingerprint_text)
  then show ?thesis by (simp add: max_config_bytes_def)
qed

lemma ex_live_loads: "load_config ex_config_lib (Inr (print_config ex_live_config)) = Inr ex_live_config"
  using ex_live_ok by (intro print_config_loads ex_live_utf8 ex_live_short) (simp add: check_config_None)

lemma ex_script_wf: "ex_script sql d = Inr d' \<Longrightarrow> wf_db d \<Longrightarrow> wf_db d'"
  by (auto simp: ex_script_def split: if_splits)

lemma ex_script_lawful: "keeps_migration ex_script" "runnable ex_script (checksum_of E) (map snd ex_files)"
proof -
  show "keeps_migration ex_script" by (simp add: keeps_migration_def ex_script_def)
  have "sql \<noteq> []" if "sql \<in> set (map snd ex_files)" for sql using that by (auto simp: ex_files_def)
  then show "runnable ex_script (checksum_of E) (map snd ex_files)"
    unfolding runnable_def ex_script_def using nth_mem by fastforce
qed

lemma ex_files_named: "\<forall>i < length ex_files. named i (fst (ex_files ! i))"
proof -
  have "named 0 ''001_core.sql''" "named 1 ''002_admin_history.sql''" by code_simp+
  then show ?thesis by (simp add: ex_files_def less_Suc_eq nth_Cons' numeral_2_eq_2)
qed

lemma ex_fresh: "lived ex_script chk (map snd ex_files) None (store ex_world)"
  by (rule fresh) (simp add: ex_world_def empty_db_def)

lemma ex_faultless: "no_faults ex_env"
  by (simp add: no_faults_def ex_env_def)

lemma ex_migrates:
  obtains w where "migrate ex_env ex_script (Inr (readable ex_files)) ex_world = (Inr (), w)"
    "lived ex_script (checksum_of ex_env) (map snd ex_files) (Some 2) (store w)"
  using migrate_run [OF ex_faultless ex_script_lawful ex_files_named _ ex_fresh] that
  by (auto simp: ex_files_def)

lemma ex_flags: "checked_flags ex_machine ex_args vers
  = Inr (Some \<lparr>fl_version = False, fl_listen = '':8443'', fl_config = ''c'', fl_dsn = ''d'', fl_cert = ''c'',
      fl_key = ''k'', fl_ca = ''a''\<rparr>)"
proof -
  have "parse_flags server_flags ex_args default_flags = Inr (\<lparr>fl_version = False, fl_listen = ''8443'',
      fl_config = ''c'', fl_dsn = ''d'', fl_cert = ''c'', fl_key = ''k'', fl_ca = ''a''\<rparr>, [])"
    by code_simp
  moreover have "split_host_port '':8443'' \<noteq> None" by code_simp
  ultimately show ?thesis by (auto simp: checked_flags_def ex_machine_def Let_def)
qed

definition ex_live_rps :: rps where
  "ex_live_rps = [''shop'' \<mapsto> rp_config ex_live_app]"

definition ex_served :: api where
  "ex_served = product_api ex_env ex_lib ex_live_rps ex_live_config
     (Some (admin_handler ex_env (ex_admin\<lparr>au_config := ex_live_config\<rparr>))) (\<lambda>_. Some ''{}'') (\<lambda>_. no_content)"

lemma ex_live_admin: "product_admin ex_env ex_live_config (\<lambda>_. ''{}'') ex_ui w
  = (Inr (Some (admin_handler ex_env (ex_admin\<lparr>au_config := ex_live_config\<rparr>))),
     w\<lparr>ticks := Suc (ticks w), limiter := new_limiter (clock ex_env (ticks w))\<rparr>)"
  by (simp add: product_admin_def new_admin_def ex_live_config_def ex_config_def ex_ui_def ex_admin_def)

lemma ex_launch:
  obtains s w where "run_server ex_env ex_build ex_args ex_world = (Inr (Serving s), w)"
    "srv_api s = ex_served"
    "lived ex_script (checksum_of ex_env) (map snd ex_files) (Some 2) (store w)"
proof -
  obtain w1 where w1: "migrate ex_env ex_script (Inr (readable ex_files)) ex_world = (Inr (), w1)"
    "lived ex_script (checksum_of ex_env) (map snd ex_files) (Some 2) (store w1)"
    by (rule ex_migrates)
  have config: "open_config ex_machine ex_config_lib ''c'' = Inr ex_live_config"
    by (simp add: open_config_def ex_machine_def ex_live_loads)
  have tls: "tls_setup ex_machine ''c'' ''k'' ''a'' = Inr \<lparr>tls_min_version = version_tls12,
      tls_certificates = [''c''], tls_client_cas = [''ca''], tls_client_auth = VerifyClientCertIfGiven\<rparr>"
    by (simp add: tls_setup_def ex_machine_def)
  have rps: "new_webauthn ex_lib (cfg_applications ex_live_config) = Inr ex_live_rps"
    by (simp add: new_webauthn_def ex_lib_def ex_live_rps_def ex_live_config_def ex_live_app_def ex_app_def)
  have machine: "mc_dsn_ok ex_machine d" "mc_pool_ok ex_machine d" "mc_listen ex_machine l = None" for d l
    by (simp_all add: ex_machine_def)
  have "\<exists>s w. run_server ex_env ex_build ex_args ex_world = (Inr (Serving s), w)
      \<and> srv_api s = ex_served \<and> store w = store w1"
    by (simp add: run_server_def launch_def ex_build_def ex_flags and_then_def of_result_def guard_def ret_def
        wrapping_def config tls rps machine w1(1) ex_live_admin server_on_def ex_served_def)
  with that w1(2) show ?thesis by metis
qed

end
