(* ===== verification/Example_Demo.thy ===== *)
theory Example_Demo
  imports Demo Example_Server
begin

section \<open>The demo client of the concrete server\<close>

text \<open>
  A demo for the application of \<open>Example\<close>, whose client is the demo's certificate, linked to the
  product: a registration from the page's first call to its last.
\<close>

definition ex_chain :: "bytes list" where
  "ex_chain = [''certificate'']"

definition ex_demo_client :: string where
  "ex_demo_client = client_fingerprint ex_env ex_chain"

definition ex_demo_app :: application where
  "ex_demo_app = ex_app\<lparr>app_clients := [ex_demo_client]\<rparr>"

definition ex_demo_service :: service where
  "ex_demo_service = passkey_server ex_env ex_lib ex_rps [ex_demo_app]"

definition ex_printer :: encoder where
  "ex_printer p = (case p of ErrorBody c \<Rightarrow> Some (object_text [(''error'', c)]) | _ \<Rightarrow> Some ''{}'')"

definition ex_demo_api :: api where
  "ex_demo_api =
     product_api ex_env ex_lib ex_rps (ex_config\<lparr>cfg_applications := [ex_demo_app]\<rparr>) None ex_printer
       (\<lambda>_. no_content)"

definition ex_demo_args :: "string list" where
  "ex_demo_args =
     map flag_argument [(''application'', ''shop''), (''passkey-server'', ''https://localhost:8443/''), (''tls-cert'', ''c''),
       (''tls-key'', ''k''), (''client-cert'', ''d''), (''client-key'', ''l''), (''server-ca'', ''a'')]"

definition ex_demo_url :: "string \<Rightarrow> url option" where
  "ex_demo_url s =
     Some \<lparr>url_scheme = ''https'', url_host = ''localhost:8443'', url_hostname = ''localhost'', url_has_user = False,
       url_path = ''/'', url_raw_query = '''', url_force_query = False, url_fragment = ''''\<rparr>"

definition ex_demo :: demo where
  "ex_demo =
     \<lparr>dm_upstream = ''https://localhost:8443'', dm_application = ''shop'', dm_origin = ''https://localhost:3000'',
      dm_host = ''localhost:3000''\<rparr>"

definition ex_demo_server :: "string demo_server" where
  "ex_demo_server =
     \<lparr>ds_addr = ''127.0.0.1:3000'', ds_demo = ex_demo,
      ds_client = \<lparr>hc_min_version = version_tls12, hc_root_cas = [''ca''], hc_certificates = [''d''],
        hc_timeout = seconds 10, hc_follows_redirects = False\<rparr>,
      ds_min_version = version_tls12, ds_certificates = [''c''], ds_read_header_timeout = seconds 5,
      ds_read_timeout = seconds 15, ds_write_timeout = seconds 20, ds_idle_timeout = seconds 60,
      ds_max_header_bytes = 16 * 2 ^ 10\<rparr>"

lemma ex_demo_flags: "parse_flags demo_flag_table ex_demo_args demo_defaults
  = Inr (demo_defaults\<lparr>df_application := ''shop'', df_server := ''https://localhost:8443/'', df_cert := ''c'',
      df_key := ''k'', df_client_cert := ''d'', df_client_key := ''l'', df_server_ca := ''a''\<rparr>, [])"
  unfolding ex_demo_args_def
  by (subst parse_flag_arguments) (simp_all add: flag_word_def demo_flag_table_def)

lemma ex_demo_address: "demo_port (\<lambda>h. h = ''127.0.0.1'') ''127.0.0.1:3000'' = Inr 3000"
  "public_host 3000 = ''localhost:3000''" "trim_slash ''https://localhost:8443/'' = ''https://localhost:8443''"
  by code_simp+

lemma ex_demo_runs:
  "demo_run ex_machine (\<lambda>h. h = ''127.0.0.1'') ex_demo_url ex_demo_args = Inr ex_demo_server"
  unfolding demo_run_def ex_demo_flags using ex_demo_address ex_valid(1)
  by (simp add: demo_defaults_def ex_demo_url_def https_origin_def ex_machine_def
      new_client_def ex_demo_server_def ex_demo_def)

subsection \<open>The registration\<close>

lemma ex_demo_parts:
  "svc_repository ex_demo_service = postgres ex_env"
  "svc_webauthn ex_demo_service = webauthn_adapter ex_env ex_lib ex_rps"
  "svc_applications ex_demo_service ''shop'' = Some ex_demo_app"
  "service_authorize ex_demo_service ''shop'' ex_demo_client = Inr ex_demo_app"
  "app_rpid ex_demo_app = ''example.com''" "app_code ex_demo_app = ''shop''"
  "app_name ex_demo_app = app_name ex_app" "app_origins ex_demo_app = app_origins ex_app"
  by (simp_all add: ex_demo_service_def passkey_server_def new_service_def ex_demo_app_def ex_app_def
      service_authorize_Inr ex_demo_client_def client_fingerprint_def ex_chain_def)

lemma ex_demo_begin:
  "wa_begin (webauthn_adapter ex_env ex_lib ex_rps) k ex_demo_app s n [] w
    = (Inr (''{}'', ''session''), w\<lparr>rands := Suc (rands w), ticks := Suc (ticks w)\<rparr>)"
  by (simp add: webauthn_adapter_def adapter_begin_def ex_effects make_webauthn_user_def
      ex_rps_def ex_lib_def ex_demo_app_def ex_app_def)

lemma ex_demo_start:
  "service_start ex_env ex_demo_service Registration ''shop'' ''alice'' '''' ex_demo_client ex_world
    = (Inr \<lparr>sr_token = ex_token 1, sr_options = ''{}'', sr_expires_at = 1 + CeremonyTTL\<rparr>, ex_started)"
  by (simp add: service_start_def start_ceremony_def ex_effects ex_demo_parts ex_demo_begin ex_valid
      ex_hash ex_env_simps postgres_def pg_credentials_def read_credentials_def
      pg_start_def ex_world_def select_credentials_def empty_db_def ex_kinds insert_ceremony_def
      ex_row_check pg_event_def insert_history_def event_details_def table_rows_def set_table_def
      ex_started_def ex_ceremony_def ex_event_def)
     (simp add: new_ceremony_def ex_token_def)

lemma ex_demo_verify:
  "wa_verify (webauthn_adapter ex_env ex_lib ex_rps) Registration ex_demo_app ex_ceremony [] ''{}'' w
    = (Inr (ex_credential\<lparr>cred_id := uuid_v7 ex_env (uuids w), cred_created_at := zero_time\<rparr>),
       w\<lparr>uuids := Suc (uuids w), ticks := Suc (ticks w)\<rparr>)"
  by (simp add: webauthn_adapter_def adapter_verify_def adapter_map_def registration_value_def
      map_credential_def key_algorithm_def ex_effects make_webauthn_user_def ex_rps_def ex_lib_def
      ex_demo_app_def ex_app_def ex_key_def ex_credential_def ex_ceremony_simps)

lemma ex_demo_finish:
  "service_finish ex_env ex_demo_service Registration (ex_token 1) ''{}'' ex_demo_client ex_started
    = (Inr \<lparr>fr_application = ''shop'', fr_subject = ''alice'', fr_credential = uuid_v7 ex_env 2\<rparr>,
       ex_registered)"
  by (simp add: service_finish_def ex_effects ex_demo_parts ex_json ex_trim ex_hash ex_env_simps
      postgres_def pg_finish_def ex_kinds finish_body_def select_by_token_def ex_started_def
      empty_db_def table_rows_def set_table_def ex_ceremony_simps finish_authorize_def
      lock_subject_def database_now_def finish_verify_def
      ceremony_check_def read_credentials_def select_credentials_def finish_verifier_def
      ex_demo_verify finish_apply_def registered_row_def finish_record_def final_state_def
      pg_event_def insert_history_def insert_credential_def update_state_def event_details_def
      ex_uuid_nonempty ex_uuid_eq ex_stored ex_later ex_terminal ex_event_def)
     (simp add: ex_registered_def ex_event_def empty_db_def ceremony.extend_def
      ceremony_row.fields_def ex_stored)

subsection \<open>The page's calls\<close>

definition ex_page_call :: "string \<Rightarrow> bytes \<Rightarrow> http_request" where
  "ex_page_call step body =
     \<lparr>rq_method = ''POST'', rq_path = [''api'', ''registrations'', step], rq_query = '''',
      rq_media = Some ''application/json'', rq_body = Some body, rq_verified = False, rq_certs = [],
      rq_tls = True, rq_host = ''localhost:3000'', rq_origins = [''https://localhost:3000''], rq_cookies = []\<rparr>"

definition ex_start_body :: bytes where
  "ex_start_body = object_text [(''subject'', ''alice'')]"

definition ex_finish_body :: bytes where
  "ex_finish_body = CHR ''{'' # member_text (''token'', ex_token 1) @ CHR '','' # quote # ''credential''
     @ quote # CHR '':'' # ''{}'' @ ''}''"

lemma ex_start_input: "unmarshal start_input ex_start_body = Inr (empty_struct(''subject'' := ''alice''))"
proof -
  have "plain ''subject''" "utf8_valid ''alice''" by code_simp+
  then show ?thesis
    using unmarshal_object [of "[(''subject'', ''alice'')]" start_input]
    by (simp add: ex_start_body_def plain_members_def start_input_def del: object_text.simps)
qed

lemma ex_finish_input:
  "unmarshal finish_input ex_finish_body = Inr (empty_struct(''token'' := ex_token 1, ''credential'' := ''{}''))"
  "compact_json ''{}'' = Some ''{}''" "length (ex_token 1) = 43" "utf8_valid (ex_token 1)"
  "token_pass [] ex_finish_body = None"
proof -
  show compact: "compact_json ''{}'' = Some ''{}''" by code_simp
  show tok: "length (ex_token 1) = 43" "utf8_valid (ex_token 1)" by code_simp+
  have "plain ''token''" "plain ''credential''" by code_simp+
  then show "unmarshal finish_input ex_finish_body
      = Inr (empty_struct(''token'' := ex_token 1, ''credential'' := ''{}''))"
    unfolding ex_finish_body_def
    by (rule unmarshal_string_raw [OF compact tok(2)]) (simp_all add: finish_input_def)
  show "token_pass [] ex_finish_body = None" by code_simp
qed

lemma ex_finish_payload: "demo_payload ex_demo False ex_finish_body = Some ex_finish_body"
  using ex_finish_input(1-4) ex_trim
  by (simp add: demo_payload_def marshal_finish_def has_prefix_def ex_finish_body_def)

lemma ex_page_calls:
  "page_call ex_demo Registration ''start'' ex_start_body (ex_page_call ''start'' ex_start_body)"
  "page_call ex_demo Registration ''finish'' ex_finish_body (ex_page_call ''finish'' ex_finish_body)"
proof -
  have brace: "no_space_byte CHR ''{''" "no_space_byte CHR ''}''"
    by (rule no_space_byte_graphic; simp add: punctuation_nat)+
  have "has_prefix (trim_space t) ''{''" if "\<exists>s. t = CHR ''{'' # s @ [CHR ''}'']" for t
    using that trim_space_graphic [OF brace] by (auto simp: has_prefix_def)
  moreover have "\<exists>s. ex_start_body = CHR ''{'' # s @ [CHR ''}'']" "\<exists>s. ex_finish_body = CHR ''{'' # s @ [CHR ''}'']"
    unfolding ex_start_body_def ex_finish_body_def by (intro exI, simp)+
  moreover have "length ex_start_body \<le> 100" "length ex_finish_body \<le> 400"
    using length_escape [of "ex_token 1"] length_escape [of "''alice''"] ex_finish_input(3)
    by (simp_all add: ex_start_body_def ex_finish_body_def member_text_def)
  ultimately show "page_call ex_demo Registration ''start'' ex_start_body (ex_page_call ''start'' ex_start_body)"
    "page_call ex_demo Registration ''finish'' ex_finish_body (ex_page_call ''finish'' ex_finish_body)"
    by (auto simp: page_call_def ex_page_call_def ex_demo_def kind_path_def names origin_header_def
        max_request_bytes_def)
qed

lemma ex_prints: "prints_errors ex_printer"
  by (simp add: prints_errors_def ex_printer_def)

end
