(* ===== verification/Concurrency.thy ===== *)
theory Concurrency
  imports Lifecycle
begin

section \<open>Concurrent transactions: passkeys/postgres.go over READ COMMITTED\<close>

text \<open>
  The transactions of \<open>Postgres\<close> statement by statement, any number of them open at once. An open
  transaction has the writes it has made, which only it sees, and the locks it holds until it ends; a
  statement sees the committed tables with those writes, and waits while another transaction holds a
  lock it needs: a row it updates, deletes or selects \<open>FOR UPDATE\<close>, a key it inserts into a unique
  index, an advisory lock. These are the rules PostgreSQL documents for the isolation level the code
  uses; failing calls and refusals are the possibility to abort. The theorems are that the code takes the
  locks it needs, in an order that excludes deadlocks: every commit makes one complete transition of the
  committed database, and what \<open>verify\<close> was shown is still true when its outcome is committed.
\<close>

subsection \<open>Writes, locks and facts\<close>

datatype row_write =
    AddCeremony kind ceremony
  | SetState kind string string
  | SetLink string string
  | AddCredential credential
  | TouchCredential credential time ceremony
  | DropCredential string string string
  | AddEvent event

definition scoped_credential :: "credential \<Rightarrow> ceremony \<Rightarrow> credential \<Rightarrow> bool" where
  "scoped_credential cr c = scoped_to (cred_id cr) (cer_application c) (cer_subject c) (cer_rpid c)"

definition touched :: "credential \<Rightarrow> time \<Rightarrow> credential \<Rightarrow> credential" where
  "touched cr now = touch (cred_sign_count cr) (cred_backup_state cr) (cred_webauthn cr) now"

definition owned :: "string \<Rightarrow> string \<Rightarrow> string \<Rightarrow> credential \<Rightarrow> bool" where
  "owned i a s c \<longleftrightarrow> cred_id c = i \<and> cred_application c = a \<and> cred_subject c = s"

fun apply_write :: "row_write \<Rightarrow> db \<Rightarrow> db" where
  "apply_write (AddCeremony k c) d =
     set_table k (table_rows k d @ [ceremony.extend c (ceremony_row.fields None)]) d"
| "apply_write (SetState k st i) d =
     set_table k (map (\<lambda>r. if cer_id r = i then r\<lparr>cer_state := st\<rparr> else r) (table_rows k d)) d"
| "apply_write (SetLink cid i) d =
     d\<lparr>db_authentication :=
       map (\<lambda>r. if cer_id r = i then r\<lparr>row_credential := Some cid\<rparr> else r) (db_authentication d)\<rparr>"
| "apply_write (AddCredential c) d = d\<lparr>db_credential := db_credential d @ [c]\<rparr>"
| "apply_write (TouchCredential cr now c) d =
     d\<lparr>db_credential :=
       map (\<lambda>x. if scoped_credential cr c x then touched cr now x else x) (db_credential d)\<rparr>"
| "apply_write (DropCredential i a s) d =
     d\<lparr>db_credential := filter (\<lambda>x. \<not> owned i a s x) (db_credential d)\<rparr>"
| "apply_write (AddEvent e) d = d\<lparr>db_history := db_history d @ [e]\<rparr>"

definition apply_writes :: "row_write list \<Rightarrow> db \<Rightarrow> db" where
  "apply_writes ws d = fold apply_write ws d"

datatype lock =
    CeremonyRow kind string
  | TokenKey kind bytes
  | SubjectKey int
  | CredentialRow string
  | CredentialKey "string \<times> bytes"
  | EventKey string

text \<open>The locks a write is made under.\<close>

fun touches :: "(bytes \<Rightarrow> bytes) \<Rightarrow> row_write \<Rightarrow> lock set" where
  "touches sha (AddCeremony k c) = {CeremonyRow k (cer_id c), TokenKey k (cer_token_hash c)}"
| "touches sha (SetState k st i) = {CeremonyRow k i}"
| "touches sha (SetLink cid i) = {CeremonyRow Authentication i}"
| "touches sha (AddCredential c) =
     {CredentialRow (cred_id c), CredentialKey (rp_key c),
      SubjectKey (lock_key sha (cred_application c) (cred_subject c))}"
| "touches sha (TouchCredential cr now c) =
     {CredentialRow (cred_id cr), SubjectKey (lock_key sha (cer_application c) (cer_subject c))}"
| "touches sha (DropCredential i a s) = {CredentialRow i, SubjectKey (lock_key sha a s)}"
| "touches sha (AddEvent e) = {EventKey (ev_id e)}"

fun write_ok :: "row_write \<Rightarrow> bool" where
  "write_ok (AddCeremony k c) = kind_valid k"
| "write_ok (SetState k st i) = kind_valid k"
| "write_ok _ = True"

text \<open>What a transaction has found out, and the locks under which it stays true.\<close>

datatype fact =
    Chosen kind bytes ceremony
  | Listed string string "credential list"
  | FreshCeremony kind ceremony
  | FreshCredential credential
  | Touchable credential time ceremony
  | Deletable string string string
  | FreshEvent string

fun fact_holds :: "fact \<Rightarrow> db \<Rightarrow> bool" where
  "fact_holds (Chosen k h c) d \<longleftrightarrow> kind_valid k \<and> select_by_token k h d = Some c"
| "fact_holds (Listed a s cs) d \<longleftrightarrow> select_credentials a s d = cs"
| "fact_holds (FreshCeremony k c) d \<longleftrightarrow> kind_valid k
     \<and> insert_ceremony k c d = Inr ((), apply_write (AddCeremony k c) d)"
| "fact_holds (FreshCredential c) d \<longleftrightarrow> insert_credential c d = Inr (1, apply_write (AddCredential c) d)"
| "fact_holds (Touchable cr now c) d \<longleftrightarrow>
     update_credential (cred_sign_count cr) (cred_backup_state cr) (cred_webauthn cr) now (cred_id cr)
       (cer_application c) (cer_subject c) (cer_rpid c) d = Inr (1, apply_write (TouchCredential cr now c) d)"
| "fact_holds (Deletable i a s) d \<longleftrightarrow> delete_credential i a s d = Inr (1, apply_write (DropCredential i a s) d)"
| "fact_holds (FreshEvent i) d \<longleftrightarrow> i \<notin> ev_id ` set (db_history d)"

fun protects :: "(bytes \<Rightarrow> bytes) \<Rightarrow> fact \<Rightarrow> lock set" where
  "protects sha (Chosen k h c) = {CeremonyRow k (cer_id c)}"
| "protects sha (Listed a s cs) = {SubjectKey (lock_key sha a s)}"
| "protects sha (FreshCeremony k c) = {CeremonyRow k (cer_id c), TokenKey k (cer_token_hash c)}"
| "protects sha (FreshCredential c) = {CredentialRow (cred_id c), CredentialKey (rp_key c)}"
| "protects sha (Touchable cr now c) = {CredentialRow (cred_id cr)}"
| "protects sha (Deletable i a s) = {CredentialRow i}"
| "protects sha (FreshEvent i) = {EventKey i}"

subsection \<open>A fact stays true while its locks are held\<close>

lemma find_map_id:
  "(\<And>x. P (f x) = P x) \<Longrightarrow> find P (map f xs) = map_option f (find P xs)"
  by (induction xs) auto

lemma find_append_Some: "find P xs = Some x \<Longrightarrow> find P (xs @ ys) = Some x"
  by (induction xs) auto

lemma chosen_stable:
  assumes "kind_valid k" and "select_by_token k h d = Some c"
    and "CeremonyRow k (cer_id c) \<notin> touches sha w" and "write_ok w"
  shows "select_by_token k h (apply_write w d) = Some c"
proof -
  from assms(2) obtain r where r: "find (\<lambda>r. cer_token_hash r = h) (table_rows k d) = Some r"
    "c = ceremony.truncate r" by (auto simp: select_by_token_def)
  show ?thesis
  proof (cases w)
    case (AddCeremony k' c')
    with assms r show ?thesis
      by (cases "k' = k") (auto simp: select_by_token_def table_rows_other find_append_Some)
  next
    case (SetState k' st i)
    with assms r show ?thesis
      by (cases "k' = k") (auto simp: select_by_token_def table_rows_other find_map_id)
  next
    case (SetLink cid i)
    with assms r show ?thesis
      by (cases "k = Registration")
        (auto simp: select_by_token_def table_rows_def kind_valid_def find_map_id ceremony.truncate_def)
  qed (use assms in \<open>simp_all add: select_by_token_def\<close>)
qed

lemma filter_map_other:
  "(\<And>x. P x \<Longrightarrow> f x = x) \<Longrightarrow> (\<And>x. \<not> P x \<Longrightarrow> \<not> P (f x)) \<Longrightarrow> filter P (map f xs) = filter P xs"
  by (induction xs) auto

text \<open>A write to credentials leaves the rows of a predicate alone that its locks exclude.\<close>

lemma credentials_kept:
  assumes "\<And>c. w = AddCredential c \<Longrightarrow> \<not> P c"
    and "\<And>cr now c x. w = TouchCredential cr now c \<Longrightarrow> scoped_credential cr c x \<Longrightarrow> \<not> P x \<and> \<not> P (touched cr now x)"
    and "\<And>i a s x. w = DropCredential i a s \<Longrightarrow> owned i a s x \<Longrightarrow> \<not> P x"
  shows "filter P (db_credential (apply_write w d)) = filter P (db_credential d)"
proof (cases w)
  case (TouchCredential cr now c)
  with assms(2) show ?thesis by (auto intro!: filter_map_other split: if_splits)
next
  case (DropCredential i a s)
  with assms(3) have "(\<not> owned i a s x \<and> P x) = P x" for x by blast
  with DropCredential show ?thesis by (simp add: conj_commute)
qed (use assms(1) in \<open>auto simp: set_table_def table_rows_def\<close>)

lemma touched_simps [simp]:
  "cred_id (touched cr now x) = cred_id x" "cred_application (touched cr now x) = cred_application x"
  "cred_subject (touched cr now x) = cred_subject x" "rp_key (touched cr now x) = rp_key x"
  "cred_rpid (touched cr now x) = cred_rpid x"
  by (simp_all add: touched_def touch_def rp_key_def)

lemma listed_stable:
  assumes "SubjectKey (lock_key sha a s) \<notin> touches sha w"
  shows "select_credentials a s (apply_write w d) = select_credentials a s d"
proof -
  have "filter (\<lambda>c. cred_application c = a \<and> cred_subject c = s) (db_credential (apply_write w d))
    = filter (\<lambda>c. cred_application c = a \<and> cred_subject c = s) (db_credential d)"
    by (rule credentials_kept) (use assms in \<open>auto simp: scoped_credential_def scoped_to_def owned_def\<close>)
  then show ?thesis by (simp add: select_credentials_def)
qed

lemma credential_keys_kept:
  assumes "\<And>c. w = AddCredential c \<Longrightarrow> f c \<noteq> y" and "\<And>cr now x. f (touched cr now x) = f x"
    and "y \<notin> f ` set (db_credential d)"
  shows "y \<notin> f ` set (db_credential (apply_write w d))"
  using assms by (cases w) (auto simp: set_table_def)

lemma fresh_credential_iff:
  "fact_holds (FreshCredential c) d \<longleftrightarrow> credential_check c \<and> rp_key c \<notin> rp_key ` set (db_credential d)
    \<and> cred_id c \<notin> cred_id ` set (db_credential d)"
  by (auto simp: insert_credential_def)

lemma touchable_iff:
  "fact_holds (Touchable cr now c) d \<longleftrightarrow>
    length (filter (scoped_credential cr c) (db_credential d)) = 1
    \<and> list_all (\<lambda>x. credential_check (touched cr now x)) (filter (scoped_credential cr c) (db_credential d))"
proof -
  have hit: "scoped_credential cr c (touched cr now x) = scoped_credential cr c x" for x
    by (simp add: scoped_credential_def scoped_to_def)
  have "list_all credential_check (filter (scoped_credential cr c)
      (map (\<lambda>x. if scoped_credential cr c x then touched cr now x else x) xs))
    = list_all (\<lambda>x. credential_check (touched cr now x)) (filter (scoped_credential cr c) xs)" for xs
    by (induction xs) (auto simp: hit)
  note this [unfolded touched_def]
  then show ?thesis
    by (auto simp: update_credential_def scoped_credential_def [symmetric] touched_def Let_def)
qed

lemma deletable_iff:
  "fact_holds (Deletable i a s) d \<longleftrightarrow> length (filter (owned i a s) (db_credential d)) = 1"
  by (simp add: delete_credential_def owned_def [abs_def])

lemma fresh_ceremony_iff:
  "fact_holds (FreshCeremony k c) d \<longleftrightarrow> kind_valid k \<and> ceremony_row_check (ceremony.extend c (ceremony_row.fields None))
    \<and> cer_id c \<notin> cer_id ` set (table_rows k d) \<and> cer_token_hash c \<notin> cer_token_hash ` set (table_rows k d)"
  by (auto simp: insert_ceremony_def Let_def)

declare fact_holds.simps(3-6) [simp del]

lemma fresh_credential_stable:
  assumes "fact_holds (FreshCredential c) d" and "touches sha w \<inter> protects sha (FreshCredential c) = {}"
  shows "fact_holds (FreshCredential c) (apply_write w d)"
proof -
  have "rp_key c \<notin> rp_key ` set (db_credential (apply_write w d))"
    by (rule credential_keys_kept) (use assms in \<open>auto simp: fresh_credential_iff\<close>)
  moreover have "cred_id c \<notin> cred_id ` set (db_credential (apply_write w d))"
    by (rule credential_keys_kept) (use assms in \<open>auto simp: fresh_credential_iff\<close>)
  ultimately show ?thesis using assms(1) by (simp add: fresh_credential_iff)
qed

lemma touchable_stable:
  assumes "fact_holds (Touchable cr now c) d" and "CredentialRow (cred_id cr) \<notin> touches sha w"
  shows "fact_holds (Touchable cr now c) (apply_write w d)"
proof -
  have "filter (scoped_credential cr c) (db_credential (apply_write w d))
    = filter (scoped_credential cr c) (db_credential d)"
    by (rule credentials_kept) (use assms in \<open>auto simp: scoped_credential_def scoped_to_def owned_def\<close>)
  with assms(1) show ?thesis by (simp add: touchable_iff)
qed

lemma deletable_stable:
  assumes "fact_holds (Deletable i a s) d" and "CredentialRow i \<notin> touches sha w"
  shows "fact_holds (Deletable i a s) (apply_write w d)"
proof -
  have "filter (owned i a s) (db_credential (apply_write w d)) = filter (owned i a s) (db_credential d)"
    by (rule credentials_kept) (use assms in \<open>auto simp: scoped_credential_def scoped_to_def owned_def\<close>)
  with assms(1) show ?thesis by (simp add: deletable_iff)
qed

lemma table_keys_kept:
  assumes "kind_valid k" and "write_ok w" and "\<And>c. w = AddCeremony k c \<Longrightarrow> f (ceremony.extend c (ceremony_row.fields None)) \<noteq> y"
    and "\<And>r st. f (r\<lparr>cer_state := st\<rparr>) = f r" and "\<And>r x. f (r\<lparr>row_credential := x\<rparr>) = f r"
    and "y \<notin> f ` set (table_rows k d)"
  shows "y \<notin> f ` set (table_rows k (apply_write w d))"
proof (cases w)
  case (AddCeremony k' c)
  with assms show ?thesis by (cases "k' = k") (auto simp: table_rows_other)
next
  case (SetState k' st i)
  with assms show ?thesis by (cases "k' = k") (auto simp: table_rows_other)
next
  case (SetLink cid i)
  with assms show ?thesis by (auto simp: table_rows_def)
qed (use assms(6) in \<open>auto simp: table_rows_def\<close>)

lemma fresh_ceremony_stable:
  assumes "fact_holds (FreshCeremony k c) d" and "touches sha w \<inter> protects sha (FreshCeremony k c) = {}"
    and "write_ok w"
  shows "fact_holds (FreshCeremony k c) (apply_write w d)"
proof -
  have k: "kind_valid k" using assms(1) by (simp add: fresh_ceremony_iff)
  have "cer_id c \<notin> cer_id ` set (table_rows k (apply_write w d))"
    by (rule table_keys_kept [OF k assms(3)]) (use assms in \<open>auto simp: fresh_ceremony_iff\<close>)
  moreover have "cer_token_hash c \<notin> cer_token_hash ` set (table_rows k (apply_write w d))"
    by (rule table_keys_kept [OF k assms(3)]) (use assms in \<open>auto simp: fresh_ceremony_iff\<close>)
  ultimately show ?thesis using assms(1) by (simp add: fresh_ceremony_iff)
qed

lemma history_kept:
  "ev_id ` set (db_history (apply_write w d)) = (case w of AddEvent e \<Rightarrow> insert (ev_id e) | _ \<Rightarrow> id) (ev_id ` set (db_history d))"
  by (cases w) (auto simp: set_table_def)

lemma fact_stable:
  assumes "fact_holds f d" and "touches sha w \<inter> protects sha f = {}" and "write_ok w"
  shows "fact_holds f (apply_write w d)"
proof (cases f)
  case (FreshEvent i)
  with assms show ?thesis by (auto simp: history_kept split: row_write.splits)
qed (use assms chosen_stable listed_stable fresh_ceremony_stable fresh_credential_stable touchable_stable
    deletable_stable in auto)

lemma fact_stable_writes:
  "fact_holds f d \<Longrightarrow> list_all (\<lambda>w. touches sha w \<inter> protects sha f = {} \<and> write_ok w) ws \<Longrightarrow>
    fact_holds f (apply_writes ws d)"
  by (induction ws arbitrary: d) (auto simp: apply_writes_def intro: fact_stable)

lemma apply_writes_simps [simp]:
  "apply_writes [] d = d" "apply_writes (w # ws) d = apply_writes ws (apply_write w d)"
  "apply_writes (vs @ ws) d = apply_writes ws (apply_writes vs d)"
  by (simp_all add: apply_writes_def)

subsection \<open>The statements of a transaction\<close>

text \<open>
  What a transaction is for and how far it has come, with the local variables of the Go method. A
  verifier is a relation: \<open>verify\<close> may draw identifiers and read the clock.
\<close>

datatype job =
    StartJob kind ceremony
  | FinishJob kind bytes "ceremony \<Rightarrow> err option" "ceremony \<Rightarrow> credential list \<Rightarrow> err + credential \<Rightarrow> bool"
  | DeleteJob string string string

datatype phase =
    Begun
  | Inserted
  | Found ceremony
  | Serialized ceremony
  | Timed ceremony time
  | Verified ceremony time "credential list option" "err + credential"
  | Applied ceremony time "credential list option" "err + credential"
  | Stated ceremony time "credential list option" "err + credential"
  | Linked ceremony time "credential list option" "err + credential"
  | SubjectHeld
  | Dropped
  | Recorded phase event

fun job_ok :: "job \<Rightarrow> bool" where
  "job_ok (StartJob k c) \<longleftrightarrow> cer_state c = pending"
| "job_ok _ = True"

text \<open>
  One statement: the locks it waits for, the writes it makes, and the tables it sees before and
  after. The branches on \<open>RowsAffected\<close> are separate rules, and so are the two ways past the link of
  an authentication to its credential.
\<close>

inductive advance ::
  "(bytes \<Rightarrow> bytes) \<Rightarrow> job \<Rightarrow> phase \<Rightarrow> db \<Rightarrow> lock set \<Rightarrow> row_write list \<Rightarrow> phase \<Rightarrow> db \<Rightarrow> bool" for sha
where
  insert_row:
    "kind_valid k \<Longrightarrow> insert_ceremony k c d = Inr ((), d') \<Longrightarrow>
     advance sha (StartJob k c) Begun d
       {CeremonyRow k (cer_id c), TokenKey k (cer_token_hash c)} [AddCeremony k c] Inserted d'"
| insert_start_event:
    "start_event k c e \<Longrightarrow> insert_history e d = Inr ((), d') \<Longrightarrow>
     advance sha (StartJob k c) Inserted d {EventKey (ev_id e)} [AddEvent e] (Recorded Inserted e) d'"
| select_for_update:
    "kind_valid k \<Longrightarrow> select_by_token k h d = Some c \<Longrightarrow> authorize c = None \<Longrightarrow> cer_state c = pending \<Longrightarrow>
     advance sha (FinishJob k h authorize verify) Begun d {CeremonyRow k (cer_id c)} [] (Found c) d"
| lock_ceremony_subject:
    "advance sha (FinishJob k h authorize verify) (Found c) d
       {SubjectKey (lock_key sha (cer_application c) (cer_subject c))} [] (Serialized c) d"
| select_clock:
    "advance sha (FinishJob k h authorize verify) (Serialized c) d {} [] (Timed c now) d"
| check_fails:
    "ceremony_check c k now = Some er \<Longrightarrow>
     advance sha (FinishJob k h authorize verify) (Timed c now) d {} [] (Verified c now None (Inl er)) d"
| read_and_verify:
    "ceremony_check c k now = None \<Longrightarrow> cs = select_credentials (cer_application c) (cer_subject c) d \<Longrightarrow>
     verify c cs v \<Longrightarrow> (\<And>er. v = Inl er \<Longrightarrow> error_is er (kind_invalid k)) \<Longrightarrow>
     advance sha (FinishJob k h authorize verify) (Timed c now) d {} [] (Verified c now (Some cs) v) d"
| keep_error:
    "advance sha (FinishJob k h authorize verify) (Verified c now seen (Inl er)) d {} []
       (Applied c now seen (Inl er)) d"
| add_credential:
    "k = Registration \<Longrightarrow> row = registered_row c now (stamped k now cr) \<Longrightarrow>
     insert_credential row d = Inr (1, d') \<Longrightarrow>
     advance sha (FinishJob k h authorize verify) (Verified c now seen (Inr cr)) d
       {CredentialRow (cred_id row), CredentialKey (rp_key row)} [AddCredential row]
       (Applied c now seen (Inr (stamped k now cr))) d'"
| add_duplicate:
    "k = Registration \<Longrightarrow> insert_credential (registered_row c now (stamped k now cr)) d = Inr (0, d') \<Longrightarrow>
     advance sha (FinishJob k h authorize verify) (Verified c now seen (Inr cr)) d {} []
       (Applied c now seen (Inl (Code Conflict))) d'"
| touch_credential:
    "k = Authentication \<Longrightarrow> credential = stamped k now cr \<Longrightarrow>
     update_credential (cred_sign_count credential) (cred_backup_state credential) (cred_webauthn credential) now
       (cred_id credential) (cer_application c) (cer_subject c) (cer_rpid c) d = Inr (1, d') \<Longrightarrow>
     advance sha (FinishJob k h authorize verify) (Verified c now seen (Inr cr)) d
       {CredentialRow (cred_id credential)} [TouchCredential credential now c] (Applied c now seen (Inr credential)) d'"
| touch_nothing:
    "k = Authentication \<Longrightarrow> credential = stamped k now cr \<Longrightarrow>
     update_credential (cred_sign_count credential) (cred_backup_state credential) (cred_webauthn credential) now
       (cred_id credential) (cer_application c) (cer_subject c) (cer_rpid c) d = Inr (0, d') \<Longrightarrow>
     advance sha (FinishJob k h authorize verify) (Verified c now seen (Inr cr)) d {} []
       (Applied c now seen (Inl (Code (kind_invalid k)))) d'"
| set_state:
    "st = final_state k out \<Longrightarrow> update_state k st (cer_id c) d = Inr ((), d') \<Longrightarrow>
     advance sha (FinishJob k h authorize verify) (Applied c now seen out) d {CeremonyRow k (cer_id c)}
       [SetState k st (cer_id c)] (Stated c now seen out) d'"
| set_link:
    "k = Authentication \<Longrightarrow> update_auth_credential (cred_id cr) (cer_id c) d = Inr ((), d') \<Longrightarrow>
     advance sha (FinishJob k h authorize verify) (Stated c now seen (Inr cr)) d {CeremonyRow k (cer_id c)}
       [SetLink (cred_id cr) (cer_id c)] (Linked c now seen (Inr cr)) d'"
| no_link:
    "k \<noteq> Authentication \<or> isl out \<Longrightarrow>
     advance sha (FinishJob k h authorize verify) (Stated c now seen out) d {} [] (Linked c now seen out) d"
| insert_finish_event:
    "finish_event k c (final_state k out) out e \<Longrightarrow> insert_history e d = Inr ((), d') \<Longrightarrow>
     advance sha (FinishJob k h authorize verify) (Linked c now seen out) d {EventKey (ev_id e)} [AddEvent e]
       (Recorded (Linked c now seen out) e) d'"
| lock_subject_first:
    "advance sha (DeleteJob a s i) Begun d {SubjectKey (lock_key sha a s)} [] SubjectHeld d"
| drop_credential:
    "delete_credential i a s d = Inr (1, d') \<Longrightarrow>
     advance sha (DeleteJob a s i) SubjectHeld d {CredentialRow i} [DropCredential i a s] Dropped d'"
| insert_delete_event:
    "delete_event a s i e \<Longrightarrow> insert_history e d = Inr ((), d') \<Longrightarrow>
     advance sha (DeleteJob a s i) Dropped d {EventKey (ev_id e)} [AddEvent e] (Recorded Dropped e) d'"

subsection \<open>Open transactions and the committed tables\<close>

record tx =
  tx_job :: job
  tx_phase :: phase
  tx_writes :: "row_write list"
  tx_held :: "lock set"

record system =
  committed :: db
  opened :: "nat \<Rightarrow> tx option"

definition idle_system :: "db \<Rightarrow> system" where
  "idle_system d = \<lparr>committed = d, opened = Map.empty\<rparr>"

definition sees :: "system \<Rightarrow> tx \<Rightarrow> db" where
  "sees S t = apply_writes (tx_writes t) (committed S)"

definition free_of :: "lock set \<Rightarrow> nat \<Rightarrow> system \<Rightarrow> bool" where
  "free_of L n S \<longleftrightarrow> (\<forall>m t. opened S m = Some t \<longrightarrow> m \<noteq> n \<longrightarrow> tx_held t \<inter> L = {})"

inductive sys_step :: "(bytes \<Rightarrow> bytes) \<Rightarrow> system \<Rightarrow> system \<Rightarrow> bool" for sha where
  begins:
    "opened S n = None \<Longrightarrow> job_ok j \<Longrightarrow>
     sys_step sha S (S\<lparr>opened := (opened S)(n \<mapsto> \<lparr>tx_job = j, tx_phase = Begun, tx_writes = [], tx_held = {}\<rparr>)\<rparr>)"
| advances:
    "opened S n = Some t \<Longrightarrow> advance sha (tx_job t) (tx_phase t) (sees S t) L ws p d' \<Longrightarrow> free_of L n S \<Longrightarrow>
     sys_step sha S (S\<lparr>opened := (opened S)(n \<mapsto>
       t\<lparr>tx_phase := p, tx_writes := tx_writes t @ ws, tx_held := tx_held t \<union> L\<rparr>)\<rparr>)"
| commits:
    "opened S n = Some t \<Longrightarrow> tx_phase t = Recorded p e \<Longrightarrow>
     sys_step sha S \<lparr>committed = sees S t, opened = (opened S)(n := None)\<rparr>"
| aborts:
    "opened S n = Some t \<Longrightarrow> sys_step sha S (S\<lparr>opened := (opened S)(n := None)\<rparr>)"

subsection \<open>What a transaction has done and knows in each phase\<close>

fun credential_write :: "kind \<Rightarrow> ceremony \<Rightarrow> time \<Rightarrow> err + credential \<Rightarrow> row_write list" where
  "credential_write k c now (Inl er) = []"
| "credential_write k c now (Inr cr) =
     [if k = Registration then AddCredential (registered_row c now cr) else TouchCredential cr now c]"

fun link_write :: "kind \<Rightarrow> ceremony \<Rightarrow> err + credential \<Rightarrow> row_write list" where
  "link_write k c (Inl er) = []"
| "link_write k c (Inr cr) = (if k = Authentication then [SetLink (cred_id cr) (cer_id c)] else [])"

fun made :: "job \<Rightarrow> phase \<Rightarrow> row_write list" where
  "made j (Recorded p e) = made j p @ [AddEvent e]"
| "made (StartJob k c) Inserted = [AddCeremony k c]"
| "made (FinishJob k h authorize verify) (Applied c now seen out) = credential_write k c now out"
| "made (FinishJob k h authorize verify) (Stated c now seen out) =
     credential_write k c now out @ [SetState k (final_state k out) (cer_id c)]"
| "made (FinishJob k h authorize verify) (Linked c now seen out) =
     credential_write k c now out @ [SetState k (final_state k out) (cer_id c)] @ link_write k c out"
| "made (DeleteJob a s i) Dropped = [DropCredential i a s]"
| "made _ _ = []"

definition seen_facts :: "ceremony \<Rightarrow> credential list option \<Rightarrow> fact set" where
  "seen_facts c seen =
     (case seen of None \<Rightarrow> {} | Some cs \<Rightarrow> {Listed (cer_application c) (cer_subject c) cs})"

fun credential_facts :: "kind \<Rightarrow> ceremony \<Rightarrow> time \<Rightarrow> err + credential \<Rightarrow> fact set" where
  "credential_facts k c now (Inl er) = {}"
| "credential_facts k c now (Inr cr) =
     {if k = Registration then FreshCredential (registered_row c now cr) else Touchable cr now c}"

fun knows :: "job \<Rightarrow> phase \<Rightarrow> fact set" where
  "knows j (Recorded p e) = insert (FreshEvent (ev_id e)) (knows j p)"
| "knows (StartJob k c) Inserted = {FreshCeremony k c}"
| "knows (FinishJob k h authorize verify) (Found c) = {Chosen k h c}"
| "knows (FinishJob k h authorize verify) (Serialized c) = {Chosen k h c}"
| "knows (FinishJob k h authorize verify) (Timed c now) = {Chosen k h c}"
| "knows (FinishJob k h authorize verify) (Verified c now seen v) = insert (Chosen k h c) (seen_facts c seen)"
| "knows (FinishJob k h authorize verify) (Applied c now seen out) =
     insert (Chosen k h c) (seen_facts c seen \<union> credential_facts k c now out)"
| "knows (FinishJob k h authorize verify) (Stated c now seen out) =
     insert (Chosen k h c) (seen_facts c seen \<union> credential_facts k c now out)"
| "knows (FinishJob k h authorize verify) (Linked c now seen out) =
     insert (Chosen k h c) (seen_facts c seen \<union> credential_facts k c now out)"
| "knows (DeleteJob a s i) Dropped = {Deletable i a s}"
| "knows _ _ = {}"

text \<open>What \<open>c.Check\<close> and \<open>verify\<close> decide, and what the change to the credential makes of it.\<close>

definition verdict ::
  "kind \<Rightarrow> (ceremony \<Rightarrow> credential list \<Rightarrow> err + credential \<Rightarrow> bool) \<Rightarrow> ceremony \<Rightarrow> time
    \<Rightarrow> credential list option \<Rightarrow> err + credential \<Rightarrow> bool"
where
  "verdict k verify c now seen v \<longleftrightarrow>
     (if now < cer_expires_at c
      then (\<exists>cs. seen = Some cs \<and> verify c cs v) \<and> (\<forall>er. v = Inl er \<longrightarrow> error_is er (kind_invalid k))
      else seen = None \<and> v = Inl (Code (kind_expired k)))"

fun settled :: "kind \<Rightarrow> time \<Rightarrow> err + credential \<Rightarrow> err + credential \<Rightarrow> bool" where
  "settled k now (Inl er) out \<longleftrightarrow> out = Inl er"
| "settled k now (Inr cr) out \<longleftrightarrow>
     out = Inr (stamped k now cr)
     \<or> out = Inl (if k = Registration then Code Conflict else Code (kind_invalid k))"

definition resolved ::
  "kind \<Rightarrow> (ceremony \<Rightarrow> err option) \<Rightarrow> (ceremony \<Rightarrow> credential list \<Rightarrow> err + credential \<Rightarrow> bool) \<Rightarrow> ceremony
    \<Rightarrow> time \<Rightarrow> credential list option \<Rightarrow> err + credential \<Rightarrow> bool"
where
  "resolved k authorize verify c now seen out \<longleftrightarrow>
     authorize c = None \<and> cer_state c = pending \<and> (\<exists>v. verdict k verify c now seen v \<and> settled k now v out)"

fun fits :: "job \<Rightarrow> phase \<Rightarrow> bool" where
  "fits j Begun \<longleftrightarrow> True"
| "fits (StartJob k c) Inserted \<longleftrightarrow> True"
| "fits (StartJob k c) (Recorded Inserted e) \<longleftrightarrow> start_event k c e"
| "fits (FinishJob k h authorize verify) (Found c) \<longleftrightarrow> authorize c = None \<and> cer_state c = pending"
| "fits (FinishJob k h authorize verify) (Serialized c) \<longleftrightarrow> authorize c = None \<and> cer_state c = pending"
| "fits (FinishJob k h authorize verify) (Timed c now) \<longleftrightarrow> authorize c = None \<and> cer_state c = pending"
| "fits (FinishJob k h authorize verify) (Verified c now seen v) \<longleftrightarrow>
     authorize c = None \<and> cer_state c = pending \<and> verdict k verify c now seen v"
| "fits (FinishJob k h authorize verify) (Applied c now seen out) \<longleftrightarrow> resolved k authorize verify c now seen out"
| "fits (FinishJob k h authorize verify) (Stated c now seen out) \<longleftrightarrow> resolved k authorize verify c now seen out"
| "fits (FinishJob k h authorize verify) (Linked c now seen out) \<longleftrightarrow> resolved k authorize verify c now seen out"
| "fits (FinishJob k h authorize verify) (Recorded (Linked c now seen out) e) \<longleftrightarrow>
     resolved k authorize verify c now seen out \<and> finish_event k c (final_state k out) out e"
| "fits (DeleteJob a s i) SubjectHeld \<longleftrightarrow> True"
| "fits (DeleteJob a s i) Dropped \<longleftrightarrow> True"
| "fits (DeleteJob a s i) (Recorded Dropped e) \<longleftrightarrow> delete_event a s i e"
| "fits _ _ \<longleftrightarrow> False"

text \<open>The locks of a phase: those of the facts and the writes.\<close>

fun subject_locks :: "(bytes \<Rightarrow> bytes) \<Rightarrow> job \<Rightarrow> phase \<Rightarrow> lock set" where
  "subject_locks sha j (Recorded p e) = subject_locks sha j p"
| "subject_locks sha j (Serialized c) = {SubjectKey (lock_key sha (cer_application c) (cer_subject c))}"
| "subject_locks sha j (Timed c now) = {SubjectKey (lock_key sha (cer_application c) (cer_subject c))}"
| "subject_locks sha j (Verified c now seen v) = {SubjectKey (lock_key sha (cer_application c) (cer_subject c))}"
| "subject_locks sha j (Applied c now seen v) = {SubjectKey (lock_key sha (cer_application c) (cer_subject c))}"
| "subject_locks sha j (Stated c now seen v) = {SubjectKey (lock_key sha (cer_application c) (cer_subject c))}"
| "subject_locks sha j (Linked c now seen v) = {SubjectKey (lock_key sha (cer_application c) (cer_subject c))}"
| "subject_locks sha (DeleteJob a s i) SubjectHeld = {SubjectKey (lock_key sha a s)}"
| "subject_locks sha (DeleteJob a s i) Dropped = {SubjectKey (lock_key sha a s)}"
| "subject_locks sha j p = {}"

definition needs :: "(bytes \<Rightarrow> bytes) \<Rightarrow> job \<Rightarrow> phase \<Rightarrow> lock set" where
  "needs sha j p = subject_locks sha j p \<union> (\<Union>f \<in> knows j p. protects sha f)
     \<union> (\<Union>w \<in> set (made j p). touches sha w)"

definition tx_inv :: "(bytes \<Rightarrow> bytes) \<Rightarrow> db \<Rightarrow> tx \<Rightarrow> bool" where
  "tx_inv sha d t \<longleftrightarrow>
     job_ok (tx_job t) \<and> fits (tx_job t) (tx_phase t) \<and> tx_writes t = made (tx_job t) (tx_phase t)
     \<and> needs sha (tx_job t) (tx_phase t) \<subseteq> tx_held t
     \<and> list_all write_ok (tx_writes t)
     \<and> (\<forall>f \<in> knows (tx_job t) (tx_phase t). fact_holds f d)"

definition sys_inv :: "(bytes \<Rightarrow> bytes) \<Rightarrow> system \<Rightarrow> bool" where
  "sys_inv sha S \<longleftrightarrow> wf_db (committed S)
     \<and> (\<forall>n t. opened S n = Some t \<longrightarrow> tx_inv sha (committed S) t)
     \<and> (\<forall>m n t u. opened S m = Some t \<longrightarrow> opened S n = Some u \<longrightarrow> m \<noteq> n \<longrightarrow> tx_held t \<inter> tx_held u = {})"

subsection \<open>A statement keeps the invariant\<close>

lemma insert_ceremony_fact:
  "kind_valid k \<Longrightarrow> insert_ceremony k c d = Inr ((), d') \<Longrightarrow>
    fact_holds (FreshCeremony k c) d \<and> d' = apply_write (AddCeremony k c) d"
  by (auto dest: insert_ceremony_InrD simp: fresh_ceremony_iff)

lemma insert_credential_fact:
  "insert_credential c d = Inr (1, d') \<Longrightarrow>
    fact_holds (FreshCredential c) d \<and> d' = apply_write (AddCredential c) d"
  by (auto simp: insert_credential_def fresh_credential_iff split: if_splits)

lemma update_credential_fact:
  assumes "update_credential (cred_sign_count cr) (cred_backup_state cr) (cred_webauthn cr) now (cred_id cr)
    (cer_application c) (cer_subject c) (cer_rpid c) d = Inr (n, d')"
  shows "d' = apply_write (TouchCredential cr now c) d" "n = 1 \<Longrightarrow> fact_holds (Touchable cr now c) d"
proof -
  show d': "d' = apply_write (TouchCredential cr now c) d"
    using assms by (auto simp: update_credential_def Let_def scoped_credential_def touched_def split: if_splits)
  show "n = 1 \<Longrightarrow> fact_holds (Touchable cr now c) d"
    using assms d' by (simp add: fact_holds.simps(5))
qed

lemma update_credential_none:
  assumes "update_credential sc bs wa now i a s rp d = Inr (0, d')"
  shows "d' = d"
proof -
  have "map (\<lambda>c. if hit c then f c else c) xs = xs" if "filter hit xs = []" for hit f and xs :: "credential list"
    using that by (auto simp: filter_empty_conv intro: map_idI)
  with assms show ?thesis by (auto simp: update_credential_def Let_def split: if_splits)
qed

lemma delete_credential_owned:
  "delete_credential i a s d = Inr (length (filter (owned i a s) (db_credential d)),
    d\<lparr>db_credential := filter (\<lambda>x. \<not> owned i a s x) (db_credential d)\<rparr>)"
  by (simp add: delete_credential_def owned_def [abs_def])

lemma delete_credential_fact:
  "delete_credential i a s d = Inr (1, d') \<Longrightarrow>
    fact_holds (Deletable i a s) d \<and> d' = apply_write (DropCredential i a s) d"
  by (auto simp: delete_credential_owned deletable_iff)

lemma insert_history_fact:
  "insert_history e d = Inr ((), d') \<Longrightarrow> fact_holds (FreshEvent (ev_id e)) d \<and> d' = apply_write (AddEvent e) d"
  by (auto simp: insert_history_def split: if_splits)

lemmas statement_facts = insert_ceremony_fact insert_credential_fact update_credential_fact
  delete_credential_fact insert_history_fact

lemma advance_writes: "advance sha j p d L ws p' d' \<Longrightarrow> d' = apply_writes ws d"
  by (induction rule: advance.induct)
    (auto dest!: statement_facts update_credential_none
      simp: update_state_def update_auth_credential_def insert_credential_def delete_credential_owned
      split: if_splits)

lemma final_state_ok [simp]: "final_state k out \<in> set ceremony_states"
  by (auto simp: final_state_def ceremony_states_def names split: sum.splits)

lemma resolvedI:
  "authorize c = None \<Longrightarrow> cer_state c = pending \<Longrightarrow> verdict k verify c now seen v \<Longrightarrow> settled k now v out \<Longrightarrow>
    resolved k authorize verify c now seen out"
  by (auto simp: resolved_def)

lemma history_of_write [simp]:
  "db_history (apply_write (AddCeremony k c) d) = db_history d"
  "db_history (apply_write (SetState k st i) d) = db_history d"
  by (simp_all add: set_table_def)

lemma history_of_parts [simp]:
  "db_history (apply_writes (credential_write k c now out) d) = db_history d"
  "db_history (apply_writes (link_write k c out) d) = db_history d"
  by (cases out; simp)+

lemma made_no_event: "\<forall>p' e. p \<noteq> Recorded p' e \<Longrightarrow> db_history (apply_writes (made j p) d) = db_history d"
  by (cases j; cases p) auto

lemma link_write_none [simp]: "k \<noteq> Authentication \<or> isl out \<Longrightarrow> link_write k c out = []"
  by (cases out) auto

lemma registered_row_simps [simp]:
  "cred_application (registered_row c now cr) = cer_application c"
  "cred_subject (registered_row c now cr) = cer_subject c"
  by (simp_all add: registered_row_def)

text \<open>Each statement, from a transaction that keeps the invariant: the facts it finds out are added.\<close>

lemma advance_fits:
  "advance sha j p d L ws p' d' \<Longrightarrow> job_ok j \<Longrightarrow> fits j p \<Longrightarrow> fits j p'"
  by (induction rule: advance.induct)
    (auto simp: ceremony_check_def verdict_def split: if_splits intro: resolvedI)

lemma advance_made:
  "advance sha j p d L ws p' d' \<Longrightarrow> made j p' = made j p @ ws"
  by (induction rule: advance.induct) (auto simp: isl_def)

lemma advance_locks:
  "advance sha j p d L ws p' d' \<Longrightarrow> needs sha j p' \<subseteq> needs sha j p \<union> L"
  by (induction rule: advance.induct) (auto simp: needs_def seen_facts_def)

lemma advance_write_ok:
  "advance sha j p d L ws p' d' \<Longrightarrow> \<forall>f \<in> knows j p. fact_holds f d0 \<Longrightarrow> list_all write_ok ws"
  by (induction rule: advance.induct) auto

text \<open>Reads and credential changes come before the first write, so what they see is committed.\<close>

lemma advance_found:
  assumes "advance sha j p d L ws p' d'" and "d = apply_writes (made j p) d0"
    and "\<forall>f \<in> knows j p. fact_holds f d0" and "f \<in> knows j p'"
  shows "fact_holds f d0"
  using assms
proof (induction rule: advance.induct)
  case (insert_start_event k c e d d')
  then show ?case using made_no_event [of Inserted "StartJob k c" d0]
    by (auto dest!: insert_history_fact)
next
  case (insert_finish_event k c out e d d' h authorize verify now seen)
  then show ?case
    using made_no_event [of "Linked c now seen out" "FinishJob k h authorize verify" d0]
    by (auto dest!: insert_history_fact)
next
  case (insert_delete_event a s i e d d')
  then show ?case using made_no_event [of Dropped "DeleteJob a s i" d0]
    by (auto dest!: insert_history_fact)
next
  case (touch_credential k credential now cr c d d' h authorize verify seen)
  then show ?case using update_credential_fact(2) by (auto simp del: One_nat_def)
next
  case (add_credential k row c now cr d d' h authorize verify seen)
  then show ?case using insert_credential_fact by (auto simp del: One_nat_def)
next
  case (drop_credential i a s d d')
  then show ?case using delete_credential_fact by (auto simp del: One_nat_def)
next
  case (insert_row k c d d')
  then show ?case using insert_ceremony_fact by auto
qed (auto simp: seen_facts_def)

lemma advance_inv:
  assumes inv: "tx_inv sha d t"
    and step: "advance sha (tx_job t) (tx_phase t) (apply_writes (tx_writes t) d) L ws p d'"
  shows "tx_inv sha d (t\<lparr>tx_phase := p, tx_writes := tx_writes t @ ws, tx_held := tx_held t \<union> L\<rparr>)"
proof -
  from inv have t: "job_ok (tx_job t)" "fits (tx_job t) (tx_phase t)"
    "tx_writes t = made (tx_job t) (tx_phase t)" "needs sha (tx_job t) (tx_phase t) \<subseteq> tx_held t"
    "list_all write_ok (tx_writes t)" "\<forall>f \<in> knows (tx_job t) (tx_phase t). fact_holds f d"
    unfolding tx_inv_def by blast+
  have "fact_holds f d" if "f \<in> knows (tx_job t) p" for f
    by (rule advance_found [OF step _ t(6) that]) (simp add: t(3))
  moreover have "needs sha (tx_job t) p \<subseteq> tx_held t \<union> L"
    using advance_locks [OF step] t(4) by blast
  ultimately show ?thesis
    using t advance_fits [OF step] advance_made [OF step] advance_write_ok [OF step]
    by (simp add: tx_inv_def)
qed

subsection \<open>Commits\<close>

text \<open>A transaction that is ready to commit makes the complete transition of its job.\<close>

fun completes :: "job \<Rightarrow> phase \<Rightarrow> db \<Rightarrow> db \<Rightarrow> bool" where
  "completes (StartJob k c) p d d' \<longleftrightarrow> started k c d d'"
| "completes (FinishJob k h authorize verify) p d d' \<longleftrightarrow>
     (case p of Recorded (Linked c now seen out) e \<Rightarrow>
        finished k h c now out d d' \<and> resolved k authorize verify c now seen out
        \<and> (\<forall>cs. seen = Some cs \<longrightarrow> cs = select_credentials (cer_application c) (cer_subject c) d)
      | _ \<Rightarrow> False)"
| "completes (DeleteJob a s i) p d d' \<longleftrightarrow> deleted a s i d d'"

lemma update_state_write:
  "st \<in> set ceremony_states \<Longrightarrow> update_state k st i d = Inr ((), apply_write (SetState k st i) d)"
  by (simp add: update_state_def)

lemma insert_history_write:
  "fact_holds (FreshEvent (ev_id e)) d \<Longrightarrow> insert_history e d = Inr ((), apply_write (AddEvent e) d)"
  by (simp add: insert_history_def)

lemma resolved_success:
  "resolved k authorize verify c now seen (Inr cr) \<Longrightarrow> cer_state c = pending \<and> now < cer_expires_at c"
  by (auto simp: resolved_def verdict_def elim: settled.elims split: if_splits)

lemma resolved_failure:
  assumes "resolved k authorize verify c now seen (Inl er)"
  shows "now < cer_expires_at c \<and> (error_is er (kind_invalid k) \<or> k = Registration \<and> er = Code Conflict)
    \<or> \<not> now < cer_expires_at c \<and> er = Code (kind_expired k)"
proof -
  from assms obtain v where v: "verdict k verify c now seen v" "settled k now v (Inl er)"
    by (auto simp: resolved_def)
  then show ?thesis
    by (cases v) (auto simp: verdict_def error_is_as_code split: if_splits)
qed

lemma fresh_event_kept:
  "fact_holds (FreshEvent i) d \<Longrightarrow> db_history d' = db_history d \<Longrightarrow> fact_holds (FreshEvent i) d'"
  by simp

lemma commit_finish:
  assumes facts: "fact_holds (Chosen k h c) d" "\<forall>f \<in> credential_facts k c now out. fact_holds f d"
      "fact_holds (FreshEvent (ev_id e)) d"
    and res: "resolved k authorize verify c now seen out" and ev: "finish_event k c (final_state k out) out e"
  shows "finished k h c now out d
    (apply_writes (made (FinishJob k h authorize verify) (Recorded (Linked c now seen out) e)) d)"
    (is "finished k h c now out d (apply_writes ?ws d)")
proof -
  let ?body = "made (FinishJob k h authorize verify) (Linked c now seen out)"
  have pend: "cer_state c = pending" using res by (simp add: resolved_def)
  have sel: "kind_valid k" "select_by_token k h d = Some c" using facts(1) by auto
  have "db_history (apply_writes ?body d) = db_history d" by (rule made_no_event) simp
  note hist = insert_history_write [OF fresh_event_kept [OF facts(3) this]]
  define d' where "d' = apply_writes ?ws d"
  have "finished k h c now out d d'"
  proof (cases out)
    case (Inl er)
    define d1 where "d1 = apply_write (SetState k (final_state k out) (cer_id c)) d"
    have upd: "update_state k (final_state k out) (cer_id c) d = Inr ((), d1)"
      unfolding d1_def by (rule update_state_write) simp
    have ins: "insert_history e d1 = Inr ((), d')" using hist Inl by (simp add: d1_def d'_def)
    from resolved_failure res Inl consider
        "now < cer_expires_at c" "error_is er (kind_invalid k) \<or> k = Registration \<and> er = Code Conflict"
      | "\<not> now < cer_expires_at c" "er = Code (kind_expired k)" by blast
    then show ?thesis
    proof cases
      case 1
      then have "final_state k out = failed" using final_state_failed Inl by simp
      with upd ins ev sel pend 1 show ?thesis unfolding Inl by (intro finished.rejected) auto
    next
      case 2
      then have "final_state k out = expired" using Inl by (simp add: final_state_def)
      with upd ins ev sel pend 2 show ?thesis unfolding Inl by (auto intro: finished.expired)
    qed
  next
    case (Inr cr)
    then have st: "final_state k out = succeeded" by (simp add: final_state_def)
    note live = resolved_success [OF res [unfolded Inr]]
    from sel(1) consider "k = Registration" | "k = Authentication" "k \<noteq> Registration"
      by (auto simp: kind_valid_def names)
    then show ?thesis
    proof cases
      case 1
      define d1 where "d1 = apply_write (AddCredential (registered_row c now cr)) d"
      define d2 where "d2 = apply_write (SetState Registration succeeded (cer_id c)) d1"
      have "insert_credential (registered_row c now cr) d = Inr (1, d1)"
        using facts(2) Inr 1 by (simp add: fact_holds.simps(4) d1_def)
      moreover have "update_state Registration succeeded (cer_id c) d1 = Inr ((), d2)"
        unfolding d2_def by (rule update_state_write) (use final_state_ok [of k out] st in simp)
      moreover have "insert_history e d2 = Inr ((), d')"
        using hist Inr 1 by (simp add: final_state_def d1_def d2_def d'_def names)
      ultimately show ?thesis using sel live ev st 1 Inr by (auto intro: finished.registered)
    next
      case 2
      define d1 where "d1 = apply_write (TouchCredential cr now c) d"
      define d2 where "d2 = apply_write (SetState Authentication succeeded (cer_id c)) d1"
      define d3 where "d3 = apply_write (SetLink (cred_id cr) (cer_id c)) d2"
      have "update_credential (cred_sign_count cr) (cred_backup_state cr) (cred_webauthn cr) now (cred_id cr)
          (cer_application c) (cer_subject c) (cer_rpid c) d = Inr (1, d1)"
        using facts(2) Inr 2 by (simp add: fact_holds.simps(5) d1_def)
      moreover have "update_state Authentication succeeded (cer_id c) d1 = Inr ((), d2)"
        unfolding d2_def by (rule update_state_write) (use final_state_ok [of k out] st in simp)
      moreover have "update_auth_credential (cred_id cr) (cer_id c) d2 = Inr ((), d3)"
        by (simp add: update_auth_credential_def d3_def)
      moreover have "insert_history e d3 = Inr ((), d')"
        using hist Inr 2 by (simp add: final_state_def d1_def d2_def d3_def d'_def)
      ultimately show ?thesis using sel live ev st 2 Inr by (auto intro: finished.authenticated)
    qed
  qed
  then show ?thesis by (simp only: d'_def)
qed

lemma commit_completes:
  assumes inv: "tx_inv sha d t" and ready: "tx_phase t = Recorded p e"
  shows "completes (tx_job t) (tx_phase t) d (apply_writes (tx_writes t) d)"
proof -
  from inv have t: "fits (tx_job t) (tx_phase t)" "tx_writes t = made (tx_job t) (tx_phase t)"
    "\<forall>f \<in> knows (tx_job t) (tx_phase t). fact_holds f d"
    unfolding tx_inv_def by blast+
  show ?thesis
  proof (cases "tx_job t")
    case (StartJob k c)
    with t(1) ready have p: "p = Inserted" "start_event k c e" by (cases p; simp)+
    with StartJob t(3) ready have "fact_holds (FreshCeremony k c) d" "fact_holds (FreshEvent (ev_id e)) d"
      by auto
    moreover from this(2) have "insert_history e (apply_write (AddCeremony k c) d)
        = Inr ((), apply_writes (tx_writes t) d)"
      using t(2) StartJob ready p(1) insert_history_write [of e "apply_write (AddCeremony k c) d"]
      by (simp del: apply_write.simps)
    ultimately show ?thesis using StartJob p by (auto simp: fact_holds.simps(3) intro: started.started)
  next
    case (FinishJob k h authorize verify)
    with t(1) ready obtain c now seen out where p: "p = Linked c now seen out"
      "resolved k authorize verify c now seen out" "finish_event k c (final_state k out) out e"
      by (cases p) auto
    with FinishJob t(3) ready have f: "fact_holds (Chosen k h c) d" "\<forall>f \<in> credential_facts k c now out. fact_holds f d"
      "fact_holds (FreshEvent (ev_id e)) d" "\<forall>f \<in> seen_facts c seen. fact_holds f d"
      by auto
    have "finished k h c now out d (apply_writes (tx_writes t) d)"
      using commit_finish [OF f(1-3) p(2,3)] t(2) FinishJob ready p(1) by simp
    with FinishJob ready p f(4) show ?thesis by (auto simp: seen_facts_def)
  next
    case (DeleteJob a s i)
    with t(1) ready have p: "p = Dropped" "delete_event a s i e" by (cases p; simp)+
    with DeleteJob t(3) ready have "fact_holds (Deletable i a s) d" "fact_holds (FreshEvent (ev_id e)) d"
      by auto
    moreover from this(2) have "insert_history e (apply_write (DropCredential i a s) d)
        = Inr ((), apply_writes (tx_writes t) d)"
      using t(2) DeleteJob ready p(1) insert_history_write [of e "apply_write (DropCredential i a s) d"]
      by simp
    ultimately show ?thesis using DeleteJob p by (auto simp: fact_holds.simps(6) intro: deleted.deleted)
  qed
qed

lemma completes_step: "completes j p d d' \<Longrightarrow> job_ok j \<Longrightarrow> db_step d d'"
  by (cases j) (auto intro: db_step.intros split: phase.splits)

subsection \<open>The invariant of the system\<close>

lemma tx_inv_begin: "job_ok j \<Longrightarrow> tx_inv sha d \<lparr>tx_job = j, tx_phase = Begun, tx_writes = [], tx_held = {}\<rparr>"
  by (cases j) (auto simp: tx_inv_def needs_def)

text \<open>Another transaction's commit leaves alone what a transaction knows: their locks are disjoint.\<close>

lemma tx_inv_other_commit:
  assumes t: "tx_inv sha d t" and u: "tx_inv sha d u" and apart: "tx_held t \<inter> tx_held u = {}"
  shows "tx_inv sha (apply_writes (tx_writes t) d) u"
proof -
  have "fact_holds f (apply_writes (tx_writes t) d)" if f: "f \<in> knows (tx_job u) (tx_phase u)" for f
  proof (rule fact_stable_writes)
    show "fact_holds f d" using u f unfolding tx_inv_def by blast
    have "protects sha f \<subseteq> tx_held u" using u f unfolding tx_inv_def needs_def by blast
    moreover have "touches sha w \<subseteq> tx_held t" "write_ok w" if "w \<in> set (tx_writes t)" for w
      using t that unfolding tx_inv_def needs_def by (auto simp: list_all_iff)
    ultimately show "list_all (\<lambda>w. touches sha w \<inter> protects sha f = {} \<and> write_ok w) (tx_writes t)"
      using apart by (fastforce simp: list_all_iff)
  qed
  with u show ?thesis unfolding tx_inv_def by blast
qed

lemma sys_inv_idle: "wf_db d \<Longrightarrow> sys_inv sha (idle_system d)"
  by (simp add: sys_inv_def idle_system_def)

lemma sys_commit:
  assumes inv: "sys_inv sha S" and t: "opened S n = Some t" "tx_phase t = Recorded p e"
  shows "completes (tx_job t) (tx_phase t) (committed S) (sees S t)" "db_step (committed S) (sees S t)"
proof -
  from inv t have i: "tx_inv sha (committed S) t" unfolding sys_inv_def by blast
  from commit_completes [OF i t(2)] show c: "completes (tx_job t) (tx_phase t) (committed S) (sees S t)"
    by (simp add: sees_def)
  show "db_step (committed S) (sees S t)"
    by (rule completes_step [OF c]) (use i in \<open>simp add: tx_inv_def\<close>)
qed

lemma sys_step_inv: "sys_step sha S S' \<Longrightarrow> sys_inv sha S \<Longrightarrow> sys_inv sha S'"
proof (induction rule: sys_step.induct)
  case (begins S n j)
  then show ?case using tx_inv_begin [of j sha "committed S"] by (auto simp: sys_inv_def)
next
  case (advances S n t L ws p d')
  have "tx_inv sha (committed S) t" using advances.hyps(1) advances.prems unfolding sys_inv_def by blast
  from advance_inv [OF this advances.hyps(2) [unfolded sees_def]] advances.hyps(1,3) advances.prems
  show ?case by (fastforce simp: sys_inv_def free_of_def)
next
  case (commits S n t p e)
  have "tx_inv sha (sees S t) u" if "opened S m = Some u" "m \<noteq> n" for m u
    unfolding sees_def
    by (rule tx_inv_other_commit) (use that commits in \<open>auto simp: sys_inv_def\<close>)
  with commits db_step_wf [OF sys_commit(2) [OF commits.prems commits.hyps]] show ?case
    by (auto simp: sys_inv_def)
next
  case (aborts S n t)
  then show ?case by (auto simp: sys_inv_def)
qed

lemma sys_steps_inv: "(sys_step sha)\<^sup>*\<^sup>* S S' \<Longrightarrow> sys_inv sha S \<Longrightarrow> sys_inv sha S'"
  by (induction rule: rtranclp_induct) (auto dest: sys_step_inv)

lemma sys_step_db: "sys_step sha S S' \<Longrightarrow> sys_inv sha S \<Longrightarrow> db_step\<^sup>=\<^sup>= (committed S) (committed S')"
  by (induction rule: sys_step.induct) (auto dest: sys_commit(2))

lemma sys_steps_db:
  "(sys_step sha)\<^sup>*\<^sup>* S S' \<Longrightarrow> sys_inv sha S \<Longrightarrow> db_step\<^sup>*\<^sup>* (committed S) (committed S')"
proof (induction rule: rtranclp_induct)
  case (step S1 S2)
  from sys_step_db [OF step.hyps(2) sys_steps_inv [OF step.hyps(1) step.prems]] step.IH [OF step.prems]
  show ?case by auto
qed simp

subsection \<open>The methods of \<open>Postgres\<close> take these steps\<close>

text \<open>
  A transaction that runs alone: \<open>moves\<close> is one statement, and each successful body of \<open>Postgres\<close> is
  a sequence of them that ends ready to commit the same tables.
\<close>

inductive moves :: "(bytes \<Rightarrow> bytes) \<Rightarrow> job \<Rightarrow> phase \<times> db \<Rightarrow> phase \<times> db \<Rightarrow> bool" for sha j where
  moves: "advance sha j p d L ws p' d' \<Longrightarrow> moves sha j (p, d) (p', d')"

definition outcomes :: "(ceremony \<Rightarrow> credential list \<Rightarrow> credential eff) \<Rightarrow> ceremony \<Rightarrow> credential list
    \<Rightarrow> err + credential \<Rightarrow> bool"
where
  "outcomes verify c cs v \<longleftrightarrow> (\<exists>w w'. verify c cs w = (v, w'))"

lemma then_moves: "moves sha j y z \<Longrightarrow> (moves sha j)\<^sup>*\<^sup>* x y \<Longrightarrow> (moves sha j)\<^sup>*\<^sup>* x z"
  by (rule rtranclp.rtrancl_into_rtrancl)

lemma recorded_moves:
  assumes "finish_record E k k c out w = (Inr (), w')" and k: "kind_valid k"
  obtains e where "(moves sha (FinishJob k h auth ver))\<^sup>*\<^sup>* (Applied c now seen out, store w)
    (Recorded (Linked c now seen out) e, store w')"
proof (cases out)
  case (Inl er)
  with assms(1) obtain d1 e where s: "update_state k (final_state k out) (cer_id c) (store w) = Inr ((), d1)"
    "insert_history e d1 = Inr ((), store w')" "finish_event k c (final_state k out) out e"
    by (blast elim: finish_record_rejected)
  have "(moves sha (FinishJob k h auth ver))\<^sup>*\<^sup>* (Applied c now seen out, store w)
    (Recorded (Linked c now seen out) e, store w')"
    by (rule then_moves [OF moves [OF insert_finish_event [OF s(3,2)]]],
        rule then_moves [OF moves [OF no_link]], simp add: Inl,
        rule then_moves [OF moves [OF set_state [OF refl s(1)]]], rule rtranclp.rtrancl_refl)
  then show thesis by (rule that)
next
  case (Inr cr)
  then have st: "final_state k out = succeeded" by (simp add: final_state_def)
  show thesis
  proof (cases "k = Authentication")
    case True
    with assms(1) Inr st obtain d1 d2 e where s:
      "update_state k (final_state k out) (cer_id c) (store w) = Inr ((), d1)"
      "update_auth_credential (cred_id cr) (cer_id c) d1 = Inr ((), d2)"
      "insert_history e d2 = Inr ((), store w')" "finish_event k c (final_state k out) out e"
      by (metis finish_record_authenticated)
    have "(moves sha (FinishJob k h auth ver))\<^sup>*\<^sup>* (Applied c now seen out, store w)
      (Recorded (Linked c now seen out) e, store w')"
      by (rule then_moves [OF moves [OF insert_finish_event [OF s(4,3)]]], unfold Inr,
          rule then_moves [OF moves [OF set_link [OF True s(2)]]],
          rule then_moves [OF moves [OF set_state [OF refl s(1) [unfolded Inr]]]], rule rtranclp.rtrancl_refl)
    then show thesis by (rule that)
  next
    case False
    then have "k = Registration" using k by (simp add: kind_valid_def)
    with assms(1) Inr st obtain d1 e where s:
      "update_state k (final_state k out) (cer_id c) (store w) = Inr ((), d1)"
      "insert_history e d1 = Inr ((), store w')" "finish_event k c (final_state k out) out e"
      by (metis finish_record_registered)
    have "(moves sha (FinishJob k h auth ver))\<^sup>*\<^sup>* (Applied c now seen out, store w)
      (Recorded (Linked c now seen out) e, store w')"
      by (rule then_moves [OF moves [OF insert_finish_event [OF s(3,2)]]],
          rule then_moves [OF moves [OF no_link]], simp add: False,
          rule then_moves [OF moves [OF set_state [OF refl s(1)]]], rule rtranclp.rtrancl_refl)
    then show thesis by (rule that)
  qed
qed

lemma verified_moves:
  assumes v: "finish_verify E k c now ver w = (Inr v, w')" and c: "cer_state c = pending"
    and ver: "\<And>c cs. keeps_store (ver c cs)"
  obtains seen where "moves sha (FinishJob k h auth (outcomes ver)) (Timed c now, store w) (Verified c now seen v, store w)"
proof -
  note vc = finish_verify_Inr [OF v c ver]
  let ?cs = "select_credentials (cer_application c) (cer_subject c) (store w)"
  show thesis
  proof (cases "now < cer_expires_at c")
    case False
    with vc have "v = Inl (Code (kind_expired k))" by simp
    moreover have "ceremony_check c k now = Some (Code (kind_expired k))"
      using False c by (simp add: ceremony_check_def)
    ultimately show thesis by (intro that [of None]) (auto intro!: moves check_fails)
  next
    case True
    then have none: "ceremony_check c k now = None" using c by (simp add: ceremony_check_def)
    from v none obtain w1 r w2 where r: "ver c ?cs w1 = (r, w2)"
      "(case r of Inl e \<Rightarrow> if \<not> error_is e (kind_invalid k) then fail e else ret (Inl e)
        | Inr cr \<Rightarrow> ret (Inr cr)) w2 = (Inr v, w')"
      by (auto simp: finish_verify_def success read_credentials_def query_def)
    then have "v = r" by (auto simp: success split: sum.splits if_splits)
    with r(1) have "outcomes ver c ?cs v" by (auto simp: outcomes_def)
    from vc True have "error_is er (kind_invalid k)" if "v = Inl er" for er using that by auto
    with none \<open>outcomes ver c ?cs v\<close>
    have "advance sha (FinishJob k h auth (outcomes ver)) (Timed c now) (store w) {} []
        (Verified c now (Some ?cs) v) (store w)"
      by (intro read_and_verify) auto
    then show thesis by (intro that [of "Some ?cs"] moves)
  qed
qed

lemma applied_moves:
  assumes a: "finish_apply E k c now v w = (Inr out, w')" and wf: "wf_db (store w)" and k: "kind_valid k"
  shows "moves sha (FinishJob k h auth ver) (Verified c now seen v, store w) (Applied c now seen out, store w')"
  using a
proof (cases v)
  case (Inl er)
  with a have "out = Inl er" "w' = w" by (auto simp: finish_apply_def success)
  with Inl show ?thesis by (auto intro: moves keep_error)
next
  case (Inr cr)
  show ?thesis
  proof (cases "k = Registration")
    case True
    with a Inr obtain n where
      n: "insert_credential (registered_row c now (stamped k now cr)) (store w) = Inr (n, store w')"
      and out: "out = (if n \<noteq> 1 then Inl (Code Conflict) else Inr (stamped k now cr))"
      by (auto simp: finish_apply_def success stamped_def Let_def)
    from insert_credential_InrD [OF n] consider "n = 1" | "n = 0" by auto
    then show ?thesis
    proof cases
      case 1
      with n out show ?thesis unfolding Inr by (auto intro!: moves add_credential True)
    next
      case 2
      with n out show ?thesis unfolding Inr by (auto intro!: moves add_duplicate True)
    qed
  next
    case False
    then have auth: "k = Authentication" using k by (simp add: kind_valid_def)
    let ?cr = "stamped k now cr"
    from False a Inr obtain n where
      n: "update_credential (cred_sign_count ?cr) (cred_backup_state ?cr) (cred_webauthn ?cr) now
         (cred_id ?cr) (cer_application c) (cer_subject c) (cer_rpid c) (store w) = Inr (n, store w')"
      and out: "out = (if n \<noteq> 1 then Inl (Code (kind_invalid k)) else Inr ?cr)"
      by (auto simp: finish_apply_def success stamped_def Let_def)
    from update_credential_count [OF n wf] consider "n = 1" | "n = 0" by linarith
    then show ?thesis
    proof cases
      case 1
      with n out show ?thesis unfolding Inr by (auto intro!: moves touch_credential auth)
    next
      case 2
      with n out show ?thesis unfolding Inr by (auto intro!: moves touch_nothing auth)
    qed
  qed
qed

text \<open>The bodies of the three transactions, run alone.\<close>

lemma finish_body_moves:
  assumes body: "finish_body E k k h auth ver w = (Inr out, w')" and k: "kind_valid k"
    and wf: "wf_db (store w)" and ver: "\<And>c cs. keeps_store (ver c cs)"
  obtains c now seen e where
    "(moves sha (FinishJob k h auth (outcomes ver)))\<^sup>*\<^sup>* (Begun, store w) (Recorded (Linked c now seen out) e, store w')"
proof -
  let ?m = "moves sha (FinishJob k h auth (outcomes ver))"
  from body obtain c now v w1 w2 w3 where c: "select_by_token k h (store w) = Some c" "auth c = None"
    "cer_state c = pending" and w1: "store w1 = store w"
    and v: "finish_verify E k c now ver w1 = (Inr v, w2)"
    and a: "finish_apply E k c now v w2 = (Inr out, w3)"
    and r: "finish_record E k k c out w3 = (Inr (), w')"
    by (rule finish_body_steps)
  from finish_verify_Inr [OF v c(3) ver] have w2: "store w2 = store w1" by blast
  obtain seen where ver_step: "?m (Timed c now, store w1) (Verified c now seen v, store w1)"
    using verified_moves [OF v c(3) ver] by blast
  obtain e where rec: "?m\<^sup>*\<^sup>* (Applied c now seen out, store w3) (Recorded (Linked c now seen out) e, store w')"
    using recorded_moves [OF r k] by blast
  have "?m (Begun, store w) (Found c, store w)"
    by (rule moves, rule select_for_update) (use k c in auto)
  moreover have "?m (Found c, store w) (Serialized c, store w)" by (rule moves [OF lock_ceremony_subject])
  moreover have "?m (Serialized c, store w) (Timed c now, store w)" by (rule moves [OF select_clock])
  moreover have "?m (Verified c now seen v, store w) (Applied c now seen out, store w3)"
    using applied_moves [OF a _ k] wf w1 w2 by simp
  ultimately have "?m\<^sup>*\<^sup>* (Begun, store w) (Recorded (Linked c now seen out) e, store w')"
    using ver_step rec w1 by (simp add: converse_rtranclp_into_rtranclp)
  then show thesis by (rule that)
qed

subsection \<open>A run alone is a run of the system\<close>

lemma alone_advances:
  assumes "(moves sha j)\<^sup>*\<^sup>* (Begun, d) (p, d')" and "job_ok j"
  shows "\<exists>t. (sys_step sha)\<^sup>*\<^sup>* (idle_system d) \<lparr>committed = d, opened = [n \<mapsto> t]\<rparr>
    \<and> tx_job t = j \<and> tx_phase t = p \<and> apply_writes (tx_writes t) d = d'"
  using assms(1)
proof (induction "(p, d')" arbitrary: p d' rule: rtranclp_induct)
  case base
  let ?t = "\<lparr>tx_job = j, tx_phase = Begun, tx_writes = [], tx_held = {}\<rparr>"
  have "sys_step sha (idle_system d) \<lparr>committed = d, opened = [n \<mapsto> ?t]\<rparr>"
    using begins [of "idle_system d" n j] assms(2) by (simp add: idle_system_def)
  then show ?case by (intro exI [of _ ?t]) auto
next
  case (step y)
  obtain q e where y: "y = (q, e)" by (cases y)
  with step.hyps(3) obtain t where t: "(sys_step sha)\<^sup>*\<^sup>* (idle_system d) \<lparr>committed = d, opened = [n \<mapsto> t]\<rparr>"
    "tx_job t = j" "tx_phase t = q" "apply_writes (tx_writes t) d = e" by blast
  from step.hyps(2) y obtain L ws where adv: "advance sha j q e L ws p d'" by (auto elim: moves.cases)
  let ?t = "t\<lparr>tx_phase := p, tx_writes := tx_writes t @ ws, tx_held := tx_held t \<union> L\<rparr>"
  have "sys_step sha \<lparr>committed = d, opened = [n \<mapsto> t]\<rparr> \<lparr>committed = d, opened = [n \<mapsto> ?t]\<rparr>"
    using advances [of "\<lparr>committed = d, opened = [n \<mapsto> t]\<rparr>" n t sha L ws p d'] adv t
    by (simp add: sees_def free_of_def)
  with t(1) have "(sys_step sha)\<^sup>*\<^sup>* (idle_system d) \<lparr>committed = d, opened = [n \<mapsto> ?t]\<rparr>"
    by (rule rtranclp.rtrancl_into_rtrancl)
  with t adv show ?case by (intro exI [of _ ?t]) (auto dest: advance_writes)
qed

lemma alone_commits:
  assumes "(moves sha j)\<^sup>*\<^sup>* (Begun, d) (Recorded p e, d')" and "job_ok j"
  shows "(sys_step sha)\<^sup>*\<^sup>* (idle_system d) (idle_system d')"
proof -
  from alone_advances [OF assms, of 0] obtain t where
    t: "(sys_step sha)\<^sup>*\<^sup>* (idle_system d) \<lparr>committed = d, opened = [0 \<mapsto> t]\<rparr>"
    "tx_phase t = Recorded p e" "apply_writes (tx_writes t) d = d'" by blast
  have "sys_step sha \<lparr>committed = d, opened = [0 \<mapsto> t]\<rparr> (idle_system d')"
    using commits [of "\<lparr>committed = d, opened = [0 \<mapsto> t]\<rparr>" 0 t p e sha] t by (simp add: sees_def idle_system_def)
  with t(1) show ?thesis by (rule rtranclp.rtrancl_into_rtrancl)
qed

text \<open>Whatever one method of the repository does to the database, the system can do.\<close>

lemma started_moves:
  assumes "started k c d d'"
  shows "\<exists>e. (moves sha (StartJob k c))\<^sup>*\<^sup>* (Begun, d) (Recorded Inserted e, d')"
  using assms
proof (induction rule: started.induct)
  case (started k c d d1 e d')
  have "moves sha (StartJob k c) (Begun, d) (Inserted, d1)" by (rule moves, rule insert_row) (use started in auto)
  moreover have "moves sha (StartJob k c) (Inserted, d1) (Recorded Inserted e, d')"
    by (rule moves, rule insert_start_event) (use started in auto)
  ultimately show ?case by (blast intro: rtranclp.rtrancl_into_rtrancl)
qed

lemma deleted_moves:
  assumes "deleted a s i d d'"
  shows "\<exists>e. (moves sha (DeleteJob a s i))\<^sup>*\<^sup>* (Begun, d) (Recorded Dropped e, d')"
  using assms
proof (induction rule: deleted.induct)
  case (deleted i a s d d1 e d')
  have "moves sha (DeleteJob a s i) (Begun, d) (SubjectHeld, d)" by (rule moves [OF lock_subject_first])
  moreover have "moves sha (DeleteJob a s i) (SubjectHeld, d) (Dropped, d1)"
    by (rule moves, rule drop_credential) (use deleted in auto)
  moreover have "moves sha (DeleteJob a s i) (Dropped, d1) (Recorded Dropped e, d')"
    by (rule moves, rule insert_delete_event) (use deleted in auto)
  ultimately show ?case by (blast intro: rtranclp.rtrancl_into_rtrancl)
qed

lemma pg_start_alone:
  assumes "pg_start E k c w = (r, w')" and "cer_state c = pending"
  shows "(sys_step sha)\<^sup>*\<^sup>* (idle_system (store w)) (idle_system (store w'))"
  using pg_start_law [OF assms(1)] started_moves [of k c "store w" "store w'" sha]
    alone_commits [of sha "StartJob k c"] assms(2) by fastforce

lemma pg_delete_alone:
  assumes "pg_delete E a s i w = (r, w')"
  shows "(sys_step sha)\<^sup>*\<^sup>* (idle_system (store w)) (idle_system (store w'))"
  using pg_delete_law [OF assms] deleted_moves [of a s i "store w" "store w'" sha]
    alone_commits [of sha "DeleteJob a s i"] by fastforce

lemma pg_finish_alone:
  assumes "pg_finish E k h auth ver w = (q, w')" and wf: "wf_db (store w)"
    and ver: "\<And>c cs. keeps_store (ver c cs)"
  shows "(sys_step sha)\<^sup>*\<^sup>* (idle_system (store w)) (idle_system (store w'))"
  using assms(1)
proof (cases rule: pg_finish_cases)
  case (ended r)
  let ?w = "w\<lparr>calls := Suc (calls w)\<rparr>"
  have alone: ?thesis if body: "finish_body E k k h auth ver ?w = (Inr out, w2)" and w2: "store w' = store w2" for out w2
  proof -
    have "wf_db (store ?w)" using wf by simp
    from finish_body_moves [OF body ended(1) this ver, of sha] obtain c now seen e where
      "(moves sha (FinishJob k h auth (outcomes ver)))\<^sup>*\<^sup>* (Begun, store ?w) (Recorded (Linked c now seen out) e, store w2)"
      by blast
    from alone_commits [OF this] w2 show ?thesis by simp
  qed
  from ended(2) show ?thesis by (cases rule: transaction_cases) (use alone in auto)
qed simp

subsection \<open>A token is spent for every transaction\<close>

lemma past_lock:
  assumes "tx_inv sha d u" and "tx_job u = FinishJob k h auth ver" and "tx_phase u \<noteq> Begun"
  obtains c where "kind_valid k" "select_by_token k h d = Some c" "cer_state c = pending"
proof -
  from assms have u: "fits (FinishJob k h auth ver) (tx_phase u)"
    "\<forall>f \<in> knows (FinishJob k h auth ver) (tx_phase u). fact_holds f d"
    unfolding tx_inv_def by simp_all
  have "\<exists>c. fact_holds (Chosen k h c) d \<and> cer_state c = pending"
  proof (cases "tx_phase u")
    case (Recorded p e)
    with u show ?thesis by (cases p) (auto simp: resolved_def)
  qed (use u assms(3) in \<open>auto simp: resolved_def\<close>)
  then show thesis using that by auto
qed

lemma finished_spends:
  assumes fin: "finished k h c now out d d'" and wf: "wf_db d" and later: "db_step\<^sup>*\<^sup>* d' d''"
    and sel: "select_by_token k h d'' = Some c''"
  shows "cer_state c'' \<noteq> pending"
proof -
  have wf': "wf_db d'" by (rule finished_wf [OF fin wf])
  from fin obtain r st where r: "kind_valid k" "r \<in> set (table_rows k d)" "cer_token_hash r = h"
    "settles k r st out d d'" and
    st: "st = (case out of Inr _ \<Rightarrow> succeeded | Inl _ \<Rightarrow> if now < cer_expires_at c then failed else expired)"
    by (rule finished_settles)
  then obtain link where "table_rows k d' = settle_row (cer_id r) st link (table_rows k d)"
    by (auto simp: settles_def)
  with r(2) have "settle st link r \<in> set (table_rows k d')" by (force simp: settle_row_def)
  then have x: "settle st link r \<in> set (table_rows k d'')"
    by (rule steps_terminal_rows [OF later wf' r(1)]) (simp add: finished_result_state [OF st])
  from sel obtain y where y: "y \<in> set (table_rows k d'')" "cer_token_hash y = h" "c'' = ceremony.truncate y"
    by (rule select_by_token_Some)
  have "distinct (map cer_token_hash (table_rows k d''))"
    using wf_db_table [OF steps_wf [OF later wf']] by (simp add: wf_ceremonies_def)
  from distinct_key_eq [OF this y(1) x] y r(3) have "y = settle st link r" by simp
  with y(3) finished_result_state [OF st] show ?thesis by (simp add: ceremony.truncate_def)
qed

lemma finished_found: "finished k h c now out d d' \<Longrightarrow> select_by_token k h d = Some c"
  by (induction rule: finished.induct) auto

text \<open>A success is what the verifier made of the credentials it was shown.\<close>

lemma resolved_verified:
  assumes "resolved k authorize verify c now seen (Inr cr)"
  shows "now < cer_expires_at c \<and> (\<exists>cs cr0. seen = Some cs \<and> cr = stamped k now cr0 \<and> verify c cs (Inr cr0))"
proof -
  from assms obtain v where v: "verdict k verify c now seen v" "settled k now v (Inr cr)"
    by (auto simp: resolved_def)
  then show ?thesis by (cases v) (auto simp: verdict_def split: if_splits)
qed

subsection \<open>The order of the locks\<close>

text \<open>
  Every transaction takes its locks in one order: rows and tokens of ceremonies, then the subject, then
  credentials, then its event. A transaction waits for another when its next statement needs a lock that
  one holds.
\<close>

fun lock_rank :: "lock \<Rightarrow> nat" where
  "lock_rank (CeremonyRow k i) = 1"
| "lock_rank (TokenKey k h) = 1"
| "lock_rank (SubjectKey key) = 2"
| "lock_rank (CredentialRow i) = 3"
| "lock_rank (CredentialKey key) = 3"
| "lock_rank (EventKey i) = 4"

fun phase_rank :: "phase \<Rightarrow> nat" where
  "phase_rank Begun = 0"
| "phase_rank Inserted = 1"
| "phase_rank (Found c) = 1"
| "phase_rank (Serialized c) = 2"
| "phase_rank (Timed c now) = 2"
| "phase_rank (Verified c now seen v) = 2"
| "phase_rank SubjectHeld = 2"
| "phase_rank (Recorded p e) = 4"
| "phase_rank p = 3"

definition waits_for :: "(bytes \<Rightarrow> bytes) \<Rightarrow> system \<Rightarrow> nat \<Rightarrow> nat \<Rightarrow> bool" where
  "waits_for sha S n m \<longleftrightarrow>
     (\<exists>t u L ws p d'. opened S n = Some t \<and> opened S m = Some u \<and> m \<noteq> n
       \<and> advance sha (tx_job t) (tx_phase t) (sees S t) L ws p d' \<and> tx_held u \<inter> L \<noteq> {})"

definition ranked :: "system \<Rightarrow> bool" where
  "ranked S \<longleftrightarrow> (\<forall>n t. opened S n = Some t \<longrightarrow> (\<forall>l \<in> tx_held t. lock_rank l \<le> phase_rank (tx_phase t)))"

lemma advance_rank:
  "advance sha j p d L ws p' d' \<Longrightarrow>
    phase_rank p \<le> phase_rank p' \<and> (\<forall>l \<in> L. lock_rank l \<le> phase_rank p' \<and> (phase_rank p < lock_rank l \<or> l \<in> needs sha j p))"
  by (induction rule: advance.induct) (auto simp: needs_def)

lemma sys_step_ranked: "sys_step sha S S' \<Longrightarrow> ranked S \<Longrightarrow> ranked S'"
proof (induction rule: sys_step.induct)
  case (advances S n t L ws p d')
  from advance_rank [OF advances.hyps(2)] advances.hyps(1) advances.prems show ?case
    by (fastforce simp: ranked_def)
qed (auto simp: ranked_def)

lemma ranked_idle: "ranked (idle_system d)"
  by (simp add: ranked_def idle_system_def)

lemma sys_steps_ranked: "(sys_step sha)\<^sup>*\<^sup>* (idle_system d) S \<Longrightarrow> ranked S"
  by (induction rule: rtranclp_induct) (auto intro: ranked_idle sys_step_ranked)

definition rank_of :: "system \<Rightarrow> nat \<Rightarrow> nat" where
  "rank_of S n = (case opened S n of None \<Rightarrow> 0 | Some t \<Rightarrow> phase_rank (tx_phase t))"

lemma waits_for_rank:
  assumes "waits_for sha S n m" and inv: "sys_inv sha S" and "ranked S"
  shows "rank_of S n < rank_of S m"
proof -
  from assms(1) obtain t u L ws p d' l where t: "opened S n = Some t" and u: "opened S m = Some u" "m \<noteq> n"
    and step: "advance sha (tx_job t) (tx_phase t) (sees S t) L ws p d'" and l: "l \<in> tx_held u" "l \<in> L"
    unfolding waits_for_def by blast
  have "tx_inv sha (committed S) t" "tx_held u \<inter> tx_held t = {}"
    using inv t u unfolding sys_inv_def by blast+
  then have "l \<notin> needs sha (tx_job t) (tx_phase t)" using l(1) unfolding tx_inv_def by blast
  with advance_rank [OF step] l(2) have "phase_rank (tx_phase t) < lock_rank l" by blast
  also have "lock_rank l \<le> phase_rank (tx_phase u)" using assms(3) u(1) l(1) by (simp add: ranked_def)
  finally show ?thesis using t u by (simp add: rank_of_def)
qed

lemma waiting_ascends:
  assumes "(waits_for sha S)\<^sup>+\<^sup>+ n m" and "sys_inv sha S" and "ranked S"
  shows "rank_of S n < rank_of S m"
  using assms(1)
  by (induction rule: tranclp_induct) (auto dest: waits_for_rank [OF _ assms(2,3)])

end
