(* ===== verification/Example_Concurrency.thy ===== *)
theory Example_Concurrency
  imports Concurrency Example
begin

section \<open>Two transactions with one token\<close>

text \<open>
  The pending registration of \<open>Example\<close>: one transaction has finished it and is ready to commit, and a
  second one with the same token has begun meanwhile.
\<close>

definition ex_hash_key :: bytes where
  "ex_hash_key = sha256 ex_env (ex_token 1)"

definition ex_authorize_by :: "ceremony \<Rightarrow> err option" where
  "ex_authorize_by = finish_authorize ex_server Registration ex_client"

definition ex_verify_by :: "ceremony \<Rightarrow> credential list \<Rightarrow> credential eff" where
  "ex_verify_by = finish_verifier ex_server Registration ''{}''"

definition ex_job :: job where
  "ex_job = FinishJob Registration ex_hash_key ex_authorize_by (outcomes ex_verify_by)"

definition ex_second :: tx where
  "ex_second = \<lparr>tx_job = ex_job, tx_phase = Begun, tx_writes = [], tx_held = {}\<rparr>"

definition ex_both :: "tx \<Rightarrow> system" where
  "ex_both t = \<lparr>committed = store ex_started, opened = [0 \<mapsto> t, 1 \<mapsto> ex_second]\<rparr>"

lemma ex_pg_finish:
  "\<exists>cr. pg_finish ex_env Registration ex_hash_key ex_authorize_by ex_verify_by ex_started = (Inr cr, ex_registered)"
proof -
  have "and_then (pg_finish ex_env Registration ex_hash_key ex_authorize_by ex_verify_by)
      (\<lambda>cr. ret \<lparr>fr_application = cred_application cr, fr_subject = cred_subject cr, fr_credential = cred_id cr\<rparr>)
      ex_started = (Inr \<lparr>fr_application = ''shop'', fr_subject = ''alice'', fr_credential = uuid_v7 ex_env 2\<rparr>,
        ex_registered)"
    using ex_finish service_finish_run [OF ex_response kind_valid_simps(1) ex_hash(2), where s = ex_server and fp = ex_client]
    by (simp add: ex_parts postgres_def ex_hash_key_def ex_authorize_by_def ex_verify_by_def)
  then show ?thesis by (auto simp: and_then_def ret_def split: prod.splits sum.splits)
qed

lemma ex_verify_keeps: "keeps_store (ex_verify_by c cs)"
  by (simp add: ex_verify_by_def ex_kept)

lemma ex_alone: "(sys_step sha)\<^sup>*\<^sup>* (idle_system (store ex_started)) (idle_system (store ex_registered))"
proof -
  obtain cr where run: "pg_finish ex_env Registration ex_hash_key ex_authorize_by ex_verify_by ex_started
    = (Inr cr, ex_registered)" using ex_pg_finish by blast
  show ?thesis by (rule pg_finish_alone [OF run ex_wf(2) ex_verify_keeps])
qed

text \<open>The first transaction, ready to commit; then the second begins.\<close>

lemma ex_ready:
  "\<exists>t p e. (sys_step sha)\<^sup>*\<^sup>* (idle_system (store ex_started)) (ex_both t)
    \<and> tx_job t = ex_job \<and> tx_phase t = Recorded p e \<and> sees (ex_both t) t = store ex_registered"
proof -
  from ex_pg_finish obtain cr where
    "pg_finish ex_env Registration ex_hash_key ex_authorize_by ex_verify_by ex_started = (Inr cr, ex_registered)"
    by blast
  then obtain r where "transaction ex_env (finish_body ex_env Registration Registration ex_hash_key
      ex_authorize_by ex_verify_by) ex_started = (r, ex_registered)" "(case r of Inl e \<Rightarrow> Inl e | Inr out \<Rightarrow> out) = Inr cr"
    by (cases rule: pg_finish_cases) auto
  then obtain w2 where body: "finish_body ex_env Registration Registration ex_hash_key ex_authorize_by
      ex_verify_by (ex_started\<lparr>calls := Suc (calls ex_started)\<rparr>) = (Inr (Inr cr), w2)"
    and w2: "store ex_registered = store w2"
    by (cases rule: transaction_cases) auto
  have "wf_db (store (ex_started\<lparr>calls := Suc (calls ex_started)\<rparr>))" by (simp add: ex_wf)
  then obtain c now seen e where "(moves sha ex_job)\<^sup>*\<^sup>*
      (Begun, store (ex_started\<lparr>calls := Suc (calls ex_started)\<rparr>)) (Recorded (Linked c now seen (Inr cr)) e, store w2)"
    unfolding ex_job_def by (rule finish_body_moves [OF body kind_valid_simps(1) _ ex_verify_keeps, of sha])
  then have "(moves sha ex_job)\<^sup>*\<^sup>* (Begun, store ex_started) (Recorded (Linked c now seen (Inr cr)) e, store w2)"
    by simp
  from alone_advances [OF this, of 0] obtain t where
    t: "(sys_step sha)\<^sup>*\<^sup>* (idle_system (store ex_started)) \<lparr>committed = store ex_started, opened = [0 \<mapsto> t]\<rparr>"
      "tx_job t = ex_job" "tx_phase t = Recorded (Linked c now seen (Inr cr)) e"
      "apply_writes (tx_writes t) (store ex_started) = store w2"
    by (auto simp: ex_job_def)
  have "sys_step sha \<lparr>committed = store ex_started, opened = [0 \<mapsto> t]\<rparr> (ex_both t)"
    using begins [of "\<lparr>committed = store ex_started, opened = [0 \<mapsto> t]\<rparr>" 1 ex_job sha]
    by (simp add: ex_both_def ex_second_def ex_job_def)
  with t w2 show ?thesis by (auto simp: ex_both_def sees_def intro: rtranclp.rtrancl_into_rtrancl)
qed

text \<open>The second transaction waits for the row lock of the first.\<close>

lemma ex_waits:
  assumes run: "(sys_step sha)\<^sup>*\<^sup>* (idle_system (store ex_started)) (ex_both t)"
    and t: "tx_job t = ex_job" "tx_phase t = Recorded p e"
  shows "waits_for sha (ex_both t) 1 0"
proof -
  have opened: "opened (ex_both t) 0 = Some t" "opened (ex_both t) 1 = Some ex_second" by (simp_all add: ex_both_def)
  have inv: "sys_inv sha (ex_both t)" by (rule sys_steps_inv [OF run sys_inv_idle [OF ex_wf(2)]])
  with opened(1) have "tx_inv sha (committed (ex_both t)) t" unfolding sys_inv_def by blast
  then have ti: "tx_inv sha (store ex_started) t" by (simp add: ex_both_def)
  from ti obtain c now seen out where "p = Linked c now seen out"
    unfolding tx_inv_def using t by (cases p) (auto simp: ex_job_def)
  with ti t have c: "select_by_token Registration ex_hash_key (store ex_started) = Some c"
    "CeremonyRow Registration (cer_id c) \<in> tx_held t"
    by (auto simp: tx_inv_def needs_def ex_job_def)
  moreover have "select_by_token Registration ex_hash_key (store ex_started) = Some ex_ceremony"
    using ex_pending_row by (simp add: ex_hash_key_def)
  ultimately have held: "CeremonyRow Registration (cer_id ex_ceremony) \<in> tx_held t" by simp
  have "advance sha (FinishJob Registration ex_hash_key ex_authorize_by (outcomes ex_verify_by)) Begun (store ex_started)
      {CeremonyRow Registration (cer_id ex_ceremony)} [] (Found ex_ceremony) (store ex_started)"
  proof (rule select_for_update)
    show "select_by_token Registration ex_hash_key (store ex_started) = Some ex_ceremony"
      using ex_pending_row by (simp add: ex_hash_key_def)
    show "ex_authorize_by ex_ceremony = None" by (simp add: ex_authorize_by_def ex_authorized)
  qed (simp_all add: ex_ceremony_simps)
  then have "advance sha (tx_job ex_second) (tx_phase ex_second) (sees (ex_both t) ex_second)
      {CeremonyRow Registration (cer_id ex_ceremony)} [] (Found ex_ceremony) (store ex_started)"
    by (simp add: ex_second_def ex_job_def sees_def ex_both_def)
  with opened held show ?thesis unfolding waits_for_def by (intro exI conjI) auto
qed

end
