(* ===== verification/Test_Authenticator.thy ===== *)
theory Test_Authenticator
  imports "HOL-Library.Multiset" Config_Text Lifecycle
begin

section \<open>The test authenticator: internal/testauth/authenticator.go\<close>

text \<open>
  The software authenticator of the integration tests: it answers the options of a start the way a
  browser with an Ed25519 passkey would. \<open>t.Fatal\<close> ends the test, here \<^const>\<open>None\<close>. Arguments are the key
  pair and the random bytes drawn, the signature algorithm, SHA-256, the CBOR encoder of the go-webauthn
  module, and the order in which \<open>json.Marshal\<close> writes the members of a map, which Go leaves open.
\<close>

record authenticator =
  au_id :: bytes
  au_private :: bytes
  au_public :: bytes

datatype cbor =
    CborInt int
  | CborText string
  | CborBytes bytes
  | CborIntMap "(int \<times> cbor) list"
  | CborMap "(string \<times> cbor) list"

record fixture_lib =
  fx_sign :: "bytes \<Rightarrow> bytes \<Rightarrow> bytes"
  fx_sha256 :: "bytes \<Rightarrow> bytes"
  fx_cbor :: "cbor \<Rightarrow> bytes option"
  fx_order :: "(string \<times> go_value) list \<Rightarrow> (string \<times> go_value) list"

definition new_authenticator :: "(bytes \<times> bytes) option \<Rightarrow> (nat \<Rightarrow> char) \<Rightarrow> authenticator option" where
  "new_authenticator generated random =
     (case generated of
        None \<Rightarrow> None
      | Some (pub, key) \<Rightarrow>
          Some \<lparr>au_id = map random [0..<32], au_private = key, au_public = pub\<rparr>)"

text \<open>\<open>json.Marshal\<close> of nested maps: the members of each in some order; invalid UTF-8 is an error.\<close>

fun ordered :: "((string \<times> go_value) list \<Rightarrow> (string \<times> go_value) list) \<Rightarrow> go_value \<Rightarrow> go_value" where
  "ordered f (StructValue ms) = StructValue (f (map (\<lambda>m. (fst m, ordered f (snd m))) ms))"
| "ordered f v = v"

fun all_utf8 :: "go_value \<Rightarrow> bool" where
  "all_utf8 (StringValue s) = utf8_valid s"
| "all_utf8 (BoolValue b) = True"
| "all_utf8 (SliceValue vs) = list_all all_utf8 vs"
| "all_utf8 (StructValue ms) = list_all (\<lambda>m. all_utf8 (snd m)) ms"

definition fixture_encode :: "fixture_lib \<Rightarrow> go_value \<Rightarrow> bytes option" where
  "fixture_encode L v = (if all_utf8 v then Some (print_value (ordered (fx_order L) v)) else None)"

text \<open>The challenge: \<open>publicKey.challenge\<close> of the options, other members are dropped.\<close>

definition options_type :: struct_type where
  "options_type name = Some RawMember"

definition public_key_type :: struct_type where
  "public_key_type name = Some (if name = ''challenge'' then StringMember else RawMember)"

definition challenge :: "bytes \<Rightarrow> string option" where
  "challenge options =
     (case unmarshal options_type options of
        Inl e \<Rightarrow> None
      | Inr opts \<Rightarrow>
          (case unmarshal public_key_type (opts ''publicKey'') of
             Inl e \<Rightarrow> None
           | Inr p \<Rightarrow> if p ''challenge'' = '''' then None else Some (p ''challenge'')))"

definition append_uint16 :: "16 word \<Rightarrow> bytes" where
  "append_uint16 v = map (\<lambda>i. nat_byte (unat (drop_bit i v) mod 256)) [8, 0]"

definition append_uint32 :: "32 word \<Rightarrow> bytes" where
  "append_uint32 v = map (\<lambda>i. nat_byte (unat (drop_bit i v) mod 256)) [24, 16, 8, 0]"

definition client_data :: "string \<Rightarrow> string \<Rightarrow> string \<Rightarrow> go_value" where
  "client_data ty ch origin =
     StructValue [(''type'', StringValue ty), (''challenge'', StringValue ch),
       (''origin'', StringValue origin), (''crossOrigin'', BoolValue False)]"

definition credential_value :: "authenticator \<Rightarrow> (string \<times> go_value) list \<Rightarrow> (string \<times> go_value) list \<Rightarrow> go_value"
where
  "credential_value a extensions response =
     StructValue [(''id'', StringValue (b64_encode (au_id a))), (''rawId'', StringValue (b64_encode (au_id a))),
       (''type'', StringValue ''public-key''), (''clientExtensionResults'', StructValue extensions),
       (''response'', StructValue response)]"

definition registration_data :: "fixture_lib \<Rightarrow> authenticator \<Rightarrow> string \<Rightarrow> bytes" where
  "registration_data L a rp =
     fx_sha256 L rp @ map nat_byte [0x5d, 0, 0, 0, 0] @ replicate 16 (nat_byte 0)
     @ append_uint16 (of_nat (length (au_id a))) @ au_id a"

definition public_key_map :: "authenticator \<Rightarrow> cbor" where
  "public_key_map a =
     CborIntMap [(1, CborInt 1), (3, CborInt (-8)), (-1, CborInt 6), (-2, CborBytes (au_public a))]"

definition register :: "fixture_lib \<Rightarrow> authenticator \<Rightarrow> bytes \<Rightarrow> string \<Rightarrow> string \<Rightarrow> bytes option" where
  "register L a options rp origin =
     (case fx_cbor L (public_key_map a) of
        None \<Rightarrow> None
      | Some key \<Rightarrow>
     (case fx_cbor L (CborMap [(''fmt'', CborText ''none''), (''attStmt'', CborMap []),
         (''authData'', CborBytes (registration_data L a rp @ key))]) of
        None \<Rightarrow> None
      | Some attestation \<Rightarrow>
     (case challenge options of
        None \<Rightarrow> None
      | Some ch \<Rightarrow>
     (case fixture_encode L (client_data ''webauthn.create'' ch origin) of
        None \<Rightarrow> None
      | Some client \<Rightarrow>
          fixture_encode L
            (credential_value a [(''credProps'', StructValue [(''rk'', BoolValue True)])]
              [(''clientDataJSON'', StringValue (b64_encode client)),
               (''attestationObject'', StringValue (b64_encode attestation)),
               (''transports'', SliceValue [StringValue ''internal''])])))))"

definition assertion_data :: "fixture_lib \<Rightarrow> string \<Rightarrow> 32 word \<Rightarrow> bool \<Rightarrow> bytes" where
  "assertion_data L rp counter uv =
     (let flags = (if uv then or 0x19 4 else 0x19 :: 8 word) in
      fx_sha256 L rp @ [nat_byte (unat flags)] @ append_uint32 counter)"

definition authenticate ::
  "fixture_lib \<Rightarrow> authenticator \<Rightarrow> bytes \<Rightarrow> string \<Rightarrow> string \<Rightarrow> bytes \<Rightarrow> 32 word \<Rightarrow> bool \<Rightarrow> bytes option"
where
  "authenticate L a options rp origin handle counter uv =
     (case challenge options of
        None \<Rightarrow> None
      | Some ch \<Rightarrow>
     (case fixture_encode L (client_data ''webauthn.get'' ch origin) of
        None \<Rightarrow> None
      | Some client \<Rightarrow>
          (let authenticator_data = assertion_data L rp counter uv;
               signature = fx_sign L (au_private a) (authenticator_data @ fx_sha256 L client) in
           fixture_encode L
             (credential_value a []
               [(''clientDataJSON'', StringValue (b64_encode client)),
                (''authenticatorData'', StringValue (b64_encode authenticator_data)),
                (''signature'', StringValue (b64_encode signature)),
                (''userHandle'', StringValue (b64_encode handle))]))))"

subsection \<open>The order of members does not matter to a reader\<close>

definition keeps_members :: "((string \<times> go_value) list \<Rightarrow> (string \<times> go_value) list) \<Rightarrow> bool" where
  "keeps_members f \<longleftrightarrow> (\<forall>ms. mset (f ms) = mset ms)"

lemma keeps_members_set: "keeps_members f \<Longrightarrow> set (f ms) = set ms"
  unfolding keeps_members_def by (metis set_mset_mset)

lemma keeps_members_distinct: "keeps_members f \<Longrightarrow> distinct (map fst (f ms)) \<longleftrightarrow> distinct (map fst ms)"
  unfolding keeps_members_def by (metis mset_eq_imp_distinct_iff mset_map)

lemma keeps_members_map_of:
  assumes "keeps_members f" and "distinct (map fst ms)"
  shows "map_of (f ms) = map_of ms"
  using assms map_of_inject_set [of "f ms" ms] keeps_members_set keeps_members_distinct by blast

lemma typed_ordered: "typed n ty v \<Longrightarrow> keeps_members f \<Longrightarrow> typed n ty (ordered f v)"
proof (induction n ty v rule: typed.induct)
  case (3 n el vs)
  then show ?case by simp
next
  case (4 n members ms)
  have fields: "distinct (map fst ms)" "\<forall>m \<in> set ms. plain (fst m) \<and> (\<exists>ty. map_of members (fst m) = Some ty \<and> typed n ty (snd m))"
    using 4(2) by (auto simp: list_all_iff split: option.splits)
  let ?ms = "map (\<lambda>m. (fst m, ordered f (snd m))) ms"
  have "\<forall>m \<in> set ms. \<exists>ty. map_of members (fst m) = Some ty \<and> typed n ty (ordered f (snd m))"
    using fields(2) 4(1,3) by (metis prod.collapse)
  then have "\<forall>m \<in> set ?ms. plain (fst m) \<and> (\<exists>ty. map_of members (fst m) = Some ty \<and> typed n ty (snd m))"
    using fields(2) by auto
  moreover have "distinct (map fst ?ms)" using fields(1) by (simp add: comp_def)
  ultimately show ?case
    using keeps_members_set [OF 4(3), of ?ms] keeps_members_distinct [OF 4(3), of ?ms]
    by (fastforce simp: list_all_iff)
qed auto

definition field :: "string \<Rightarrow> go_value \<Rightarrow> go_value option" where
  "field n v = as_struct (Some v) n"

lemma field_ordered:
  assumes "keeps_members f" and "distinct (map fst ms)"
  shows "field n (ordered f (StructValue ms)) = map_option (ordered f) (field n (StructValue ms))"
  using assms keeps_members_map_of [OF assms(1), of "map (\<lambda>m. (fst m, ordered f (snd m))) ms"]
    map_of_map [of "ordered f" ms]
  by (simp add: field_def comp_def case_prod_unfold)

subsection \<open>What the answers decode to\<close>

definition client_type :: go_type where
  "client_type =
     GoStruct [(''type'', GoString), (''challenge'', GoString), (''origin'', GoString), (''crossOrigin'', GoBool)]"

definition answer_type :: "(string \<times> go_type) list \<Rightarrow> (string \<times> go_type) list \<Rightarrow> go_type" where
  "answer_type extensions response =
     GoStruct [(''id'', GoString), (''rawId'', GoString), (''type'', GoString),
       (''clientExtensionResults'', GoStruct extensions), (''response'', GoStruct response)]"

definition registration_type :: go_type where
  "registration_type =
     answer_type [(''credProps'', GoStruct [(''rk'', GoBool)])]
       [(''clientDataJSON'', GoString), (''attestationObject'', GoString), (''transports'', GoSlice GoString)]"

definition assertion_type :: go_type where
  "assertion_type =
     answer_type []
       [(''clientDataJSON'', GoString), (''authenticatorData'', GoString), (''signature'', GoString),
        (''userHandle'', GoString)]"

text \<open>What is printed for a value of a type is decoded to it, is valid JSON, and starts with a brace.\<close>

lemma printed_struct:
  assumes "typed n ty v" and "n \<le> 32" and "v = StructValue ms"
  shows "unmarshal_value ty (print_value v) = Inr v" and "json_valid (print_value v)"
    and "\<exists>r. trim_space (print_value v) = CHR ''{'' # r"
proof -
  show dec: "unmarshal_value ty (print_value v) = Inr v" by (rule print_decodes(2) [OF assms(1,2)])
  then show "json_valid (print_value v)"
    by (auto simp: unmarshal_value_def json_valid_def split: option.splits if_splits)
  obtain p where "print_fields False ms = p @ ''}''" using fields_end by blast
  then have p: "print_value v = CHR ''{'' # p @ ''}''" by (simp add: assms(3))
  have "no_space_byte CHR ''{''" "no_space_byte CHR ''}''"
    by (rule no_space_byte_graphic; simp add: punctuation_nat)+
  then have "trim_space (print_value v) = CHR ''{'' # p @ ''}''" using trim_space_graphic p by simp
  then show "\<exists>r. trim_space (print_value v) = CHR ''{'' # r" by blast
qed

lemma encode_reads:
  assumes "fixture_encode L (StructValue ms) = Some out" and "keeps_members (fx_order L)"
    and "typed n ty (StructValue ms)" and "n \<le> 32"
  shows "unmarshal_value ty out = Inr (ordered (fx_order L) (StructValue ms))"
    and "length out \<le> 64 * 1024 \<Longrightarrow> acceptable_response out"
proof -
  let ?v = "ordered (fx_order L) (StructValue ms)"
  have out: "out = print_value ?v" using assms(1) by (simp add: fixture_encode_def split: if_splits)
  obtain ms' where ms': "?v = StructValue ms'" by simp
  note printed = printed_struct [OF typed_ordered [OF assms(3,2)] assms(4) ms', folded out]
  then show "unmarshal_value ty out = Inr ?v" by blast
  show "acceptable_response out" if "length out \<le> 64 * 1024"
    using printed that by (auto simp: acceptable_response_def out)
qed

fun text_at :: "string list \<Rightarrow> go_value \<Rightarrow> string option" where
  "text_at [] (StringValue s) = Some s"
| "text_at (n # p) v = (case field n v of None \<Rightarrow> None | Some w \<Rightarrow> text_at p w)"
| "text_at _ _ = None"

definition bytes_at :: "string list \<Rightarrow> go_value \<Rightarrow> bytes option" where
  "bytes_at p v = (case text_at p v of None \<Rightarrow> None | Some s \<Rightarrow> b64_decode s)"

lemma plain_fields: "plain ''id''" "plain ''rawId''" "plain ''type''" "plain ''clientExtensionResults''"
  "plain ''response''" "plain ''credProps''" "plain ''rk''" "plain ''clientDataJSON''"
  "plain ''attestationObject''" "plain ''transports''" "plain ''authenticatorData''" "plain ''signature''"
  "plain ''userHandle''" "plain ''challenge''" "plain ''origin''" "plain ''crossOrigin''"
  by code_simp+

lemma encode_utf8: "fixture_encode L v = Some out \<Longrightarrow> all_utf8 v"
  by (simp add: fixture_encode_def split: if_splits)

lemma typed_client_data:
  "all_utf8 (client_data ty ch origin) \<Longrightarrow> typed 1 client_type (client_data ty ch origin)"
  unfolding client_type_def client_data_def One_nat_def
  by (rule typed_struct) (simp_all add: plain_fields)

lemma typed_answer:
  assumes "all_utf8 (credential_value a ext resp)" and "typed 2 (GoStruct exts) (StructValue ext)"
    and "typed 2 (GoStruct resps) (StructValue resp)"
  shows "typed 3 (answer_type exts resps) (credential_value a ext resp)"
proof -
  have "typed (Suc 2) (answer_type exts resps) (credential_value a ext resp)"
    unfolding answer_type_def credential_value_def
    by (rule typed_struct) (use assms in \<open>simp_all add: plain_fields credential_value_def\<close>)
  then show ?thesis by simp
qed

text \<open>The fields of the two answers, whatever the order.\<close>

lemma text_ordered_string [simp]: "text_at [] (ordered f (StringValue s)) = Some s"
  by simp

lemma client_data_fields:
  assumes "keeps_members f"
  shows "text_at [''type''] (ordered f (client_data ty ch origin)) = Some ty"
    and "text_at [''challenge''] (ordered f (client_data ty ch origin)) = Some ch"
    and "text_at [''origin''] (ordered f (client_data ty ch origin)) = Some origin"
  using field_ordered [OF assms] by (simp_all add: client_data_def field_def del: ordered.simps(1))

lemma answer_fields:
  assumes "keeps_members f" and "distinct (map fst resp)" and "map_of resp n = Some (StringValue s)"
  shows "text_at [''id''] (ordered f (credential_value a ext resp)) = Some (b64_encode (au_id a))"
    and "text_at [''rawId''] (ordered f (credential_value a ext resp)) = Some (b64_encode (au_id a))"
    and "text_at [''response'', n] (ordered f (credential_value a ext resp)) = Some s"
  using field_ordered [OF assms(1)] assms(2,3)
  by (simp_all add: credential_value_def field_def del: ordered.simps(1))

subsection \<open>The authenticator data\<close>

text \<open>
  The layout of WebAuthn section 6.1, as a relying party reads it: the RP ID hash, the flags, the signature counter,
  and what follows.
\<close>

definition be_nat :: "bytes \<Rightarrow> nat" where
  "be_nat b = foldl (\<lambda>a c. 256 * a + byte_nat c) 0 b"

definition read_authenticator_data :: "bytes \<Rightarrow> (bytes \<times> nat \<times> nat \<times> bytes) option" where
  "read_authenticator_data d =
     (if length d < 37 then None
      else Some (take 32 d, byte_nat (d ! 32), be_nat (take 4 (drop 33 d)), drop 37 d))"

text \<open>Attested credential data: the AAGUID, the credential ID after its length, and the public key.\<close>

definition read_attested_data :: "bytes \<Rightarrow> (bytes \<times> bytes \<times> bytes) option" where
  "read_attested_data d =
     (let n = be_nat (take 2 (drop 16 d)) in
      if length d < 18 + n then None else Some (take 16 d, take n (drop 18 d), drop (18 + n) d))"

lemma unat_drop: "unat (drop_bit i v) = unat v div 2 ^ i" for v :: "'a::len word"
  by (simp only: unat_drop_bit_eq) (simp add: drop_bit_eq_div)

lemma byte_digit: "n div (256 * m) * 256 + n div m mod 256 = n div m" for n m :: nat
  using div_mult2_eq [of n m 256] by (simp add: mult.commute)

lemma four_digits:
  "16777216 * (n div 16777216) + 65536 * (n div 65536 mod 256) + 256 * (n div 256 mod 256) + n mod 256 = n" for n :: nat
proof -
  have "n div 16777216 * 256 + n div 65536 mod 256 = n div 65536" using byte_digit [of n 65536] by simp
  moreover have "n div 65536 * 256 + n div 256 mod 256 = n div 256" using byte_digit [of n 256] by simp
  moreover have "n div 256 * 256 + n mod 256 = n" by (rule div_mult_mod_eq)
  ultimately show ?thesis by linarith
qed

lemma be_nat_uint16: "be_nat (append_uint16 v) = unat v"
proof -
  have "unat v < 2 ^ 16" using unsigned_less [of v] by simp
  then have "unat v div 256 mod 256 = unat v div 256" by simp
  then show ?thesis by (simp add: be_nat_def append_uint16_def unat_drop)
qed

lemma be_nat_uint32: "be_nat (append_uint32 v) = unat v"
proof -
  have "unat v < 2 ^ 32" using unsigned_less [of v] by simp
  then have "unat v div 16777216 < 256" by simp
  with four_digits [of "unat v"] show ?thesis by (simp add: be_nat_def append_uint32_def unat_drop)
qed

lemma append_length [simp]: "length (append_uint32 v) = 4" "length (append_uint16 w) = 2"
  by (simp_all add: append_uint32_def append_uint16_def)

lemma assertion_data_reads:
  assumes "length (fx_sha256 L rp) = 32"
  shows "read_authenticator_data (assertion_data L rp counter uv)
    = Some (fx_sha256 L rp, if uv then 0x1d else 0x19, unat counter, [])"
proof -
  have "unat (or 0x19 4 :: 8 word) = 0x1d" by simp
  with assms show ?thesis
    by (simp add: read_authenticator_data_def assertion_data_def nth_append be_nat_uint32 Let_def)
qed

lemma registration_data_reads:
  assumes "length (fx_sha256 L rp) = 32" and "length (au_id a) = 32"
  obtains rest where "read_authenticator_data (registration_data L a rp @ key)
      = Some (fx_sha256 L rp, 0x5d, 0, rest)"
    and "read_attested_data rest = Some (replicate 16 (nat_byte 0), au_id a, key)"
proof
  let ?rest = "replicate 16 (nat_byte 0) @ append_uint16 (of_nat (length (au_id a))) @ au_id a @ key"
  have "be_nat [nat_byte 0, nat_byte 0, nat_byte 0, nat_byte 0] = 0" by (simp add: be_nat_def)
  with assms(1) show "read_authenticator_data (registration_data L a rp @ key)
      = Some (fx_sha256 L rp, 0x5d, 0, ?rest)"
    by (simp add: read_authenticator_data_def registration_data_def nth_append)
  show "read_attested_data ?rest = Some (replicate 16 (nat_byte 0), au_id a, key)"
    using assms(2) by (simp add: read_attested_data_def be_nat_uint16 Let_def)
qed

subsection \<open>What a relying party reads in the answers\<close>

text \<open>
  \<open>sent_client_data\<close>: the client data a response carries says what was asked for. Both answers are JSON
  objects the server's \<open>Finish\<close> hands on when they are not too long.
\<close>

definition sent_client_data :: "string \<Rightarrow> string \<Rightarrow> string \<Rightarrow> bytes \<Rightarrow> bool" where
  "sent_client_data ty ch origin client \<longleftrightarrow>
     (\<exists>v. unmarshal_value client_type client = Inr v \<and> text_at [''type''] v = Some ty
       \<and> text_at [''challenge''] v = Some ch \<and> text_at [''origin''] v = Some origin)"

lemma client_data_sent:
  assumes "fixture_encode L (client_data ty ch origin) = Some client" and "keeps_members (fx_order L)"
  shows "sent_client_data ty ch origin client"
  using encode_reads(1) [OF assms(1) [unfolded client_data_def] assms(2)
      typed_client_data [OF encode_utf8 [OF assms(1)], unfolded client_data_def]]
    client_data_fields [OF assms(2), of ty ch origin]
  by (auto simp: sent_client_data_def client_data_def)

lemma authenticate_answer:
  assumes run: "authenticate L a options rp origin handle counter uv = Some resp"
    and order: "keeps_members (fx_order L)" and hash: "length (fx_sha256 L rp) = 32"
  shows "\<exists>ch v client data. challenge options = Some ch \<and> unmarshal_value assertion_type resp = Inr v
    \<and> bytes_at [''rawId''] v = Some (au_id a)
    \<and> bytes_at [''response'', ''clientDataJSON''] v = Some client \<and> sent_client_data ''webauthn.get'' ch origin client
    \<and> bytes_at [''response'', ''authenticatorData''] v = Some data
    \<and> read_authenticator_data data = Some (fx_sha256 L rp, if uv then 0x1d else 0x19, unat counter, [])
    \<and> bytes_at [''response'', ''signature''] v = Some (fx_sign L (au_private a) (data @ fx_sha256 L client))
    \<and> bytes_at [''response'', ''userHandle''] v = Some handle
    \<and> (length resp \<le> 64 * 1024 \<longrightarrow> acceptable_response resp)"
proof -
  from run obtain ch client where ch: "challenge options = Some ch"
    and client: "fixture_encode L (client_data ''webauthn.get'' ch origin) = Some client"
    by (auto simp: authenticate_def split: option.splits)
  define data where "data = assertion_data L rp counter uv"
  define members where "members =
    [(''clientDataJSON'', StringValue (b64_encode client)), (''authenticatorData'', StringValue (b64_encode data)),
     (''signature'', StringValue (b64_encode (fx_sign L (au_private a) (data @ fx_sha256 L client)))),
     (''userHandle'', StringValue (b64_encode handle))]"
  have out: "fixture_encode L (credential_value a [] members) = Some resp"
    using run ch client by (simp add: authenticate_def members_def data_def Let_def)
  have "typed 3 assertion_type (credential_value a [] members)"
    unfolding assertion_type_def
  proof (rule typed_answer [OF encode_utf8 [OF out]])
    show "typed 2 (GoStruct []) (StructValue [])" by (simp add: numeral_2_eq_2)
    show "typed 2 (GoStruct [(''clientDataJSON'', GoString), (''authenticatorData'', GoString),
        (''signature'', GoString), (''userHandle'', GoString)]) (StructValue members)"
      unfolding numeral_2_eq_2
      by (rule typed_struct)
        (use encode_utf8 [OF out] in \<open>simp_all add: members_def plain_fields credential_value_def\<close>)
  qed
  note reads = encode_reads [OF out [unfolded credential_value_def] order this [unfolded credential_value_def],
      folded credential_value_def]
  have names: "distinct (map fst members)" by (simp add: members_def)
  note at = answer_fields [OF order names]
  let ?v = "ordered (fx_order L) (credential_value a [] members)"
  have fields: "text_at [''response'', ''clientDataJSON''] ?v = Some (b64_encode client)"
      "text_at [''response'', ''authenticatorData''] ?v = Some (b64_encode data)"
      "text_at [''response'', ''signature''] ?v
        = Some (b64_encode (fx_sign L (au_private a) (data @ fx_sha256 L client)))"
      "text_at [''response'', ''userHandle''] ?v = Some (b64_encode handle)"
      "text_at [''rawId''] ?v = Some (b64_encode (au_id a))"
    by (rule at(3), simp add: members_def)+ (rule at(2) [of "''userHandle''"], simp add: members_def)
  show ?thesis
    using ch reads fields client_data_sent [OF client order] assertion_data_reads [OF hash, of counter uv]
    by (intro exI [of _ ch] exI [of _ ?v] exI [of _ client] exI [of _ data])
      (simp add: bytes_at_def data_def)
qed

lemma register_answer:
  assumes run: "register L a options rp origin = Some resp"
    and order: "keeps_members (fx_order L)" and hash: "length (fx_sha256 L rp) = 32" and ident: "length (au_id a) = 32"
  shows "\<exists>ch v client attestation data key rest. challenge options = Some ch
    \<and> unmarshal_value registration_type resp = Inr v
    \<and> bytes_at [''rawId''] v = Some (au_id a)
    \<and> bytes_at [''response'', ''clientDataJSON''] v = Some client \<and> sent_client_data ''webauthn.create'' ch origin client
    \<and> bytes_at [''response'', ''attestationObject''] v = Some attestation
    \<and> fx_cbor L (CborMap [(''fmt'', CborText ''none''), (''attStmt'', CborMap []), (''authData'', CborBytes data)])
        = Some attestation
    \<and> fx_cbor L (public_key_map a) = Some key
    \<and> read_authenticator_data data = Some (fx_sha256 L rp, 0x5d, 0, rest)
    \<and> read_attested_data rest = Some (replicate 16 (nat_byte 0), au_id a, key)
    \<and> (length resp \<le> 64 * 1024 \<longrightarrow> acceptable_response resp)"
proof -
  from run obtain key attestation ch client where key: "fx_cbor L (public_key_map a) = Some key"
    and att: "fx_cbor L (CborMap [(''fmt'', CborText ''none''), (''attStmt'', CborMap []),
      (''authData'', CborBytes (registration_data L a rp @ key))]) = Some attestation"
    and ch: "challenge options = Some ch"
    and client: "fixture_encode L (client_data ''webauthn.create'' ch origin) = Some client"
    by (auto simp: register_def split: option.splits)
  define members where "members =
    [(''clientDataJSON'', StringValue (b64_encode client)), (''attestationObject'', StringValue (b64_encode attestation)),
     (''transports'', SliceValue [StringValue ''internal''])]"
  let ?ext = "[(''credProps'', StructValue [(''rk'', BoolValue True)])]"
  have out: "fixture_encode L (credential_value a ?ext members) = Some resp"
    using run key att ch client by (simp add: register_def members_def)
  have "typed 3 registration_type (credential_value a ?ext members)"
    unfolding registration_type_def
  proof (rule typed_answer [OF encode_utf8 [OF out]])
    show "typed 2 (GoStruct [(''credProps'', GoStruct [(''rk'', GoBool)])]) (StructValue ?ext)"
      by (simp add: numeral_2_eq_2 plain_fields)
    show "typed 2 (GoStruct [(''clientDataJSON'', GoString), (''attestationObject'', GoString),
        (''transports'', GoSlice GoString)]) (StructValue members)"
      unfolding numeral_2_eq_2
      by (rule typed_struct)
        (use encode_utf8 [OF out] in \<open>simp_all add: members_def plain_fields credential_value_def\<close>)
  qed
  note reads = encode_reads [OF out [unfolded credential_value_def] order this [unfolded credential_value_def],
      folded credential_value_def]
  have names: "distinct (map fst members)" by (simp add: members_def)
  note at = answer_fields [OF order names]
  let ?v = "ordered (fx_order L) (credential_value a ?ext members)"
  have fields: "text_at [''response'', ''clientDataJSON''] ?v = Some (b64_encode client)"
      "text_at [''response'', ''attestationObject''] ?v = Some (b64_encode attestation)"
      "text_at [''rawId''] ?v = Some (b64_encode (au_id a))"
    by (rule at(3), simp add: members_def)+ (rule at(2) [of "''clientDataJSON''"], simp add: members_def)
  have bytes: "bytes_at [''rawId''] ?v = Some (au_id a)"
      "bytes_at [''response'', ''clientDataJSON''] ?v = Some client"
      "bytes_at [''response'', ''attestationObject''] ?v = Some attestation"
    by (simp_all only: bytes_at_def fields option.case b64_decode_encode)
  obtain rest where r: "read_authenticator_data (registration_data L a rp @ key) = Some (fx_sha256 L rp, 0x5d, 0, rest)"
    "read_attested_data rest = Some (replicate 16 (nat_byte 0), au_id a, key)"
    by (rule registration_data_reads [OF hash ident])
  show ?thesis
    by (rule exI [of _ ch], rule exI [of _ ?v], rule exI [of _ client], rule exI [of _ attestation],
        rule exI [of _ "registration_data L a rp @ key"], rule exI [of _ key], rule exI [of _ rest], intro conjI impI)
      (rule ch reads bytes client_data_sent [OF client order] att key r | assumption | simp)+
qed

lemma new_authenticator_id: "new_authenticator generated random = Some a \<Longrightarrow> length (au_id a) = 32"
  by (auto simp: new_authenticator_def split: option.splits)

subsection \<open>A small fixture\<close>

definition ex_fixture :: fixture_lib where
  "ex_fixture =
     \<lparr>fx_sign = (\<lambda>key m. key @ take 4 m), fx_sha256 = (\<lambda>b. take 32 (rev b @ replicate 32 (nat_byte 0))),
      fx_cbor = (\<lambda>c. Some ''cbor''), fx_order = rev\<rparr>"

definition ex_authenticator :: authenticator where
  "ex_authenticator =
     \<lparr>au_id = map nat_byte [0..<32], au_private = ''private'', au_public = ''public''\<rparr>"

definition ex_options :: bytes where
  "ex_options = ''{\"publicKey\":{\"challenge\":\"c2hlbGx0\"}}''"

lemma ex_option_tokens:
  "read_token [] ''{\"publicKey\":{\"challenge\":\"c2hlbGx0\"}}''
    = JToken TBeginObject [FObject [] False] ''\"publicKey\":{\"challenge\":\"c2hlbGx0\"}}''"
  "read_token [FObject [] False] ''\"publicKey\":{\"challenge\":\"c2hlbGx0\"}}''
    = JToken (TString ''publicKey'') [FObject [''publicKey''] True] '':{\"challenge\":\"c2hlbGx0\"}}''"
  "read_token [FObject [''publicKey''] True] '':{\"challenge\":\"c2hlbGx0\"}}''
    = JToken TBeginObject [FObject [] False, FObject [''publicKey''] False] ''\"challenge\":\"c2hlbGx0\"}}''"
  "read_token [FObject [] False, FObject [''publicKey''] False] ''\"challenge\":\"c2hlbGx0\"}}''
    = JToken (TString ''challenge'') [FObject [''challenge''] True, FObject [''publicKey''] False] '':\"c2hlbGx0\"}}''"
  "read_token [FObject [''challenge''] True, FObject [''publicKey''] False] '':\"c2hlbGx0\"}}''
    = JToken (TString ''c2hlbGx0'') [FObject [''challenge''] False, FObject [''publicKey''] False] ''}}''"
  "read_token [FObject [''challenge''] False, FObject [''publicKey''] False] ''}}''
    = JToken TEndObject [FObject [''publicKey''] False] ''}''"
  "read_token [FObject [''publicKey''] False] ''}''
    = JToken TEndObject [] ''''"
  "read_token [] ''{\"challenge\":\"c2hlbGx0\"}''
    = JToken TBeginObject [FObject [] False] ''\"challenge\":\"c2hlbGx0\"}''"
  "read_token [FObject [] False] ''\"challenge\":\"c2hlbGx0\"}''
    = JToken (TString ''challenge'') [FObject [''challenge''] True] '':\"c2hlbGx0\"}''"
  "read_token [FObject [''challenge''] True] '':\"c2hlbGx0\"}''
    = JToken (TString ''c2hlbGx0'') [FObject [''challenge''] False] ''}''"
  "read_token [FObject [''challenge''] False] ''}''
    = JToken TEndObject [] ''''"
  by code_simp+

lemma ex_option_raw: "raw_value '':{\"challenge\":\"c2hlbGx0\"}}'' ''}'' = ''{\"challenge\":\"c2hlbGx0\"}''"
  by code_simp

lemma ex_challenge: "challenge ex_options = Some ''c2hlbGx0''"
  by (simp add: challenge_def unmarshal_def decode_members.simps skip_value.simps ex_options_def
      ex_option_tokens ex_option_raw options_type_def public_key_type_def decode_member_def
      empty_struct_def del: read_token.simps)

lemma ex_order: "keeps_members (fx_order ex_fixture)"
  by (simp add: keeps_members_def ex_fixture_def)

lemma b64_utf8: "utf8_valid (b64_encode b)"
  by (rule utf8_ascii) (auto simp: b64_encode_def b64_char_def)

lemma ex_texts: "utf8_valid ''webauthn.create''" "utf8_valid ''webauthn.get''" "utf8_valid ''c2hlbGx0''"
  "utf8_valid ''https://example.com''" "utf8_valid ''public-key''" "utf8_valid ''internal''"
  by code_simp+

lemma ex_assertion:
  "authenticate ex_fixture ex_authenticator ex_options ''example.com'' ''https://example.com'' ''handle'' 7 True \<noteq> None"
  by (simp add: authenticate_def ex_challenge fixture_encode_def client_data_def credential_value_def
      ex_texts b64_utf8 Let_def)

lemma ex_registration:
  "register ex_fixture ex_authenticator ex_options ''example.com'' ''https://example.com'' \<noteq> None"
  by (simp add: register_def ex_challenge fixture_encode_def client_data_def credential_value_def
      ex_texts b64_utf8 ex_fixture_def)

lemma ex_lengths: "length (fx_sha256 ex_fixture b) = 32" "length (au_id ex_authenticator) = 32"
  by (simp_all add: ex_fixture_def ex_authenticator_def)

end
