(* ===== verification/Spec2Isabelle.thy ===== *)
theory Spec2Isabelle
  imports Example_Demo Example_Concurrency Test_Authenticator
begin

text \<open>
  A verification of the Shellty passkey server (\<open>passkeys/\<close>, \<open>app/\<close>, \<open>cmd/\<close>, \<open>internal/\<close>): a multi-tenant WebAuthn
  service with an administration UI. A client application authenticates with a TLS certificate, starts
  a registration or an authentication for one of its subjects, relays the options to the browser and
  finishes the ceremony with the browser's response and the token it was given. What must hold: a token
  is good for one finish; credential, ceremony and history change together or not at all; no client
  acts for an application that does not list its certificate; nothing is reported as a success that was
  not verified; the administration pages show the database to nobody but the signed-in administrator.

  \<^bold>\<open>Theories and code.\<close> From the bottom up:
  \<^item> \<open>Prelude\<close>: bytes, time in nanoseconds, lists as tables, the collections \<open>frame\<close>, \<open>success\<close>,
    \<open>names\<close>.
  \<^item> \<open>Go_Strings\<close>, \<open>Go_Base64\<close>, \<open>Go_Numbers\<close>, \<open>Go_Time\<close>, \<open>Go_Url\<close>, \<open>Go_Json\<close>, \<open>Go_Flag\<close>: what the code uses of
    Go's library: trimming, UTF-8, UUID text; unpadded base64url; decimal numbers; calendar dates and
    their layouts; query strings; the token decoder of \<open>encoding/json/jsontext\<close>; command lines and
    listen addresses. \<open>Json_Text\<close> and \<open>Json_Compact\<close> are the writing side of JSON: strings, and raw values
    re-written token by token.
  \<^item> \<open>Passkey_Domain\<close>: \<open>passkeys/ceremony.go\<close> and \<open>passkeys/application.go\<close>.
  \<^item> \<open>Schema\<close>: the tables of \<open>assets/migrations/\<close> with their constraints (\<open>wf_db\<close>), the table
    \<open>schema_migration\<close>, and one function per SQL statement of \<open>passkeys/postgres.go\<close>.
  \<^item> \<open>Effects\<close>: the world the operations run in, and transactions. Which database calls fail, what
    UUIDs, random bytes and times are drawn, and SHA-256 are the environment \<open>E\<close>, about which
    nothing is assumed; a call may also be carried out and lose its reply.
  \<^item> \<open>Contracts\<close>: the interfaces \<open>Repository\<close> and \<open>WebAuthn\<close> of \<open>passkeys/service.go\<close>, the atomic
    transitions \<open>started\<close>, \<open>finished\<close>, \<open>deleted\<close> (the abstract specification), and the locales with
    the laws the service relies on.
  \<^item> \<open>Postgres\<close>: \<open>passkeys/postgres.go\<close> statement by statement; interprets \<open>repository_contract\<close>.
    \<open>Concurrency\<close>: the same transactions with any number open at once, interleaved statement by statement
    under PostgreSQL's locks (\<open>advance\<close>, \<open>sys_step\<close>).
  \<^item> \<open>Webauthn_Adapter\<close>: \<open>passkeys/webauthn.go\<close> over the go-webauthn library as a record argument;
    interprets \<open>webauthn_contract\<close>.
  \<^item> \<open>Service\<close>: \<open>passkeys/service.go\<close>; the locale \<open>passkey_service\<close> over the two contracts,
    interpreted on the server's own parts. \<open>Transitions\<close>: what every transition keeps: the schema,
    terminal ceremonies, the accounts. \<open>Lifecycle\<close>: the service \<open>Run\<close> builds, and runs of any calls
    (\<open>evolves\<close>). \<open>Progress\<close>: what the service does when no call fails.
  \<^item> \<open>Strict_Json\<close>: \<open>app/json.go\<close>. \<open>Api\<close>: \<open>app/api.go\<close>, with the locale \<open>passkeys_contract\<close> for its
    interface \<open>Passkeys\<close>, and runs of HTTP requests (\<open>serves\<close>).
  \<^item> \<open>Config\<close>: \<open>app/config.go\<close>; \<open>Config_Text\<close>: the JSON text of a configuration, and that it is read back.
  \<^item> \<open>Admin_Queries\<close>: \<open>app/admin_queries.go\<close>. \<open>Paging\<close>: lists read by key, with the locale \<open>keyset\<close> and the
    walk along the links; \<open>Admin_Lists\<close> interprets it on the two lists.
  \<^item> \<open>Admin_Session\<close>: the cookie and the limiter of \<open>app/admin.go\<close>; \<open>Admin_Ui\<close>: its handlers; \<open>Admin_Access\<close>: what
    they do over any store that only reads (the locale \<open>admin_store_contract\<close>).
  \<^item> \<open>Migrations\<close>: \<open>app/database.go\<close>, \<open>Migrate\<close> and \<open>CheckSchema\<close>, and the life of a database under a release
    (\<open>lived\<close>).
  \<^item> \<open>Product\<close>, \<open>Server\<close>: \<open>app/server.go\<close>, \<open>app/tls.go\<close> and \<open>cmd/web/main.go\<close>: the parts put together, \<open>Run\<close> from
    the command line to the listening server, and several nodes over one database (\<open>fleet\<close>).
  \<^item> \<open>Demo\<close>: \<open>cmd/demo/main.go\<close>, and the demo linked to the API of a passkey server.
  \<^item> \<open>Test_Authenticator\<close>: \<open>internal/testauth/authenticator.go\<close>, the passkey the integration tests use.
  \<^item> \<open>Example\<close>, \<open>Example_Concurrency\<close>, \<open>Example_Admin\<close>, \<open>Example_Server\<close>, \<open>Example_Demo\<close>: a concrete server,
    two of its transactions, its administration pages, its start and its demo, on which the theorems are
    instantiated.

  \<^bold>\<open>State and operations.\<close> The state is the record \<open>world\<close>: the database \<open>store\<close> (inside a transaction
  the working one), counters for the environment's streams, the advisory locks of the transaction
  (\<open>locks\<close>) and of the session (\<open>sessions\<close>), and the sign-in \<open>limiter\<close>. An operation of type \<open>'a eff\<close> maps a
  world to an error or a result and the next world; \<open>and_then\<close> is the code's early return on errors.
  Errors are values: \<open>Code\<close> is a public \<open>passkeys.Error\<close>, \<open>Diagnostic\<close> one with an internal cause,
  \<open>Wrapped\<close> an \<open>fmt.Errorf\<close> with \<open>%w\<close>, \<open>Plain\<close> any other, \<open>Panic\<close> a run-time panic. \<open>transaction\<close> runs a
  body on the working database and restores the old one unless the commit is carried out; \<open>exec_auto\<close>
  is a statement outside transactions. An HTTP handler maps a request and a world to a response and
  the next world.

  \<^bold>\<open>The groups of lemmas.\<close> \<open>wf_statement\<close>: every statement keeps the schema's constraints. \<open>*_InrD\<close> and
  \<open>*_Inr\<close>: what a successful statement or operation did. \<open>pg_*_law\<close>: the repository makes one
  complete transition or none. \<open>finished_*\<close>, \<open>started_*\<close>, \<open>deleted_*\<close>: the effect of a transition on
  each table. \<open>steps_*\<close>: invariants of sequences of transitions. \<open>serves_*\<close>, \<open>fleet_*\<close>: the same for
  HTTP requests and for nodes of a release. \<open>*_stable\<close>: a fact a transaction found out
  survives the writes its locks exclude; \<open>advance_*\<close>, \<open>sys_*\<close>: the invariant of open transactions; \<open>*_moves\<close>,
  \<open>*_alone\<close>: the methods of \<open>Postgres\<close> are runs of the interleaved system; \<open>*_rank\<close>: the order of the locks.
  \<open>*_answer\<close>, \<open>*_reads\<close>: what a reader finds in the test authenticator's answers. \<open>migrate_*\<close>:
  \<open>Migrate\<close> keeps \<open>lived\<close>, and completes without failures. \<open>blind_*\<close>: handlers that do not look at the database. \<open>*_page\<close>, \<open>browse_*\<close>: pages of a list, and
  the walk through it. \<open>reads_value\<close>: printed JSON at every place of a document; \<open>*_again\<close>, \<open>same_token\<close>:
  written tokens read back. \<open>relay_*\<close>: what the demo makes of the API's responses. \<open>ex_*\<close>: the concrete
  server.

  \<^bold>\<open>Bounds.\<close> The JSON reader and writer terminate because every token shortens the text, white
  space stripping likewise; the configuration decoder recurses over the type and the text. The only
  fuel is the number of pages a reader follows, and one page more than there are rows is enough.
  Requests are at most 96 KiB and 33 containers deep, configurations 1 MiB, responses to the demo
  1 MiB. Counters of authenticators are 32-bit words; the advisory lock key is the signed reading of a
  64-bit word; \<open>strconv\<close> numbers are checked against 64 bits.

  \<^bold>\<open>Not modelled.\<close> The theories above \<open>Postgres\<close> take transactions one at a time; \<open>Concurrency\<close> shows that
  interleaved ones commit the same complete transitions, over the rules PostgreSQL documents for locks and
  READ COMMITTED, which it states as the steps of a system, and that their lock order excludes deadlocks.
  Times are not rounded to the microseconds of \<open>timestamptz\<close>; \<open>NULL\<close> and empty byte arrays are not told apart. The limiter
  counts in rationals where the code counts in \<open>float64\<close>. Arguments are: the go-webauthn library,
  SHA-256, HMAC, bcrypt, \<open>json.Marshal\<close> of the API's payloads, \<open>mime.ParseMediaType\<close>, \<open>url.Parse\<close>, \<open>net.ParseIP\<close>, the
  redirects of \<open>ServeMux\<close>, the HTML templates and static files, what PostgreSQL does with a
  migration's text, files, key pairs and PEM blocks, the connection string and the listener, and for the test
  authenticator Ed25519, CBOR and the order \<open>json.Marshal\<close> gives the members of a map. Timeouts,
  connection pooling, logging and signals have no counterpart but the ways an operation can fail.
  \<open>assets/assets.go\<close> has no code.
\<close>

section \<open>Properties of the running server\<close>

text \<open>C1. A token is good for one finish: once a finish has succeeded, or has failed and recorded the
failure, no later finish with the same token succeeds or changes the database, whatever calls
were made in between, by whichever client and with whatever response.\<close>

theorem single_use:
  assumes "service_finish E (passkey_server E lib rps apps) k t resp fp w = (q, w1)"
    and "wf_db (store w)" and "\<not> isl q \<or> store w1 \<noteq> store w"
    and "evolves E (passkey_server E lib rps apps) w1 w2"
    and "service_finish E (passkey_server E lib rps apps) k t resp' fp' w2 = (q', w3)"
  shows "isl q' \<and> store w3 = store w2"
  using assms unfolding passkey_server_def by (rule shellty.finish_consumes)

lemma single_use_witness:
  "isl (fst (service_finish ex_env ex_server Registration (ex_token 1) ''{}'' ex_client ex_registered))"
  using single_use [OF ex_finish [unfolded ex_server_def] ex_wf(2) _ idle surjective_pairing]
  by (simp add: ex_server_def)

text \<open>C2. A finish is atomic under every pattern of failures: either it reports an error and the
database is as before, or exactly one transition \<open>finished\<close> was made (the credential change, the
terminal state and the history event together), for a caller that may act for the ceremony's
application; the reply is then the transition's outcome, or a driver error when the reply to the
commit was lost.\<close>

theorem finish_atomic:
  assumes "service_finish E (passkey_server E lib rps apps) k t resp fp w = (q, w')"
    and "wf_db (store w)"
  shows "isl q \<and> store w' = store w
    \<or> (\<exists>c now out. may_act (passkey_server E lib rps apps) (cer_application c) fp
        \<and> finished k (sha256 E t) c now out (store w) (store w') \<and> finish_reply c out q)"
  using shellty.finish_acts [OF assms [unfolded passkey_server_def]]
  unfolding passkey_server_def by (blast dest: finish_authorize_may_act)

lemma finish_atomic_witness:
  "\<exists>c now out. finished Registration (sha256 ex_env (ex_token 1)) c now out (store ex_started)
    (store ex_registered)"
  using finish_atomic [OF ex_finish [unfolded ex_server_def] ex_wf(2)] by auto



text \<open>C16. A ceremony that is no longer pending never changes again, and the history only grows at
its end.\<close>

theorem history_only_grows:
  assumes "evolves E (passkey_server E lib rps apps) w w'" and "wf_db (store w)"
  shows "(\<forall>k row. kind_valid k \<longrightarrow> row \<in> set (table_rows k (store w)) \<longrightarrow> cer_state row \<noteq> pending \<longrightarrow>
      row \<in> set (table_rows k (store w')))
    \<and> (\<exists>es. db_history (store w') = db_history (store w) @ es)"
  using shellty.evolves_steps [OF assms(1) [unfolded passkey_server_def] assms(2)]
    steps_terminal_rows [OF _ assms(2)] steps_history by blast

lemma history_only_grows_witness:
  "\<exists>es. db_history (store ex_registered) = db_history (store ex_world) @ es"
  using history_only_grows [OF ex_run(2) [unfolded ex_server_def] ex_wf(1)] by blast

text \<open>C17. A ceremony past its time ends: without failures and with new UUIDs, the finish of a
pending ceremony at or after its expiry by an authorized client answers with the kind's expired
code, whatever the response, and the ceremony's row is then expired.\<close>

theorem finish_expires:
  assumes "no_faults E" and "fresh_events E (store w)"
    and "acceptable_response resp" and "kind_valid k" and "token_hash (sha256 E) t = Inr h"
    and "select_by_token k (sha256 E t) (store w) = Some c"
    and "finish_authorize (passkey_server E lib rps apps) k fp c = None" and "cer_state c = pending"
    and "\<not> clock E (ticks w) < cer_expires_at c"
    and "service_finish E (passkey_server E lib rps apps) k t resp fp w = (q, w')"
  shows "q = Inl (Code (kind_expired k))
    \<and> (\<exists>y \<in> set (table_rows k (store w')). cer_id y = cer_id c \<and> cer_state y = expired)"
  using server_finish_expires [OF assms(1-9)] finished_expired_rows assms(9,10)
  by (metis Pair_inject isl_def)

lemma finish_expires_witness:
  "fst (service_finish (ex_other (1 + CeremonyTTL)) (ex_other_server (1 + CeremonyTTL)) Registration
      (ex_token 1) ''{}'' ex_client ex_started) = Inl (Code (kind_expired Registration))"
proof -
  let ?E = "ex_other (1 + CeremonyTTL)"
  have "select_by_token Registration (sha256 ?E (ex_token 1)) (store ex_started) = Some ex_ceremony"
    "token_hash (sha256 ?E) (ex_token 1) = Inr (sha256 ?E (ex_token 1))"
    by (simp_all only: ex_other_simps ex_pending_row ex_hash)
  from finish_expires [OF ex_other_faults ex_other_fresh ex_response kind_valid_simps(1) this(2,1)
      ex_other_authorized [unfolded ex_other_server_def] _ _ surjective_pairing]
  show ?thesis by (simp add: ex_ceremony_simps ex_other_simps ex_other_server_def)
qed

text \<open>C18. A registration completes: without failures and with new UUIDs, the finish of a pending,
unexpired registration by an authorized client succeeds when the verifier accepts the response with
a credential that satisfies the schema and is not stored yet.\<close>

theorem registration_completes:
  assumes "no_faults E" and "fresh_events E (store w)" and "acceptable_response resp"
    and "token_hash (sha256 E) t = Inr h"
    and "select_by_token Registration (sha256 E t) (store w) = Some c"
    and "finish_authorize (passkey_server E lib rps apps) Registration fp c = None"
    and "cer_state c = pending" and "clock E (ticks w) < cer_expires_at c"
    and "\<And>w1. store w1 = store w \<Longrightarrow> \<exists>cr w2. store w2 = store w \<and> new_credential c (store w) cr
      \<and> finish_verifier (passkey_server E lib rps apps) Registration resp c
          (select_credentials (cer_application c) (cer_subject c) (store w)) w1 = (Inr cr, w2)"
  shows "\<not> isl (fst (service_finish E (passkey_server E lib rps apps) Registration t resp fp w))"
  using assms by (rule server_finish_registers)

lemma registration_completes_witness:
  "\<not> isl (fst (service_finish (ex_other 7) (ex_other_server 7) Registration (ex_token 1) ''{}''
      ex_client ex_started))"
proof -
  let ?E = "ex_other 7"
  have row: "select_by_token Registration (sha256 ?E (ex_token 1)) (store ex_started) = Some ex_ceremony"
    and hash: "token_hash (sha256 ?E) (ex_token 1) = Inr (sha256 ?E (ex_token 1))"
    by (simp_all only: ex_other_simps ex_pending_row ex_hash)
  have early: "clock ?E (ticks ex_started) < cer_expires_at ex_ceremony"
    by (simp add: ex_other_simps ex_ceremony_simps CeremonyTTL_def seconds_def)
  show ?thesis
    unfolding ex_other_server_def
    by (rule registration_completes [OF ex_other_faults ex_other_fresh ex_response hash row
          ex_other_authorized [unfolded ex_other_server_def] ex_ceremony_simps(6) early])
      (rule ex_other_verifies [unfolded ex_other_server_def])
qed


text \<open>C19. A replay is refused: an authorized finish of a ceremony that is not pending changes nothing
and answers with conflict, unless the database failed.\<close>

theorem replay_refused:
  assumes "acceptable_response resp" and "kind_valid k" and "token_hash (sha256 E) t = Inr h"
    and "select_by_token k (sha256 E t) (store w) = Some c"
    and "finish_authorize (passkey_server E lib rps apps) k fp c = None" and "cer_state c \<noteq> pending"
    and "service_finish E (passkey_server E lib rps apps) k t resp fp w = (q, w')"
  shows "store w' = store w \<and> (q = Inl (Code Conflict) \<or> (\<exists>t. q = Inl (Plain t)))"
  using shellty.finish_stopped [OF assms(1-3) _ assms(7) [unfolded passkey_server_def]]
    assms(4-6) by (simp add: passkey_server_def)

lemma replay_refused_witness:
  "store (snd (service_finish ex_env ex_server Registration (ex_token 1) ''{}'' ex_client
    ex_registered)) = store ex_registered"
  using replay_refused [OF ex_response kind_valid_simps(1) ex_hash(2) ex_done_row
      ex_authorized(2) [unfolded ex_server_def] _ surjective_pairing]
  by (simp add: ex_server_def names)

text \<open>C9. Strangers are locked out: a client whose certificate no application lists gets an error
from every operation, and none of its calls changes the database.\<close>

theorem strangers_locked_out:
  assumes "\<forall>a. \<not> may_act (passkey_server E lib rps apps) a fp" and "wf_db (store w)"
  shows "isl (fst (service_start E (passkey_server E lib rps apps) k a sub name fp w))
    \<and> store (snd (service_start E (passkey_server E lib rps apps) k a sub name fp w)) = store w
    \<and> isl (fst (service_finish E (passkey_server E lib rps apps) k t resp fp w))
    \<and> store (snd (service_finish E (passkey_server E lib rps apps) k t resp fp w)) = store w
    \<and> isl (fst (service_credentials (passkey_server E lib rps apps) a sub fp w))
    \<and> store (snd (service_credentials (passkey_server E lib rps apps) a sub fp w)) = store w
    \<and> isl (fst (service_delete (passkey_server E lib rps apps) a sub i fp w))
    \<and> store (snd (service_delete (passkey_server E lib rps apps) a sub i fp w)) = store w"
proof -
  let ?s = "passkey_server E lib rps apps"
  obtain e where e: "service_authorize ?s a fp = Inl e"
    using assms(1) by (cases "service_authorize ?s a fp") (auto simp: service_authorize_Inr may_act_def)
  have "isl (fst (service_finish E ?s k t resp fp w)) \<and> store (snd (service_finish E ?s k t resp fp w)) = store w"
    using shellty.finish_acts [OF surjective_pairing [of "service_finish E ?s k t resp fp w",
        unfolded passkey_server_def] assms(2)] assms(1)
    unfolding passkey_server_def by (blast dest: finish_authorize_may_act)
  then show ?thesis
    by (simp add: service_start_def service_credentials_def service_delete_def e and_then_def
        of_result_def fail_def)
qed

lemma strangers_locked_out_witness:
  "isl (fst (service_credentials ex_server ''shop'' ''alice'' ''sha256:other'' ex_registered))"
proof -
  have "\<forall>a. \<not> may_act ex_server a ''sha256:other''"
    by (auto simp: may_act_def ex_server_def passkey_server_def new_service_def ex_app_def
        split: if_splits)
  from strangers_locked_out [OF this [unfolded ex_server_def] ex_wf(3)] show ?thesis
    by (simp add: ex_server_def)
qed

text \<open>C20. What a successful start hands out: the caller may act for the application, the returned
token is the encoding of the random bytes and is accepted by \<open>TokenHash\<close>, exactly one pending
ceremony for that application and subject was stored under the token's hash, it expires five
minutes after its creation, and looking the token up finds it.\<close>

theorem start_success:
  assumes "service_start E (passkey_server E lib rps apps) k a sub name fp w = (Inr r, w')"
    and "wf_db (store w)"
  shows "may_act (passkey_server E lib rps apps) a fp
    \<and> token_hash (sha256 E) (sr_token r) = Inr (sha256 E (sr_token r))
    \<and> (\<exists>c. started k c (store w) (store w') \<and> cer_application c = a \<and> cer_subject c = sub
        \<and> cer_state c = pending \<and> cer_expires_at c = cer_created_at c + seconds (5 * 60)
        \<and> sr_expires_at r = cer_expires_at c
        \<and> select_by_token k (sha256 E (sr_token r)) (store w') = Some c)"
proof -
  from assms(1) obtain c b where k: "kind_valid k" and may: "may_act (passkey_server E lib rps apps) a fp"
    and st: "started k c (store w) (store w')" and c: "cer_application c = a" "cer_subject c = sub"
      "cer_state c = pending" "cer_expires_at c = sr_expires_at r"
      "sr_expires_at r = cer_created_at c + CeremonyTTL"
    and h: "cer_token_hash c = (case token_hash (sha256 E) (sr_token r) of Inl _ \<Rightarrow> [] | Inr h \<Rightarrow> h)"
    unfolding passkey_server_def by (rule shellty.start_transition)
  have "length (cer_token_hash c) = 32"
    using st by (auto elim!: startedE dest!: insert_ceremony_InrD simp: ceremony_row_check_def)
  with h obtain x where "token_hash (sha256 E) (sr_token r) = Inr x" by (auto split: sum.splits)
  then have t: "token_hash (sha256 E) (sr_token r) = Inr (sha256 E (sr_token r))"
    by (auto dest: token_hash_Inr)
  with h have "cer_token_hash c = sha256 E (sr_token r)" by simp
  moreover have "ceremony.extend c (ceremony_row.fields None) \<in> set (table_rows k (store w'))"
    using started_rows(1) [OF st] by simp
  from select_by_token_unique [OF started_wf [OF st assms(2)] this]
  have "select_by_token k (cer_token_hash c) (store w') = Some c" by simp
  ultimately show ?thesis using may st c t by (auto simp: CeremonyTTL_def)
qed

lemma start_success_witness:
  "\<exists>c. select_by_token Registration (sha256 ex_env (ex_token 1)) (store ex_started) = Some c
    \<and> cer_application c = ''shop'' \<and> cer_state c = pending"
  using start_success [OF ex_start [unfolded ex_server_def] ex_wf(1)] by auto

text \<open>A list shows a subject's credentials and nothing else: to a client that may act for the
application, exactly the stored credentials of that application and subject, ordered by id.\<close>

theorem list_scoped:
  assumes "service_credentials (passkey_server E lib rps apps) a sub fp w = (Inr cs, w')"
  shows "may_act (passkey_server E lib rps apps) a fp \<and> store w' = store w
    \<and> set cs = {c \<in> set (db_credential (store w)). cred_application c = a \<and> cred_subject c = sub}
    \<and> sorted (map cred_id cs)"
proof -
  from service_credentials_Inr [OF assms] have "may_act (passkey_server E lib rps apps) a fp"
    and "repo_credentials (postgres E) a sub w = (Inr cs, w')" by (simp_all add: server_parts)
  with pg.credentials_law show ?thesis
    by (metis select_credentials_set select_credentials_sorted)
qed

lemma list_scoped_witness:
  "may_act ex_server ''shop'' ex_client \<and> cred_subject ex_credential = ''alice''"
  using list_scoped [OF ex_list [unfolded ex_server_def]] by (auto simp: ex_server_def)

text \<open>C25. A deletion removes exactly the named credential: it existed for that application and
subject, it is gone, every other credential and every ceremony is as before, and the history has one
more event.\<close>

theorem delete_exact:
  assumes "service_delete (passkey_server E lib rps apps) a sub i fp w = (Inr u, w')"
    and "wf_db (store w)"
  shows "may_act (passkey_server E lib rps apps) a fp
    \<and> (\<exists>x \<in> set (db_credential (store w)). cred_id x = i \<and> cred_application x = a \<and> cred_subject x = sub)
    \<and> set (db_credential (store w')) = {c \<in> set (db_credential (store w)). cred_id c \<noteq> i}
    \<and> table_rows k (store w') = table_rows k (store w)
    \<and> (\<exists>e. db_history (store w') = db_history (store w) @ [e] \<and> delete_event a sub i e)"
proof -
  let ?hit = "\<lambda>c. cred_id c = i \<and> cred_application c = a \<and> cred_subject c = sub"
  from service_delete_Inr [OF assms(1)] have may: "may_act (passkey_server E lib rps apps) a fp"
    and del: "repo_delete (postgres E) a sub i w = (Inr (), w')" by (simp_all add: server_parts)
  from pg.delete_law [OF del] have d: "deleted a sub i (store w) (store w')" by simp
  have "filter ?hit (db_credential (store w)) \<noteq> []"
    using deleted_rows(3) [OF d] by auto
  then obtain x where x: "x \<in> set (db_credential (store w))" "?hit x"
    by (auto simp: filter_empty_conv)
  have "distinct (map cred_id (db_credential (store w)))"
    using assms(2) by (simp add: wf_db_def wf_credentials_def)
  with x have "?hit c \<longleftrightarrow> cred_id c = i" if "c \<in> set (db_credential (store w))" for c
    using distinct_key_eq [of cred_id _ c x] that by auto
  with may x deleted_rows [OF d] show ?thesis by auto
qed

lemma delete_exact_witness:
  "\<exists>x \<in> set (db_credential (store ex_registered)). cred_id x = uuid_v7 ex_env 2"
proof -
  obtain u w' where "service_delete ex_server ''shop'' ''alice'' (uuid_v7 ex_env 2) ex_client
    ex_registered = (Inr u, w')"
    using ex_delete by (metis isl_def prod.collapse sum.collapse(2))
  from delete_exact [OF this [unfolded ex_server_def] ex_wf(3)] show ?thesis by blast
qed


text \<open>C15. An authentication rewrites exactly one credential: the one it returns, which belongs to the
returned application and subject; its counter, backup state, library record and time of use change,
and no other credential does.\<close>

theorem authentication_touches_one:
  assumes "service_finish E (passkey_server E lib rps apps) Authentication t resp fp w = (Inr r, w')"
    and "wf_db (store w)"
  shows "\<exists>now sc bs wa. db_credential (store w')
      = map (\<lambda>y. if cred_id y = fr_credential r then touch sc bs wa now y else y)
          (db_credential (store w))
    \<and> (\<exists>x \<in> set (db_credential (store w)). cred_id x = fr_credential r
        \<and> cred_application x = fr_application r \<and> cred_subject x = fr_subject r)"
  using assms(1) unfolding passkey_server_def
  by (rule shellty.finish_authenticates [OF _ assms(2)]) blast

lemma authentication_touches_one_witness:
  "\<exists>x \<in> set (db_credential (store ex_login)). cred_id x = uuid_v7 ex_env 2 \<and> cred_subject x = ''alice''"
proof (rule ex_login_finish)
  fix w'
  assume "service_finish ex_env ex_server Authentication (ex_token 3) ''{}'' ex_client ex_login
    = (Inr \<lparr>fr_application = ''shop'', fr_subject = ''alice'', fr_credential = uuid_v7 ex_env 2\<rparr>, w')"
  from authentication_touches_one [OF this [unfolded ex_server_def] ex_login_wf] show ?thesis
    by auto
qed

text \<open>A refused finish leaves every credential alone: when the reply is an error other than one of
the database driver, no credential was added, changed or removed, even when the ceremony was
consumed.\<close>

theorem refusal_touches_no_credential:
  assumes "service_finish E (passkey_server E lib rps apps) k t resp fp w = (Inl er, w')"
    and "wf_db (store w)" and "\<forall>x. er \<noteq> Plain x"
  shows "db_credential (store w') = db_credential (store w)"
  using shellty.finish_acts [OF assms(1) [unfolded passkey_server_def] assms(2)]
proof (elim disjE conjE exE)
  fix c now out
  assume fin: "finished k (sha256 E t) c now out (store w) (store w')"
    and "finish_reply c out (Inl er)"
  with assms(3) have "out = Inl er" by (cases out) (auto simp: finish_reply_def)
  with fin show ?thesis by (auto dest: finished_failure_credentials)
qed simp

lemma refusal_touches_no_credential_witness:
  "db_credential (store (snd (service_finish ex_env ex_server Registration ''token'' ''{}'' ex_client
    ex_registered))) = [ex_credential]"
proof -
  have "b64_decode ''token'' = None" by code_simp
  then have run: "service_finish ex_env ex_server Registration ''token'' ''{}'' ex_client ex_registered
    = (Inl (Code InvalidRequest), ex_registered)"
    by (simp add: service_finish_def ex_json ex_trim token_hash_def ex_effects)
  from refusal_touches_no_credential [OF run [unfolded ex_server_def] ex_wf(3)] show ?thesis
    by (simp add: run) (simp add: ex_registered_def)
qed

section \<open>Properties of concurrent transactions\<close>

text \<open>C4. Transactions that run at the same time do to the database what complete transitions one
after the other do: from a database that satisfies the constraints, whatever transactions are opened,
in whatever order their statements run, and whichever of them abort, the committed database is one that a
sequence of complete starts, finishes and deletions leads to, and each step of the system commits
nothing or exactly one of them.\<close>

theorem interleaving_refines:
  assumes "(sys_step sha)\<^sup>*\<^sup>* (idle_system d) S" and "wf_db d" and "sys_step sha S S'"
  shows "db_step\<^sup>*\<^sup>* d (committed S)
    \<and> (committed S' = committed S \<or> db_step (committed S) (committed S'))"
proof -
  note inv = sys_inv_idle [OF assms(2)]
  from sys_step_db [OF assms(3) sys_steps_inv [OF assms(1) inv]] sys_steps_db [OF assms(1) inv]
  show ?thesis by (auto simp: idle_system_def)
qed

lemma interleaving_refines_witness: "db_step\<^sup>*\<^sup>* (store ex_started) (store ex_registered)"
proof -
  have "sys_step id (idle_system (store ex_registered)) ((idle_system (store ex_registered))
      \<lparr>opened := (opened (idle_system (store ex_registered)))(0 \<mapsto> ex_second)\<rparr>)"
    unfolding ex_second_def by (rule begins) (simp_all add: idle_system_def ex_job_def)
  from interleaving_refines [OF ex_alone ex_wf(2) this] show ?thesis by (simp add: idle_system_def)
qed

text \<open>C6. A finish decides on current data: when a transaction that finishes a ceremony is ready to
commit, whatever other transactions have committed or are doing meanwhile, its commit is the complete
transition of the committed database at that moment, its ceremony is still pending there, and an outcome
that is a success is one \<open>verify\<close> reaches on the credentials the subject has at that moment; none was
added, used or deleted since it was shown them.\<close>

theorem finish_not_stale:
  assumes "(sys_step sha)\<^sup>*\<^sup>* (idle_system d) S" and "wf_db d" and "opened S n = Some t"
    and "tx_job t = FinishJob k h authorize verify" and "tx_phase t = Recorded p e"
  shows "\<exists>c now out. finished k h c now out (committed S) (sees S t)
    \<and> select_by_token k h (committed S) = Some c \<and> cer_state c = pending \<and> authorize c = None
    \<and> (\<forall>cr. out = Inr cr \<longrightarrow> now < cer_expires_at c \<and> (\<exists>cr0. cr = stamped k now cr0
        \<and> verify c (select_credentials (cer_application c) (cer_subject c) (committed S)) (Inr cr0)))"
proof -
  have inv: "sys_inv sha S" by (rule sys_steps_inv [OF assms(1) sys_inv_idle [OF assms(2)]])
  from sys_commit(1) [OF inv assms(3,5)] assms(4,5) obtain c now seen out where
    fin: "finished k h c now out (committed S) (sees S t)" and res: "resolved k authorize verify c now seen out"
    and cur: "\<And>cs. seen = Some cs \<Longrightarrow> cs = select_credentials (cer_application c) (cer_subject c) (committed S)"
    by (auto split: phase.splits)
  have sel: "select_by_token k h (committed S) = Some c" by (rule finished_found [OF fin])
  have "now < cer_expires_at c \<and> (\<exists>cr0. cr = stamped k now cr0
      \<and> verify c (select_credentials (cer_application c) (cer_subject c) (committed S)) (Inr cr0))"
    if "out = Inr cr" for cr
    using resolved_verified [OF res [unfolded that]] cur by blast
  with fin sel res show ?thesis by (auto simp: resolved_def)
qed

lemma finish_not_stale_witness:
  "\<exists>t c now out. finished Registration ex_hash_key c now out (committed (ex_both t)) (sees (ex_both t) t)"
proof -
  obtain t p e where t: "(sys_step id)\<^sup>*\<^sup>* (idle_system (store ex_started)) (ex_both t)" "tx_job t = ex_job"
    "tx_phase t = Recorded p e" using ex_ready by blast
  have "opened (ex_both t) 0 = Some t" by (simp add: ex_both_def)
  from finish_not_stale [OF t(1) ex_wf(2) this t(2) [unfolded ex_job_def] t(3)] show ?thesis by blast
qed

text \<open>C5. A token is spent for every transaction at once: after the commit of a finish, no transaction
with the same token gets past its row lock, neither one that had begun before the commit nor one that
begins later.\<close>

theorem token_spent_for_all:
  assumes "(sys_step sha)\<^sup>*\<^sup>* (idle_system d) S" and "wf_db d" and "opened S n = Some t"
    and "tx_job t = FinishJob k h authorize verify" and "tx_phase t = Recorded p e"
    and "(sys_step sha)\<^sup>*\<^sup>* \<lparr>committed = sees S t, opened = (opened S)(n := None)\<rparr> S'"
    and "opened S' m = Some u" and "tx_job u = FinishJob k h authorize' verify'"
  shows "tx_phase u = Begun"
proof (rule ccontr)
  assume past: "tx_phase u \<noteq> Begun"
  have inv: "sys_inv sha S" by (rule sys_steps_inv [OF assms(1) sys_inv_idle [OF assms(2)]])
  from sys_commit(1) [OF inv assms(3,5)] assms(4) obtain c now out where
    fin: "finished k h c now out (committed S) (sees S t)" by (auto split: phase.splits)
  have inv1: "sys_inv sha \<lparr>committed = sees S t, opened = (opened S)(n := None)\<rparr>"
    by (rule sys_step_inv [OF commits [OF assms(3,5)] inv])
  from sys_steps_inv [OF assms(6) inv1] assms(7) have "tx_inv sha (committed S') u"
    unfolding sys_inv_def by blast
  from past_lock [OF this assms(8) past] obtain c' where
    c': "select_by_token k h (committed S') = Some c'" "cer_state c' = pending" by blast
  have "db_step\<^sup>*\<^sup>* (sees S t) (committed S')" using sys_steps_db [OF assms(6) inv1] by simp
  from finished_spends [OF fin _ this c'(1)] c'(2) inv show False by (simp add: sys_inv_def)
qed

lemma token_spent_for_all_witness: "tx_phase ex_second = Begun"
proof -
  obtain t p e where t: "(sys_step id)\<^sup>*\<^sup>* (idle_system (store ex_started)) (ex_both t)" "tx_job t = ex_job"
    "tx_phase t = Recorded p e" using ex_ready by blast
  have "opened (ex_both t) 0 = Some t" and "((opened (ex_both t))(0 := None)) 1 = Some ex_second"
    by (simp_all add: ex_both_def)
  from token_spent_for_all [OF t(1) ex_wf(2) this(1) t(2) [unfolded ex_job_def] t(3) rtranclp.rtrancl_refl,
      of 1 ex_second ex_authorize_by "outcomes ex_verify_by"] this(2)
  show ?thesis by (simp add: ex_second_def ex_job_def)
qed

text \<open>C7. Transactions never deadlock: whatever transactions are open and however far each has come, no
chain of waits (one transaction's next statement needs a lock that another holds) comes back to where it
began. Ceremony rows are locked before the subject, the subject before credentials, and those before the
history.\<close>

theorem no_deadlock:
  assumes "(sys_step sha)\<^sup>*\<^sup>* (idle_system d) S" and "wf_db d"
  shows "\<not> (waits_for sha S)\<^sup>+\<^sup>+ n n"
  using waiting_ascends [of sha S n n] sys_steps_inv [OF assms(1) sys_inv_idle [OF assms(2)]]
    sys_steps_ranked [OF assms(1)] by auto

lemma no_deadlock_witness: "\<exists>t. waits_for id (ex_both t) 1 0 \<and> \<not> waits_for id (ex_both t) 0 1"
proof -
  obtain t p e where t: "(sys_step id)\<^sup>*\<^sup>* (idle_system (store ex_started)) (ex_both t)" "tx_job t = ex_job"
    "tx_phase t = Recorded p e" using ex_ready by blast
  have "waits_for id (ex_both t) 1 0" by (rule ex_waits [OF t])
  moreover from this no_deadlock [OF t(1) ex_wf(2), of 1] have "\<not> waits_for id (ex_both t) 0 1"
    by (blast intro: tranclp.r_into_trancl tranclp.trancl_into_trancl)
  ultimately show ?thesis by blast
qed

section \<open>Properties of the WebAuthn adapter and of the domain rules\<close>

text \<open>C14. What the adapter accepts: a verified credential is scoped to the ceremony; the application
has a relying party; the client's origin is one of the application's origins; the library accepted
the response without a clone warning; its public key has an algorithm the server offered; and a
registration was not reported as non-discoverable.\<close>

theorem verify_accepts:
  assumes "adapter_verify E lib rps k a c cs resp w = (Inr cr, w')"
  shows "cred_application cr = cer_application c \<and> cred_subject cr = cer_subject c
    \<and> cred_rpid cr = cer_rpid c \<and> cred_algorithm cr \<in> set (lib_recommended lib)
    \<and> (\<exists>rp u session now v. rps (app_code a) = Some rp
        \<and> lib_decode_session lib (cer_webauthn c) = Inr session \<and> \<not> wc_clone_warning v
        \<and> cred_webauthn_id cr = wc_id v \<and> cred_sign_count cr = wc_sign_count v
        \<and> response_accepted lib k a rp u session resp now v)"
proof -
  from assms obtain rp u session now v w1 where rp: "rps (app_code a) = Some rp"
    and s: "lib_decode_session lib (cer_webauthn c) = Inr session"
    and v: "client_value lib k a rp u session resp now = Inr v"
    and m: "adapter_map E lib k c cs v w1 = (Inr cr, w')"
    by (rule adapter_verify_Inr)
  from m obtain x i where x: "\<not> wc_clone_warning v" "map_credential lib v = Inr x"
    and cr: "cr = (let mapped = x\<lparr>cred_application := cer_application c, cred_subject := cer_subject c,
        cred_rpid := cer_rpid c\<rparr> in
      if k = Registration then mapped\<lparr>cred_id := i\<rparr> else known_credential c cs mapped)"
    by (rule adapter_map_Inr)
  have "cred_application cr = cer_application c \<and> cred_subject cr = cer_subject c
    \<and> cred_rpid cr = cer_rpid c \<and> cred_algorithm cr \<in> set (lib_recommended lib)"
    "cred_webauthn_id cr = wc_id v \<and> cred_sign_count cr = wc_sign_count v"
    using cr map_credential_Inr [OF x(2)] by (auto simp: Let_def)
  with rp s v x(1) show ?thesis unfolding client_value_Inr by blast
qed

lemma verify_accepts_witness: "cred_algorithm ex_credential \<in> {-7, -257, -8}"
proof -
  have "adapter_verify ex_env ex_lib ex_rps Registration ex_app ex_ceremony [] ''{}'' ex_world
    = (Inr (ex_credential\<lparr>cred_id := uuid_v7 ex_env (uuids ex_world), cred_created_at := zero_time\<rparr>),
       ex_world\<lparr>uuids := Suc (uuids ex_world), ticks := Suc (ticks ex_world)\<rparr>)"
    using ex_verify [of ex_world] by (simp add: webauthn_adapter_def)
  from verify_accepts [OF this] show ?thesis by (simp add: ex_lib_def)
qed

text \<open>A failed verification is the client's fault: when the application has a relying party and
what the server stored decodes, every error of \<open>Verify\<close> is the kind's code (400 for the client, and
the ceremony is consumed), never an internal error.\<close>

theorem verify_blames_client:
  assumes "rps (app_code a) = Some rp"
    and "make_webauthn_user E lib a (cer_subject c) (cer_subject c) cs = Inr u"
    and "lib_decode_session lib (cer_webauthn c) = Inr session" and "kind_valid k"
    and "adapter_verify E lib rps k a c cs resp w = (Inl er, w')"
  shows "error_is er (kind_invalid k)"
  using assms
  by (auto simp: adapter_verify_def adapter_map_def registration_value_def authentication_value_def
      map_credential_def invalid_def and_then_def wrapping_def of_result_def fail_def ret_def
      read_clock_def new_uuid_def Let_def kind_valid_def
      split: sum.splits if_splits)

lemma verify_blames_client_witness:
  "error_is (Diagnostic (kind_invalid Registration) (Some (Plain ''origin mismatch'')))
    (kind_invalid Registration)"
proof -
  let ?a = "ex_app\<lparr>app_origins := [''https://other.example.com'']\<rparr>"
  let ?er = "Diagnostic (kind_invalid Registration) (Some (Plain ''origin mismatch''))"
  let ?u = "\<lparr>usr_handle = user_handle (sha256 ex_env) ''shop'' ''alice'', usr_name = ''alice'',
    usr_credentials = []\<rparr>"
  have "ex_rps (app_code ?a) = Some (rp_config ex_app)"
    "make_webauthn_user ex_env ex_lib ?a (cer_subject ex_ceremony) (cer_subject ex_ceremony) [] = Inr ?u"
    "lib_decode_session ex_lib (cer_webauthn ex_ceremony) = Inr ''session''"
    "adapter_verify ex_env ex_lib ex_rps Registration ?a ex_ceremony [] ''{}'' ex_world
      = (Inl ?er, ex_world\<lparr>ticks := 1\<rparr>)"
    by (simp_all add: adapter_verify_def make_webauthn_user_def registration_value_def invalid_def
        ex_effects ex_rps_def ex_lib_def ex_app_def ex_ceremony_simps ex_world_def)
  from verify_blames_client [OF this(1-3) kind_valid_simps(1) this(4)] show ?thesis .
qed

text \<open>A stored ceremony outlives a configuration change only for the same relying party: when the
application of a pending ceremony is no longer configured, no longer lists the client, or has another
RP ID, its finish changes nothing and never succeeds.\<close>

theorem finish_needs_application:
  assumes "wf_db (store w)" and "r \<in> set (table_rows k (store w))" and "cer_token_hash r = sha256 E t"
    and "\<forall>a. svc_applications (passkey_server E lib rps apps) (cer_application r) = Some a \<longrightarrow>
      fp \<notin> set (app_clients a) \<or> app_rpid a \<noteq> cer_rpid r"
    and "service_finish E (passkey_server E lib rps apps) k t resp fp w = (q, w')"
  shows "isl q \<and> store w' = store w"
proof (rule ccontr)
  assume "\<not> ?thesis"
  with shellty.finish_acts [OF assms(5) [unfolded passkey_server_def] assms(1)]
  obtain c now out where auth: "finish_authorize (passkey_server E lib rps apps) k fp c = None"
    and fin: "finished k (sha256 E t) c now out (store w) (store w')"
    unfolding passkey_server_def by blast
  from fin obtain r' where r': "r' \<in> set (table_rows k (store w))" "cer_token_hash r' = sha256 E t"
    "c = ceremony.truncate r'" by (rule finished_settles)
  have "distinct (map cer_token_hash (table_rows k (store w)))"
    using wf_db_table [OF assms(1)] by (simp add: wf_ceremonies_def)
  from distinct_key_eq [OF this r'(1) assms(2)] r' assms(3) have "c = ceremony.truncate r" by simp
  with finish_authorize_None [OF auth] assms(4) show False by (auto simp: service_authorize_Inr)
qed

lemma finish_needs_application_witness:
  "store (snd (service_finish ex_env (passkey_server ex_env ex_lib ex_rps []) Registration
    (ex_token 1) ''{}'' ex_client ex_started)) = store ex_started"
proof -
  have r: "ceremony.extend ex_ceremony (ceremony_row.fields None)
    \<in> set (table_rows Registration (store ex_started))"
    by (simp add: ex_started_def table_rows_def)
  from finish_needs_application [OF ex_wf(2) r _ _ surjective_pairing, of ex_env "ex_token 1"
      ex_lib ex_rps "[]"]
  show ?thesis by (simp add: ex_ceremony_simps passkey_server_def new_service_def)
qed


text \<open>C24. The tokens the server accepts are exactly the ones \<open>NewToken\<close> writes: a string passes
\<open>TokenHash\<close> if and only if, up to the line breaks the decoder skips, it is the encoding of 32
bytes; its hash is then that of the string as given, and any other string is an invalid request.\<close>

theorem token_hash_exact:
  "token_hash sha t =
     (if \<exists>b. length b = 32 \<and> filter (\<lambda>c. \<not> newline c) t = new_token b
      then Inr (sha t) else Inl (Code InvalidRequest))"
proof (cases "\<exists>b. length b = 32 \<and> filter (\<lambda>c. \<not> newline c) t = new_token b")
  case True
  then obtain b where b: "length b = 32" "filter (\<lambda>c. \<not> newline c) t = b64_encode b"
    by (auto simp: new_token_def)
  have "b64_decode t = b64_decode (filter (\<lambda>c. \<not> newline c) t)" by (simp add: b64_decode_def)
  with b True show ?thesis by (simp add: token_hash_def)
next
  case False
  then show ?thesis
    by (auto simp: token_hash_def new_token_def split: option.splits) (metis b64_encode_decode)
qed

text \<open>User handles do not mix users: two applications and subjects have the same user handle (and
so the same advisory lock) only if they are the same, or two different byte strings collide under
the hash.\<close>

theorem user_handle_separates:
  assumes "valid_application_code a" and "valid_application_code a'"
    and "user_handle sha a s = user_handle sha a' s'"
  shows "a = a' \<and> s = s' \<or> (\<exists>x y. x \<noteq> y \<and> sha x = sha y)"
proof (cases "a @ [nul] @ s = a' @ [nul] @ s'")
  case True
  moreover have "nul \<notin> set a" "nul \<notin> set a'" using assms(1,2) by (auto dest: nul_not_in_code)
  ultimately have "a = a' \<and> s = s'"
    by (auto simp: append_eq_append_conv2 append_eq_Cons_conv Cons_eq_append_conv)
  then show ?thesis ..
next
  case False
  with assms(3) show ?thesis unfolding user_handle_def by blast
qed

lemma user_handle_separates_witness: "\<exists>x y :: bytes. x \<noteq> y"
  using user_handle_separates [OF ex_valid(1) ex_valid(1), of "\<lambda>_. ''digest''" "''alice''" "''bob''"]
  by (auto simp: user_handle_def)

section \<open>Properties of a start and of a fleet\<close>

text \<open>C11. A server that serves was started soundly. The file the command line names is at most 1 MiB of
UTF-8 and decodes to a configuration that keeps the rules. TLS is 1.2 or later and verifies client
certificates against the CA file, which holds one. Every embedded migration is recorded in the
database under its checksum. The service knows exactly the configured codes, each with a relying
party, and the clients that may act for an application are those it lists.\<close>

theorem start_checks:
  assumes "run_server E B args w = (Inr (Serving s), w')" and "keeps_migration (bd_script B)"
  shows "\<exists>f b cfg rps adm entries.
    checked_flags (bd_machine B) args (bd_version B) = Inr (Some f)
    \<and> mc_open (bd_machine B) (fl_config f) = Inr (Inr b) \<and> length b \<le> 2 ^ 20 \<and> utf8_valid b
    \<and> load_config (bd_config B) (Inr b) = Inr cfg \<and> config_ok (bd_config B) cfg
    \<and> tls_min_version (srv_tls s) = version_tls12
    \<and> tls_client_auth (srv_tls s) = VerifyClientCertIfGiven \<and> tls_client_cas (srv_tls s) \<noteq> []
    \<and> bd_migrations B = Inr entries \<and> (\<forall>j < length entries. recorded E j (entries ! j) (store w'))
    \<and> srv_api s = product_api E (bd_webauthn B) rps cfg adm (bd_encoder B) (bd_redirect B)
    \<and> dom rps = app_code ` set (cfg_applications cfg)
    \<and> (\<forall>code fp. may_act (passkey_server E (bd_webauthn B) rps (cfg_applications cfg)) code fp
        \<longleftrightarrow> (\<exists>a \<in> set (cfg_applications cfg). app_code a = code \<and> fp \<in> set (app_clients a)))"
proof -
  from assms(1) obtain f cfg tls rps adm w1
    where run: "checked_flags (bd_machine B) args (bd_version B) = Inr (Some f)"
      "open_config (bd_machine B) (bd_config B) (fl_config f) = Inr cfg"
      "tls_setup (bd_machine B) (fl_cert f) (fl_key f) (fl_ca f) = Inr tls"
      "migrate E (bd_script B) (bd_migrations B) w = (Inr (), w1)"
      "new_webauthn (bd_webauthn B) (cfg_applications cfg) = Inr rps"
      "product_admin E cfg (bd_pretty B) (bd_ui B) w1 = (Inr adm, w')"
    and s: "s = server_on (fl_listen f)
      (product_api E (bd_webauthn B) rps cfg adm (bd_encoder B) (bd_redirect B)) tls"
    by (rule run_server_Inr)
  from run(2) obtain opened where opened: "mc_open (bd_machine B) (fl_config f) = Inr opened"
    "load_config (bd_config B) opened = Inr cfg" by (auto simp: open_config_def split: sum.splits)
  note config = load_config_Inr [OF opened(2)]
  obtain entries where entries: "bd_migrations B = Inr entries"
    "\<forall>j < length entries. recorded E j (entries ! j) (store w1)"
    by (rule migrate_records [OF assms(2) run(4)])
  from config(2) obtain b where b: "opened = Inr b" "length b \<le> 2 ^ 20" "utf8_valid b"
    unfolding max_config_bytes_def by blast
  show ?thesis
  proof (intro exI conjI)
    show "checked_flags (bd_machine B) args (bd_version B) = Inr (Some f)" by (rule run(1))
    show "mc_open (bd_machine B) (fl_config f) = Inr (Inr b)" using opened(1) b(1) by simp
    show "length b \<le> 2 ^ 20" "utf8_valid b" by (rule b)+
    show "load_config (bd_config B) (Inr b) = Inr cfg" using opened(2) b(1) by simp
    show "config_ok (bd_config B) cfg" by (rule config(1))
    show "tls_min_version (srv_tls s) = version_tls12"
      "tls_client_auth (srv_tls s) = VerifyClientCertIfGiven" "tls_client_cas (srv_tls s) \<noteq> []"
      using tls_setup_Inr [OF run(3)] by (simp_all add: s server_on_def)
    show "bd_migrations B = Inr entries" by (rule entries(1))
    show "\<forall>j < length entries. recorded E j (entries ! j) (store w')"
      using entries(2) product_admin_store [OF run(6)] by simp
    show "srv_api s = product_api E (bd_webauthn B) rps cfg adm (bd_encoder B) (bd_redirect B)"
      by (simp add: s server_on_def)
    show "dom rps = app_code ` set (cfg_applications cfg)" using run(5) by (rule new_webauthn_dom)
    show "\<forall>code fp. may_act (passkey_server E (bd_webauthn B) rps (cfg_applications cfg)) code fp
        \<longleftrightarrow> (\<exists>a \<in> set (cfg_applications cfg). app_code a = code \<and> fp \<in> set (app_clients a))"
      unfolding passkey_server_def using config_may_act [OF config(1)] by blast
  qed
qed

lemma start_checks_witness:
  "\<exists>cfg. load_config ex_config_lib (Inr (print_config ex_live_config)) = Inr cfg \<and> config_ok ex_config_lib cfg"
proof -
  obtain s w where "run_server ex_env ex_build ex_args ex_world = (Inr (Serving s), w)" by (rule ex_launch)
  from start_checks [OF this] ex_script_lawful(1) ex_live_loads show ?thesis
    by (auto simp: ex_build_def ex_machine_def)
qed

text \<open>C12. A started server is ready while it serves: over a database that kept the constraints when it
started, and scripts that keep them, whatever requests it has answered since, a GET of /ready is answered with 200 unless its database call fails, and then with 503.\<close>

theorem ready_while_serving:
  assumes "run_server E B args w = (Inr (Serving s), w')" and "wf_db (store w)"
    and "\<And>sql d d'. bd_script B sql d = Inr d' \<Longrightarrow> wf_db d \<Longrightarrow> wf_db d'"
    and "serves E (srv_api s) w' w2"
    and "bd_encoder B (StatusBody ''ready'') = Some data"
    and "bd_encoder B (StatusBody ''not_ready'') = Some data'"
    and "rq_method rq = ''GET''" and "rq_path rq = [''ready'']"
  shows "rs_status (fst (api_handler E (srv_api s) rq w2)) = (if fault E (calls w2) = None then 200 else 503)"
proof -
  from assms(1) obtain f cfg tls rps adm w1
    where parsed: "checked_flags (bd_machine B) args (bd_version B) = Inr (Some f)"
      "open_config (bd_machine B) (bd_config B) (fl_config f) = Inr cfg"
      "tls_setup (bd_machine B) (fl_cert f) (fl_key f) (fl_ca f) = Inr tls"
    and run: "migrate E (bd_script B) (bd_migrations B) w = (Inr (), w1)"
      "new_webauthn (bd_webauthn B) (cfg_applications cfg) = Inr rps"
      "product_admin E cfg (bd_pretty B) (bd_ui B) w1 = (Inr adm, w')"
    and s: "s = server_on (fl_listen f)
      (product_api E (bd_webauthn B) rps cfg adm (bd_encoder B) (bd_redirect B)) tls"
    by (rule run_server_Inr)
  have "preserves wf_db (migrate E (bd_script B) (bd_migrations B))"
    by (rule migrate_preserves) (use assms(3) in auto)
  with run(1) assms(2) have "wf_db (store w1)" unfolding preserves_def by (metis snd_conv)
  moreover from run(1) have "schema_current (store w1)" by (rule migrate_success)
  moreover have same: "store w' = store w1" using run(3) by (rule product_admin_store)
  ultimately have "wf_db (store w')" "schema_current (store w')" by simp_all
  moreover from this have "db_step\<^sup>*\<^sup>* (store w') (store w2)"
    using serves_steps [OF _ run(3)] assms(4) by (simp add: s server_on_def)
  ultimately have "schema_current (store w2)" using schema_current_steps by simp
  from check_schema_current [OF this, of E] show ?thesis
    using assms(5-8) by (simp add: s server_on_def ready_status)
qed

lemma ready_while_serving_witness:
  "\<exists>w. rs_status (fst (api_handler ex_env ex_served
     ((ex_get True '''')\<lparr>rq_path := [''ready'']\<rparr>) w)) = 200"
proof -
  obtain s w where start: "run_server ex_env ex_build ex_args ex_world = (Inr (Serving s), w)"
    "srv_api s = ex_served" by (rule ex_launch)
  have enc: "bd_encoder ex_build v = Some ''{}''" for v by (simp add: ex_build_def)
  have "rs_status (fst (api_handler ex_env (srv_api s) ((ex_get True '''')\<lparr>rq_path := [''ready'']\<rparr>) w))
      = (if fault ex_env (calls w) = None then 200 else 503)"
    using ex_script_wf
    by (intro ready_while_serving [OF start(1) ex_wf(1) _ served_none enc enc]) (simp_all add: ex_get_def ex_build_def)
  then show ?thesis using start(2) by (auto simp: ex_env_def)
qed

text \<open>C13. Migrations run once and in order: in every database that nodes of one release lead to by
starting and serving, in any order, on any machines and under any failures, the scripts that have
run are the first n of the release, once each and in their order, and exactly those are recorded,
each under its checksum.\<close>

theorem migrations_once:
  assumes "fleet B sha d" and "keeps_migration (bd_script B)" and "bd_migrations B = Inr (readable files)"
  shows "\<exists>p. lived (bd_script B) (\<lambda>sql. hex_encode (sha sql)) (map snd files) p d
    \<and> (case p of None \<Rightarrow> db_migration d = None
       | Some n \<Rightarrow> n \<le> length files
           \<and> db_migration d = Some (map (\<lambda>i. (int i + 1, hex_encode (sha (snd (files ! i))))) [0..<n]))"
proof -
  from fleet_lived [OF assms] obtain p
    where p: "lived (bd_script B) (\<lambda>sql. hex_encode (sha sql)) (map snd files) p d" ..
  from lived_rows [OF p] show ?thesis
    by (intro exI [of _ p]) (auto simp: p rows_of_def split: option.splits)
qed

lemma migrations_once_witness:
  "\<exists>d p. fleet ex_build (sha256 ex_env) d \<and> db_migration d \<noteq> None
    \<and> lived ex_script (\<lambda>sql. hex_encode (sha256 ex_env sql)) (map snd ex_files) p d"
proof -
  obtain s w where start: "run_server ex_env ex_build ex_args ex_world = (Inr (Serving s), w)"
    "lived ex_script (checksum_of ex_env) (map snd ex_files) (Some 2) (store w)" by (rule ex_launch)
  have "run_server ex_env (ex_build\<lparr>bd_machine := ex_machine\<rparr>) ex_args ex_world = (Inr (Serving s), w)"
    using start(1) by (simp add: ex_build_def)
  moreover have "fleet ex_build (sha256 ex_env) (store ex_world)"
    by (rule new_database) (simp add: ex_world_def empty_db_def)
  ultimately have fleet: "fleet ex_build (sha256 ex_env) (store w)"
    using node_starts [where w = ex_world and E = ex_env, OF _ refl] by blast
  have files: "bd_migrations ex_build = Inr (readable ex_files)" "keeps_migration (bd_script ex_build)"
    using ex_script_lawful(1) by (simp_all add: ex_build_def)
  from migrations_once [OF fleet files(2,1)] obtain p
    where "lived (bd_script ex_build) (\<lambda>sql. hex_encode (sha256 ex_env sql)) (map snd ex_files) p (store w)"
    by (elim exE conjE) (rule that)
  moreover have "bd_script ex_build = ex_script" by (simp add: ex_build_def)
  moreover have "db_migration (store w) \<noteq> None" using lived_Some [OF start(2)] by simp
  ultimately show ?thesis using fleet by (intro exI [of _ "store w"] exI [of _ p]) simp
qed

text \<open>C34. Migrate completes: from every such database, whatever runs before it were cut off, a run
without failures over two readable, well-named scripts that can be run ends, returns nil and leaves
the database at version 2; after that no run, failing or not, changes the database.\<close>

theorem migrate_completes:
  assumes "fleet B (sha256 E) (store w)" and "keeps_migration (bd_script B)"
    and "bd_migrations B = Inr (readable files)" and "length files = 2"
    and "\<forall>i < length files. named i (fst (files ! i))"
    and "runnable (bd_script B) (checksum_of E) (map snd files)" and "no_faults E"
  shows "\<exists>w1. migrate E (bd_script B) (bd_migrations B) w = (Inr (), w1)
    \<and> lived (bd_script B) (checksum_of E) (map snd files) (Some 2) (store w1)
    \<and> (\<forall>E' r w2. sha256 E' = sha256 E \<longrightarrow>
        migrate E' (bd_script B) (bd_migrations B) w1 = (r, w2) \<longrightarrow> store w2 = store w1)"
proof -
  have chk: "checksum_of E' = (\<lambda>sql. hex_encode (sha256 E' sql))" for E'
    by (simp add: checksum_of_def [abs_def])
  from fleet_lived [OF assms(1-3)] obtain p
    where "lived (bd_script B) (checksum_of E) (map snd files) p (store w)" unfolding chk ..
  from migrate_run [OF assms(7,2,6,5,4) this] obtain w1
    where w1: "migrate E (bd_script B) (Inr (readable files)) w = (Inr (), w1)"
      "lived (bd_script B) (checksum_of E) (map snd files) (Some 2) (store w1)" by blast
  have "store w2 = store w1" if "sha256 E' = sha256 E"
    "migrate E' (bd_script B) (bd_migrations B) w1 = (r, w2)" for E' r w2
  proof (rule migrate_done [OF assms(2) _ assms(4)])
    show "lived (bd_script B) (checksum_of E') (map snd files) (Some 2) (store w1)"
      using w1(2) that(1) by (simp add: chk)
  qed (use that(2) assms(3) in simp)
  then show ?thesis using w1 unfolding assms(3) by (intro exI [of _ w1] conjI allI impI)
qed

lemma migrate_completes_witness:
  "\<exists>w1. migrate ex_env ex_script (Inr (readable ex_files)) ex_world = (Inr (), w1)"
proof -
  have build: "bd_script ex_build = ex_script" "bd_migrations ex_build = Inr (readable ex_files)"
    "length ex_files = 2" by (simp_all add: ex_build_def ex_files_def)
  have "fleet ex_build (sha256 ex_env) (store ex_world)"
    by (rule new_database) (simp add: ex_world_def empty_db_def)
  from migrate_completes [OF this, unfolded build(1), OF ex_script_lawful(1) build(2,3) ex_files_named
      ex_script_lawful(2) ex_faultless] show ?thesis
    unfolding build by blast
qed

text \<open>C35. What \<open>LoadConfig\<close> returns is well-formed: application codes are valid and unique; names and
RP IDs have their lengths, an RP ID is a domain name and no address; origins are unique HTTPS origins
of the RP ID, clients unique SHA-256 fingerprints, and there are some of both; an enabled
administration UI has a user name and a bcrypt hash.\<close>

theorem config_well_formed:
  assumes "load_config L file = Inr c"
  shows "config_ok L c \<and> (\<exists>b. file = Inr b \<and> length b \<le> 2 ^ 20 \<and> utf8_valid b
    \<and> (\<forall>st r. reads [] b st r \<longrightarrow> length st \<le> 33))"
proof -
  from load_config_Inr(2) [OF assms] obtain b where "file = Inr b" "length b \<le> max_config_bytes"
    "utf8_valid b" "token_pass [] b = None" by blast
  then show ?thesis
    using load_config_Inr(1) [OF assms] token_pass_depth [of "[]" b] by (auto simp: max_config_bytes_def)
qed

lemma config_well_formed_witness: "config_ok ex_config_lib ex_live_config"
  using config_well_formed [OF ex_live_loads] by blast

text \<open>C36. Every configuration can be written down, and exactly the ones that keep the rules are loaded:
the JSON text of a configuration with UTF-8 strings, if it fits into 1 MiB, is accepted if and
only if the configuration keeps the rules, and then loaded as it is.\<close>

theorem config_roundtrip:
  assumes "utf8_config c" and "length (print_config c) \<le> 2 ^ 20"
  shows "load_config L (Inr (print_config c)) = Inr c \<longleftrightarrow> config_ok L c"
proof
  assume "config_ok L c"
  then show "load_config L (Inr (print_config c)) = Inr c"
    by (intro print_config_loads assms(1)) (use assms(2) in \<open>simp_all add: check_config_None max_config_bytes_def\<close>)
qed (rule load_config_Inr(1))

lemma config_roundtrip_witness:
  "load_config ex_config_lib (Inr (print_config ex_live_config)) = Inr ex_live_config
    \<and> load_config (ex_config_lib\<lparr>cl_ip_address := (\<lambda>_. True)\<rparr>) (Inr (print_config ex_live_config))
        \<noteq> Inr ex_live_config"
proof -
  have short: "length (print_config ex_live_config) \<le> 2 ^ 20"
    using ex_live_short by (simp only: max_config_bytes_def)
  have "\<not> config_ok (ex_config_lib\<lparr>cl_ip_address := (\<lambda>_. True)\<rparr>) ex_live_config"
    by (simp add: config_ok_def application_ok_def ex_live_config_def)
  then show ?thesis using config_roundtrip [OF ex_live_utf8 short] ex_live_ok by blast
qed

section \<open>Properties of the HTTP API\<close>

text \<open>C8. The accounts hold for the server as clients see it: whatever sequence of HTTP requests is
served, well-formed or not, from any client, under any failures, a database that satisfies the
schema's constraints keeps doing so, and if the history accounted for its ceremonies and credentials
it still does: one start event per ceremony, one finish event per ceremony that is not pending, one
successful one per succeeded ceremony, and every registration that succeeded is a stored credential
or a delete event.\<close>

theorem requests_keep_accounts:
  assumes "serves E (product_api E lib rps cfg adm enc redir) w w'"
    and "product_admin E cfg pretty ui w0 = (Inr adm, w1)" and "wf_db (store w)"
  shows "wf_db (store w') \<and> (accounts (store w) \<longrightarrow> accounts (store w'))"
  using serves_steps [OF assms] steps_wf steps_accounts assms(3) by blast

lemma requests_keep_accounts_witness:
  "\<exists>w'. serves ex_env (ex_product (\<lambda>_. None)) ex_world w' \<and> accounts (store w')"
proof -
  let ?a = "ex_product (\<lambda>_. None)"
  have run: "serves ex_env ?a ex_world (snd (api_handler ex_env ?a rq ex_world))" for rq
    by (rule served [OF served_none surjective_pairing])
  from requests_keep_accounts [OF this [unfolded ex_product_def] ex_admin_new ex_wf(1)] run
  show ?thesis using accounts_empty by (auto simp: ex_world_def ex_product_def)
qed

text \<open>C10. Under /v1/ a verified certificate comes first: without one every request gets 403 and the
service is not called, so nothing at all changes.\<close>

theorem certificate_first:
  assumes "fingerprint E rq = ''''" and "rq_path rq = ''v1'' # x # xs"
    and "api_encoder a (ErrorBody ''forbidden'') = Some data"
    and "api_handler E a rq w = (r, w')"
  shows "rs_status r = 403 \<and> w' = w"
  using assms
  by (auto simp: api_handler_def api_mux_def api_v1_def api_fail_def error_status_def write_json_def
      json_response_def names kind_not_found_def Let_def)

lemma certificate_first_witness:
  "rs_status (fst (api_handler ex_env (ex_product (\<lambda>_. Some ''{}'')) (ex_get False '''') ex_world)) = 403"
  using certificate_first [OF _ _ _ surjective_pairing]
  by (simp add: fingerprint_def ex_product_def product_api_def ex_get_def)

text \<open>C23. Error replies disclose public codes only: whatever error the service returns, with whatever
internal text, the status and code sent are one of twelve fixed codes; the status is 500 exactly
for internal\_error, and any other code is the one the error carries.\<close>

theorem errors_disclose_codes:
  "(case error_status e of (status, code) \<Rightarrow>
      code \<in> set public_codes \<and> (status = 500 \<longleftrightarrow> code = InternalError)
      \<and> (status = 500 \<or> as_code e = Some code))
   \<and> (\<exists>status data. api_fail enc e = json_response status data
        \<and> (data = internal_error_text \<or> (\<exists>code \<in> set public_codes. enc (ErrorBody code) = Some data)))"
  using error_status_public [of e] api_fail_cases [of enc e] by (auto split: prod.splits)

text \<open>GET and HEAD are safe: they never change the database.\<close>

theorem get_is_safe:
  assumes "rq_method rq = ''GET'' \<or> rq_method rq = ''HEAD''"
    and "product_admin E cfg pretty ui w0 = (Inr adm, w1)"
    and "api_handler E (product_api E lib rps cfg adm enc redir) rq w = (r, w')"
  shows "store w' = store w"
  using product_safe [OF assms(1,2)] assms(3) unfolding handler_keeps_def by (metis snd_conv)

lemma get_is_safe_witness:
  "store (snd (api_handler ex_env (ex_product (\<lambda>_. Some ''{}''))
      (ex_get True ''application=shop&subject=alice'') ex_registered))
    = store ex_registered"
  unfolding ex_product_def
  by (rule get_is_safe [OF _ ex_admin_new surjective_pairing])
    (simp add: ex_get_def)

text \<open>C22. What a handler ever sees of a body: JSON media type, at most 96 KiB, valid UTF-8, no more
than 33 open containers at any token, and only the members the request declares.\<close>

theorem decoded_bodies_bounded:
  assumes "api_decode ty rq = Inr x"
  shows "rq_media rq = Some ''application/json''
    \<and> (\<exists>body. rq_body rq = Some body \<and> length body \<le> 96 * 1024 \<and> utf8_valid body
        \<and> (\<forall>st r. reads [] body st r \<longrightarrow> length st \<le> 33))
    \<and> (\<forall>name. ty name = None \<longrightarrow> x name = [])"
proof -
  from assms obtain body where b: "rq_media rq = Some ''application/json''" "rq_body rq = Some body"
    "length body \<le> max_request_bytes" "utf8_valid body" "strict_json ty body = Inr x"
    by (rule api_decode_Inr)
  have "\<forall>st r. reads [] body st r \<longrightarrow> length st \<le> 33"
    using token_pass_depth [of "[]" body] strict_json_Inr [OF b(5)] by auto
  moreover have "\<forall>name. ty name = None \<longrightarrow> x name = []"
    using strict_json_Inr [OF b(5)] unmarshal_declared by blast
  ultimately show ?thesis using b by (auto simp: max_request_bytes_def)
qed

lemma decoded_bodies_bounded_witness:
  "\<exists>body. rq_body (ex_post []) = Some body \<and> length body \<le> 96 * 1024"
proof -
  have "api_decode start_request (ex_post []) = Inr (set_members empty_struct [])"
    by (rule decode_printed)
      (simp_all add: plain_members_def ex_post_def max_request_bytes_def)
  from decoded_bodies_bounded [OF this] show ?thesis by blast
qed

text \<open>C21. Printed requests come back: a POST body that prints members with any UTF-8 text under
distinct declared plain names, within the size limit, decodes to exactly those members, every other one empty.\<close>

theorem printed_requests_decode:
  assumes "plain_members ms" and "list_all (\<lambda>m. ty (fst m) = Some StringMember) ms"
    and "rq_media rq = Some ''application/json''" and "rq_body rq = Some (object_text ms)"
    and "length (object_text ms) \<le> 96 * 1024"
  shows "\<exists>x. api_decode ty rq = Inr x \<and> (\<forall>(n, v) \<in> set ms. x n = v)
    \<and> (\<forall>n. n \<notin> fst ` set ms \<longrightarrow> x n = [])"
proof (intro exI conjI)
  show "api_decode ty rq = Inr (set_members empty_struct ms)"
    by (rule decode_printed [OF assms(1-4)]) (use assms(5) in \<open>simp add: max_request_bytes_def\<close>)
  show "\<forall>(n, v) \<in> set ms. set_members empty_struct ms n = v"
    using set_members_value assms(1) by (auto simp: plain_members_def)
  show "\<forall>n. n \<notin> fst ` set ms \<longrightarrow> set_members empty_struct ms n = []"
    by (simp add: set_members_other empty_struct_def)
qed

lemma printed_requests_decode_witness:
  "\<exists>x. api_decode start_request (ex_post [(''application'', ''shop''), (''subject'', ''alice'')]) = Inr x
    \<and> x ''subject'' = ''alice''"
proof -
  let ?ms = "[(''application'', ''shop''), (''subject'', ''alice'')]"
  have ms: "plain_members ?ms" by code_simp
  have ty: "list_all (\<lambda>m. start_request (fst m) = Some StringMember) ?ms"
    by (simp add: start_request_def)
  have "length (escape ''shop'') = 4" "length (escape ''alice'') = 5" by code_simp+
  then have len: "length (object_text ?ms) \<le> 96 * 1024"
    by (simp add: member_text_def del: escape_simps)
  have post: "rq_media (ex_post ?ms) = Some ''application/json''"
    "rq_body (ex_post ?ms) = Some (object_text ?ms)" by (simp_all only: ex_post_def http_request.simps)
  from printed_requests_decode [OF ms ty post len] obtain x where
    "api_decode start_request (ex_post ?ms) = Inr x" "\<forall>(n, v) \<in> set ?ms. x n = v" by blast
  then show ?thesis by (intro exI [of _ x]) simp
qed

section \<open>Properties of the administration UI\<close>

text \<open>C26. A session cookie lives for 30 days: with a 32-byte HMAC, the cookie made at one time is
accepted at another exactly while the later clock's seconds are less than 30 days past the
earlier's, as long as the expiry is a second that 64 bits can hold.\<close>

theorem cookie_lifetime:
  assumes "\<And>k m. length (mac k m) = 32"
    and "0 \<le> unix (issued + admin_cookie_age)" and "unix (issued + admin_cookie_age) < 2 ^ 63"
  shows "valid_cookie mac cfg now (cookie_value mac cfg issued)
    \<longleftrightarrow> unix now < unix issued + 30 * 24 * 3600"
proof -
  have "unix (issued + admin_cookie_age) = unix issued + 30 * 24 * 3600"
    by (simp add: unix_def admin_cookie_age_def seconds_def)
  then show ?thesis using cookie_valid_iff [OF assms(1) refl assms(2,3)] by simp
qed

lemma cookie_lifetime_witness:
  "valid_cookie (ui_mac ex_ui) (cfg_admin ex_config) (seconds 5) ex_session
   \<and> \<not> valid_cookie (ui_mac ex_ui) (cfg_admin ex_config) (seconds 2592000) ex_session"
  using cookie_lifetime [OF ex_mac, where issued = 1 and cfg = "cfg_admin ex_config"]
  by (simp add: ex_session_def unix_def admin_cookie_age_def seconds_def)

text \<open>C27. What an accepted cookie proves: it names a second that has not passed, and carries the HMAC,
under the configured password hash, of a message that determines both the configured user name and
that second; so a cookie for another user or another expiry carries the HMAC of another message.\<close>

theorem cookie_authentic:
  assumes "valid_cookie mac cfg now value"
  shows "\<exists>e sig. split_on CHR ''.'' value = [''v1'', format_int e, sig] \<and> unix now < e
    \<and> hex_decode sig = Some (mac (adm_password_hash cfg) (sign_message (adm_username cfg) (format_int e)))
    \<and> (\<forall>user expires. sign_message user expires = sign_message (adm_username cfg) (format_int e) \<longrightarrow>
        user = adm_username cfg \<and> expires = format_int e)"
  using assms by (rule valid_cookieD) (auto simp: signature_def dest: sign_message_inject)

lemma cookie_authentic_witness:
  "\<exists>e. unix (seconds 5) < e \<and> split_on CHR ''.'' ex_session ! 1 = format_int e"
proof -
  have "valid_cookie (ui_mac ex_ui) (cfg_admin ex_config) (seconds 5) ex_session"
    unfolding ex_session_def
    by (subst cookie_valid_iff [OF ex_mac refl])
      (simp_all add: unix_def admin_cookie_age_def seconds_def)
  from cookie_authentic [OF this] show ?thesis by auto
qed

text \<open>C28. A session is handed out for the password only: a response of the UI that sets a session
cookie answers a POST to /admin/login whose Origin is the server's own, with one user name, the
configured one, and one password of at most 72 bytes that bcrypt accepts for the configured hash,
after the limiter let the attempt through; and the cookie is the one for the time of the sign-in.\<close>

theorem session_only_by_password:
  assumes "sets_session (fst (admin_handler E a rq w)) v" and "v \<noteq> ''''"
  shows "rq_method rq = ''POST'' \<and> rq_path rq = [''admin'', ''login''] \<and> admin_same_origin (au_lib a) rq
    \<and> fst (allow_login E w)
    \<and> (\<exists>password. login_values rq = Some (adm_username (cfg_admin (au_config a)), password)
        \<and> length password \<le> 72
        \<and> ui_bcrypt (au_lib a) (adm_password_hash (cfg_admin (au_config a))) password)
    \<and> v = cookie_value (ui_mac (au_lib a)) (cfg_admin (au_config a))
        (clock E (ticks (snd (allow_login E w))))"
proof -
  note session = admin_session [OF assms]
  then obtain username password where "login_values rq = Some (username, password)"
    "fst (allow_login E w)" "length password \<le> 72"
    "ui_bcrypt (au_lib a) (adm_password_hash (cfg_admin (au_config a))) password"
    "username = adm_username (cfg_admin (au_config a))"
    "v = cookie_value (ui_mac (au_lib a)) (cfg_admin (au_config a))
      (clock E (ticks (snd (allow_login E w))))"
    by (metis login_session)
  with session show ?thesis by auto
qed

lemma session_only_by_password_witness:
  "\<exists>password. ui_bcrypt (au_lib ex_admin) (adm_password_hash (cfg_admin (au_config ex_admin))) password"
  using session_only_by_password [OF ex_session_set] by blast

text \<open>C29. Without a session the UI shows nothing of the database: no database call is made, the
response is the same whatever the database holds, and a GET of the configuration, the credentials,
one credential or the history is redirected to the sign-in page.\<close>

theorem admin_needs_session:
  assumes "\<not> signed_in E a rq w"
  shows "calls (snd (admin_handler E a rq w)) = calls w
    \<and> (\<forall>d. fst (admin_handler E a rq (w\<lparr>store := d\<rparr>)) = fst (admin_handler E a rq w))
    \<and> (rq_method rq = ''GET'' \<longrightarrow>
        rq_path rq \<in> {[''admin'', ''configuration''], [''admin'', ''credentials''], [''admin'', ''history'']}
          \<or> (\<exists>i. i \<noteq> '''' \<and> rq_path rq = [''admin'', ''credentials'', i]) \<longrightarrow>
        rs_status (fst (admin_handler E a rq w)) = 303
        \<and> (''Location'', ''/admin/login'') \<in> set (rs_headers (fst (admin_handler E a rq w))))"
  using blind_admin [OF assms] assms
  by (auto simp: blind_def admin_response admin_mux_def with_method_def protect_def redirect_def
      signed_in_def case_prod_unfold Let_def)

lemma admin_needs_session_witness:
  "rs_status (fst (admin_handler ex_env ex_admin
    (ex_admin_request ''GET'' [''admin'', ''history''] '''' []) ex_registered)) = 303"
  using admin_needs_session [of ex_env ex_admin "ex_admin_request ''GET'' [''admin'', ''history''] '''' []"
      ex_registered]
  by (simp add: signed_in_def ui_authorized_def ex_admin_request_def)



text \<open>C31. The credential list is complete: over a database with canonical ids, a reader who starts at
any filter and follows the links to the next page (the cursor encoded, escaped into the URL and
parsed back each time) comes to an end and has seen exactly the credentials the filter asks for,
newest id first, each once, at most 20 on a page.\<close>

theorem credentials_list_complete:
  assumes "wf_db d" and "\<forall>c \<in> set (db_credential d). uuid_canonical (cred_id c)"
    and "query_filter raw False = Some f" and "fi_cursor f = no_cursor"
    and "length (filter (credential_wanted f) (db_credential d)) < n"
  shows "\<exists>ps. browse (credentials_view d) (credential_link False) n raw = Some ps
    \<and> concat ps = map scan_admin_credential
        (rev (sort_key cred_id (filter (credential_wanted f) (db_credential d))))
    \<and> (\<forall>p \<in> set ps. length p \<le> 20)"
proof -
  let ?rows = "credential_list.listed d (credential_wanted f)"
  have rows: "?rows = rev (sort_key cred_id (filter (credential_wanted f) (db_credential d)))"
    by (simp add: credential_list.listed_def order_by_def)
  have "browse (credentials_view d) (credential_link False) n raw
    = Some (map (map scan_admin_credential) (pages ?rows))"
    by (rule credentials_browsed [OF assms(1-4)]) (use assms(5) in \<open>simp add: rows\<close>)
  then show ?thesis
    using pages_bounded [of _ ?rows] by (auto simp: admin_page_size_def concat_pages rows simp flip: map_concat)
qed

lemma credentials_list_complete_witness:
  "\<exists>ps. browse (credentials_view ex_many_credentials) (credential_link False) 22 '''' = Some ps
    \<and> length (concat ps) = 21"
proof -
  have "length (filter (credential_wanted no_filter) (db_credential ex_many_credentials)) < 22"
    using length_filter_le [of "credential_wanted no_filter" "db_credential ex_many_credentials"]
    by (simp add: ex_many_credentials_def)
  from credentials_list_complete [OF ex_many_wf(1) ex_many_ids(1) ex_no_filter this]
  obtain ps where ps: "browse (credentials_view ex_many_credentials) (credential_link False) 22 '''' = Some ps"
    "concat ps = map scan_admin_credential
      (rev (sort_key cred_id (filter (credential_wanted no_filter) (db_credential ex_many_credentials))))"
    by blast
  have "length (concat ps) = 21" unfolding ps(2) by (simp add: ex_no_filter_wanted ex_many_credentials_def)
  with ps(1) show ?thesis by blast
qed

text \<open>C32. The history list is complete in the same way, newest event first and by id among events of one
time, and going back leads to the page before: from the page after the first k+1 full pages, the link
to the previous page shows the (k+1)st.\<close>

theorem history_list_complete:
  assumes "wf_db d" and "\<forall>e \<in> set (db_history d). linkable e"
    and "query_filter raw True = Some f" and "fi_cursor f = no_cursor"
    and "rows = rev (sort_key event_key (filter (event_wanted f) (db_history d)))" and "length rows < n"
  shows "(\<exists>ps. browse (history_view pretty d) (event_link False) n raw = Some ps
      \<and> concat ps = map (scan_admin_event pretty d) rows \<and> (\<forall>p \<in> set ps. length p \<le> 20))
    \<and> (\<forall>k. 20 * Suc k < length rows \<longrightarrow>
        fst (history_view pretty d
          (event_link True raw (scan_admin_event pretty d (rows ! (20 * Suc k)))))
        = map (scan_admin_event pretty d) (take 20 (drop (20 * k) rows)))"
proof
  have rows: "event_list.listed d (event_wanted f) = rows"
    by (simp add: event_list.listed_def order_by_def assms(5))
  have "browse (history_view pretty d) (event_link False) n raw
    = Some (map (map (scan_admin_event pretty d)) (pages rows))"
    using history_browsed [OF assms(1-4), of n pretty] assms(6) by (simp add: rows)
  then show "\<exists>ps. browse (history_view pretty d) (event_link False) n raw = Some ps
      \<and> concat ps = map (scan_admin_event pretty d) rows \<and> (\<forall>p \<in> set ps. length p \<le> 20)"
    using pages_bounded [of _ rows] by (auto simp: admin_page_size_def concat_pages simp flip: map_concat)
  show "\<forall>k. 20 * Suc k < length rows \<longrightarrow>
      fst (history_view pretty d (event_link True raw (scan_admin_event pretty d (rows ! (20 * Suc k)))))
      = map (scan_admin_event pretty d) (take 20 (drop (20 * k) rows))"
  proof (intro allI impI)
    fix k
    let ?x = "rows ! (20 * Suc k)"
    assume k: "20 * Suc k < length rows"
    have "?x \<in> set (db_history d)" using nth_mem [OF k] by (simp add: assms(5))
    then have x: "uuid_canonical (ev_id ?x)" "printable_time (ev_occurred_at ?x)"
      "ev_occurred_at ?x \<noteq> zero_time" using assms(2) by (auto simp: linkable_def)
    have "event_list.listed d (event_wanted f) = take (20 * Suc k) rows @ ?x # drop (Suc (20 * Suc k)) rows"
      unfolding rows by (rule id_take_nth_drop [OF k])
    from history_neighbour [OF assms(3,1) this x, of pretty True] k
    show "fst (history_view pretty d (event_link True raw (scan_admin_event pretty d ?x)))
      = map (scan_admin_event pretty d) (take 20 (drop (20 * k) rows))"
      by (simp add: admin_page_size_def min_def drop_take)
  qed
qed

lemma history_list_complete_witness:
  "\<exists>ps. browse (history_view (\<lambda>_. ''{}'') ex_many_events) (event_link False) 22 '''' = Some ps
    \<and> length (concat ps) = 21"
proof -
  let ?rows = "rev (sort_key event_key (filter (event_wanted no_filter) (db_history ex_many_events)))"
  have len: "length ?rows = 21" by (simp add: ex_no_filter_wanted ex_many_events_def)
  then have "length ?rows < 22" by simp
  from history_list_complete [OF ex_many_wf(2) ex_many_ids(2) ex_no_filter refl this, of "\<lambda>_. ''{}''"]
  obtain ps where "browse (history_view (\<lambda>_. ''{}'') ex_many_events) (event_link False) 22 '''' = Some ps"
    "concat ps = map (scan_admin_event (\<lambda>_. ''{}'') ex_many_events) ?rows" by blast
  then show ?thesis using len by (metis length_map)
qed

text \<open>C33. No input reaches the SQL text: two filters that fill the same fields give the same statements,
whatever their values, and every placeholder of a statement is filled by exactly one argument.\<close>

theorem sql_text_fixed:
  assumes "same_shape f g"
  shows "credentials_statement f = credentials_statement g \<and> history_statement f = history_statement g
    \<and> placed (credentials_sql f) \<and> placed (history_sql f)"
  using same_statements [OF assms] placed_credentials placed_history by blast

lemma sql_text_fixed_witness:
  "credentials_statement (no_filter\<lparr>fi_subject := ''alice''\<rparr>)
    = credentials_statement (no_filter\<lparr>fi_subject := ''x; DROP TABLE credential''\<rparr>)"
  using sql_text_fixed [of "no_filter\<lparr>fi_subject := ''alice''\<rparr>"
      "no_filter\<lparr>fi_subject := ''x; DROP TABLE credential''\<rparr>"]
  by (simp add: same_shape_def)

section \<open>Properties of the demo client\<close>

text \<open>C37. The demo asks the passkey server only for its own page: whatever the upstream is, a request
is either answered by the demo alone, or it is a POST of a JSON object to the demo's host from its own
origin, and the one call made is the ceremony's step with the demo's application and a valid subject,
whatever else the request says, or with a token and one JSON value without white space.\<close>

theorem demo_guards:
  "(\<exists>r. \<forall>send w. demo_handler d send page rq w = (r, w))
    \<or> (\<exists>k step body p. kind_valid k \<and> page_call d k step body rq
        \<and> (\<forall>send w. snd (demo_handler d send page rq w) = snd (send (step_request d k step p) w))
        \<and> (step = ''start'' \<and> (\<exists>subject. valid_subject subject
              \<and> p = object_text [(''application'', dm_application d), (''subject'', subject)])
          \<or> step = ''finish'' \<and> (\<exists>token c. length token = 43 \<and> length c \<le> 64 * 1024
              \<and> compact_json c = Some c
              \<and> p = CHR ''{'' # member_text (''token'', token) @ CHR '','' # quote # ''credential'' @ quote
                # CHR '':'' # c @ ''}'')))"
  using demo_handler_guarded [of d page rq]
proof (elim disjE exE conjE)
  fix k step body p
  assume call: "kind_valid k" "step \<in> {''start'', ''finish''}" "page_call d k step body rq"
    "demo_payload d (step = ''start'') body = Some p"
    "\<forall>send w. snd (demo_handler d send page rq w) = snd (send (step_request d k step p) w)"
  show ?thesis
  proof (cases "step = ''start''")
    case True
    with call(4) have "demo_payload d True body = Some p" by simp
    then obtain x where "valid_subject (x ''subject'')"
      "p = object_text [(''application'', dm_application d), (''subject'', x ''subject'')]" by (rule start_payload)
    with call True show ?thesis by blast
  next
    case False
    with call(2,4) have step: "step = ''finish''" "demo_payload d False body = Some p" by simp_all
    from step(2) obtain x c where "length (x ''token'') = 43" "length c \<le> 64 * 1024"
      "compact_json (x ''credential'') = Some c"
      "p = CHR ''{'' # member_text (''token'', x ''token'') @ CHR '','' # quote # ''credential'' @ quote
        # CHR '':'' # c @ ''}''" by (rule finish_payload)
    with compact_again call(1,3,5) step(1) show ?thesis by blast
  qed
qed blast





section \<open>Properties of the test authenticator\<close>

text \<open>C40. The test authenticator answers the options of a start as a browser would: in whatever order Go
writes the members, the answer to a login reads back as the authenticator's credential with client data for
that challenge and origin, authenticator data with the RP ID's hash, the flags and the 32-bit counter it was
given, and its signature over both; and \<open>Finish\<close> accepts the answer for verification when it is at most
64 KiB long.\<close>

theorem fixture_authenticates:
  assumes "authenticate L a options rp origin handle counter uv = Some resp"
    and "keeps_members (fx_order L)" and "length (fx_sha256 L rp) = 32"
  shows "\<exists>ch v client data. challenge options = Some ch \<and> unmarshal_value assertion_type resp = Inr v
    \<and> bytes_at [''rawId''] v = Some (au_id a)
    \<and> bytes_at [''response'', ''clientDataJSON''] v = Some client \<and> sent_client_data ''webauthn.get'' ch origin client
    \<and> bytes_at [''response'', ''authenticatorData''] v = Some data
    \<and> read_authenticator_data data = Some (fx_sha256 L rp, if uv then 0x1d else 0x19, unat counter, [])
    \<and> bytes_at [''response'', ''signature''] v = Some (fx_sign L (au_private a) (data @ fx_sha256 L client))
    \<and> bytes_at [''response'', ''userHandle''] v = Some handle
    \<and> (length resp \<le> 64 * 1024 \<longrightarrow> acceptable_response resp)"
  by (rule authenticate_answer [OF assms])

lemma fixture_authenticates_witness:
  "\<exists>resp v data. unmarshal_value assertion_type resp = Inr v
    \<and> bytes_at [''response'', ''authenticatorData''] v = Some data
    \<and> read_authenticator_data data = Some (fx_sha256 ex_fixture ''example.com'', 0x1d, 7, [])"
proof -
  obtain resp where "authenticate ex_fixture ex_authenticator ex_options ''example.com''
    ''https://example.com'' ''handle'' 7 True = Some resp" using ex_assertion by blast
  from fixture_authenticates [OF this ex_order ex_lengths(1)] show ?thesis by auto
qed

end
